(* ===== verification/Prelude.thy ===== *)
theory Prelude
  imports Complex_Main "HOL-Library.Word" "HOL-Library.Signed_Division" "HOL-Library.Monad_Syntax"
    "HOL-Library.List_Lexorder" "HOL-Library.Char_ord" "HOL-Library.Product_Lexorder"
begin

text \<open>
  Shared vocabulary of the development: fixed-width integer types, C's integer
  division, checked shifts and reads (where C++ leaves the result undefined the model
  returns \<open>None\<close>), and the
  ordered map that stands for \<open>std::map\<close>, given by its interface (the
  locale \<open>ordered_map\<close>) and implemented by a sorted association list.
\<close>

unbundle bit_operations_syntax

section \<open>Machine integers\<close>

type_synonym u8 = "8 word"
type_synonym u32 = "32 word"
type_synonym u64 = "64 word"
type_synonym bytes = "u8 list"

text \<open>
  The widths of \<open>size_t\<close> and \<open>unsigned long\<close> depend on the platform: 32 bits on \<open>armeabi-v7a\<close>, one of the ABIs of the
  Android build, and 64 bits on the others. Where the program depends on them, the data model is an argument.
\<close>

datatype data_model = ILP32 | LP64

definition long_bits :: "data_model \<Rightarrow> nat" where
  "long_bits dm = (case dm of ILP32 \<Rightarrow> 32 | LP64 \<Rightarrow> 64)"

lemma long_bits_bounds: "32 \<le> long_bits dm" "long_bits dm \<le> 64"
  by (cases dm; simp add: long_bits_def)+

text \<open>C's \<open>int\<close> is modelled by \<open>int\<close>; \<open>int_range\<close> says that a value fits.\<close>

definition int_range :: "int \<Rightarrow> bool" where
  "int_range x \<longleftrightarrow> - (2 ^ 31) \<le> x \<and> x < 2 ^ 31"

text \<open>\<open>1ULL << n\<close>: undefined unless \<open>0 \<le> n < 64\<close>.\<close>

definition shl1 :: "int \<Rightarrow> u64 option" where
  "shl1 n = (if 0 \<le> n \<and> n < 64 then Some (push_bit (nat n) 1) else None)"

text \<open>\<open>data[i]\<close> of a buffer: undefined out of range.\<close>

definition c_at :: "'a list \<Rightarrow> int \<Rightarrow> 'a option" where
  "c_at xs i = (if 0 \<le> i \<and> i < int (length xs) then Some (xs ! nat i) else None)"

lemma c_at_Some [simp]: "0 \<le> i \<Longrightarrow> i < int (length xs) \<Longrightarrow> c_at xs i = Some (xs ! nat i)"
  by (simp add: c_at_def)

lemma shl1_Some [simp]: "0 \<le> n \<Longrightarrow> n < 64 \<Longrightarrow> shl1 n = Some (push_bit (nat n) 1)"
  by (simp add: shl1_def)

lemma push_bit_1_minus_1: "push_bit n 1 - 1 = (mask n :: 'a::len word)"
  by (simp add: mask_eq_decr_exp push_bit_eq_mult)

lemma int_and_7: "(i :: int) AND 7 = i mod 8"
proof -
  have "(7 :: int) = mask 3" by (simp add: mask_eq_exp_minus_1)
  then show ?thesis by (simp only: take_bit_eq_mask [symmetric]) (simp add: take_bit_eq_mod)
qed

lemma sdiv_8_nonneg [simp]: "0 \<le> (i :: int) \<Longrightarrow> i sdiv 8 = i div 8"
  by (cases "i = 0") (simp_all add: signed_divide_int_def)

lemma smod_8_nonneg [simp]: "0 \<le> (i :: int) \<Longrightarrow> i smod 8 = i mod 8"
  by (cases "i = 0") (simp_all add: signed_modulo_int_def)

section \<open>Ordered maps\<close>

text \<open>
  \<open>std::map\<close>: a finite map whose iteration runs in ascending key order. The interface
  is what the clients use: lookup (\<open>find\<close>), \<open>operator[]\<close> followed by an assignment,
  \<open>erase\<close>, and the iteration sequence.
\<close>

locale ordered_map =
  fixes empty :: "'m"
    and lookup :: "'m \<Rightarrow> ('k :: linorder) \<Rightarrow> 'v option"
    and insert :: "'k \<Rightarrow> 'v \<Rightarrow> 'm \<Rightarrow> 'm"
    and erase :: "'k \<Rightarrow> 'm \<Rightarrow> 'm"
    and entries :: "'m \<Rightarrow> ('k \<times> 'v) list"
    and invar :: "'m \<Rightarrow> bool"
  assumes invar_empty: "invar empty"
    and invar_insert: "invar m \<Longrightarrow> invar (insert k v m)"
    and invar_erase: "invar m \<Longrightarrow> invar (erase k m)"
    and lookup_empty: "lookup empty k = None"
    and lookup_insert: "lookup (insert k v m) k' = (if k' = k then Some v else lookup m k')"
    and lookup_erase: "invar m \<Longrightarrow> lookup (erase k m) k' = (if k' = k then None else lookup m k')"
    and entries_sorted: "invar m \<Longrightarrow> sorted (map fst (entries m)) \<and> distinct (map fst (entries m))"
    and entries_lookup: "invar m \<Longrightarrow> (k, v) \<in> set (entries m) \<longleftrightarrow> lookup m k = Some v"
begin

lemma insert_order_irrelevant:
  "k \<noteq> k' \<Longrightarrow> lookup (insert k v (insert k' v' m)) x = lookup (insert k' v' (insert k v m)) x"
  by (simp add: lookup_insert)

lemma insert_overwrites: "lookup (insert k v (insert k v' m)) x = lookup (insert k v m) x"
  by (simp add: lookup_insert)

lemma lookup_None_iff: "invar m \<Longrightarrow> lookup m k = None \<longleftrightarrow> k \<notin> fst ` set (entries m)"
  using entries_lookup [of m k] by (cases "lookup m k") (auto simp: image_iff intro: bexI [of _ "(k, _)"])

lemma find_first_least:
  assumes "invar m" and "find P (entries m) = Some (k, v)" and "lookup m k' = Some v'" and "P (k', v')"
  shows "lookup m k = Some v \<and> k \<le> k'"
proof -
  obtain i where i: "i < length (entries m)" "entries m ! i = (k, v)" "\<forall>j<i. \<not> P (entries m ! j)"
    using assms(2) by (auto simp: find_Some_iff)
  have "(k', v') \<in> set (entries m)" using assms(1,3) entries_lookup by blast
  then obtain j where j: "j < length (entries m)" "entries m ! j = (k', v')"
    by (auto simp: in_set_conv_nth)
  have "i \<le> j" using i(3) j(2) assms(4) by (metis not_le)
  then have "k \<le> k'"
    using sorted_nth_mono [of "map fst (entries m)" i j] entries_sorted [OF assms(1)] i j by auto
  moreover have "lookup m k = Some v"
    using entries_lookup [OF assms(1)] i(1,2) nth_mem by metis
  ultimately show ?thesis by simp
qed

end

fun ins_key :: "'k::linorder \<Rightarrow> 'v \<Rightarrow> ('k \<times> 'v) list \<Rightarrow> ('k \<times> 'v) list" where
  "ins_key k v [] = [(k, v)]"
| "ins_key k v ((a, b) # m) =
     (if k < a then (k, v) # (a, b) # m
      else if k = a then (k, v) # m else (a, b) # ins_key k v m)"

fun del_key :: "'k::linorder \<Rightarrow> ('k \<times> 'v) list \<Rightarrow> ('k \<times> 'v) list" where
  "del_key k [] = []"
| "del_key k ((a, b) # m) = (if k = a then m else (a, b) # del_key k m)"

definition key_sorted :: "('k::linorder \<times> 'v) list \<Rightarrow> bool" where
  "key_sorted m \<longleftrightarrow> sorted (map fst m) \<and> distinct (map fst m)"

lemma key_sorted_Nil [simp]: "key_sorted []"
  by (simp add: key_sorted_def)

lemma key_sorted_Cons [simp]:
  "key_sorted ((a, b) # m) \<longleftrightarrow> key_sorted m \<and> (\<forall>x\<in>set m. a < fst x)"
  by (auto simp: key_sorted_def order.strict_iff_order image_iff)

lemma set_ins_key_keys: "fst ` set (ins_key k v m) = insert k (fst ` set m)"
  by (induction k v m rule: ins_key.induct) auto

lemma set_del_key: "set (del_key k m) \<subseteq> set m"
  by (induction k m rule: del_key.induct) auto

lemma key_sorted_ins_key: "key_sorted m \<Longrightarrow> key_sorted (ins_key k v m)"
proof (induction k v m rule: ins_key.induct)
  case (2 k v a b m)
  have "\<forall>x\<in>set (ins_key k v m). fst x = k \<or> (\<exists>y\<in>set m. fst x = fst y)"
    using set_ins_key_keys [of k v m] by (metis image_iff insert_iff)
  with 2 show ?case by (fastforce)
qed simp

lemma key_sorted_del_key: "key_sorted m \<Longrightarrow> key_sorted (del_key k m)"
proof (induction k m rule: del_key.induct)
  case (2 k a b m)
  then show ?case using set_del_key [of k m] by (auto)
qed simp

lemma map_of_ins_key [simp]:
  "map_of (ins_key k v m) k' = (if k' = k then Some v else map_of m k')"
  by (induction k v m rule: ins_key.induct) auto

lemma key_sorted_notin: "key_sorted ((a, b) # m) \<Longrightarrow> map_of m a = None"
  by (auto simp: map_of_eq_None_iff)

lemma map_of_del_key:
  "key_sorted m \<Longrightarrow> map_of (del_key k m) k' = (if k' = k then None else map_of m k')"
proof (induction k m rule: del_key.induct)
  case (2 k a b m)
  then show ?case using key_sorted_notin [of a b m] by auto
qed simp

interpretation smap: ordered_map "[]" map_of ins_key del_key "\<lambda>m. m" key_sorted
proof unfold_locales
  fix m :: "('a \<times> 'b) list" and k v
  assume "key_sorted m"
  then show "((k, v) \<in> set m) = (map_of m k = Some v)"
    by (simp add: key_sorted_def map_of_eq_Some_iff)
next
  fix m :: "('a \<times> 'b) list"
  assume "key_sorted m"
  then show "sorted (map fst m) \<and> distinct (map fst m)" by (simp add: key_sorted_def)
qed (simp_all add: key_sorted_ins_key key_sorted_del_key map_of_del_key)

end
