(* ===== verification/Binary64.thy ===== *)
theory Binary64
  imports Prelude "HOL-Library.Log_Nat"
begin

text \<open>
  The C++ type \<open>double\<close> as its IEEE 754 binary64 bit pattern. The arithmetic of the
  language (\<open>+\<close>, \<open>*\<close>, \<open>/\<close>, the comparisons, the conversions from and to integers) is
  defined on the patterns, each operation rounding its exact result once, to nearest
  and ties to even; products and sums are not contracted. A result that is not a number
  is the quiet pattern \<open>0x7FF8000000000000\<close>.

  A pattern is a sign and a 63-bit magnitude. \<open>vmag\<close> reads a magnitude as a real number;
  it is strictly monotone, so comparisons work on the patterns, and rounding never
  crosses a representable number (\<open>round_mag_le\<close>, \<open>round_mag_ge\<close>), which gives exactness
  on representable results.
\<close>

section \<open>Patterns and their values\<close>

type_synonym f64 = "64 word"

definition inf_mag :: nat where
  "inf_mag = 2047 * 2 ^ 52"

definition f_mag :: "f64 \<Rightarrow> nat" where
  "f_mag x = unat x mod 2 ^ 63"

definition f_neg :: "f64 \<Rightarrow> bool" where
  "f_neg x \<longleftrightarrow> 2 ^ 63 \<le> unat x"

definition f_make :: "bool \<Rightarrow> nat \<Rightarrow> f64" where
  "f_make s b = word_of_nat (b mod 2 ^ 63 + (if s then 2 ^ 63 else 0))"

definition f_nan :: f64 where
  "f_nan = 0x7FF8000000000000"

definition is_nan :: "f64 \<Rightarrow> bool" where
  "is_nan x \<longleftrightarrow> inf_mag < f_mag x"

definition is_inf :: "f64 \<Rightarrow> bool" where
  "is_inf x \<longleftrightarrow> f_mag x = inf_mag"

definition is_finite :: "f64 \<Rightarrow> bool" where
  "is_finite x \<longleftrightarrow> f_mag x < inf_mag"

definition bmant :: "nat \<Rightarrow> nat" where
  "bmant b = (if b div 2 ^ 52 = 0 then b else 2 ^ 52 + b mod 2 ^ 52)"

definition bexp :: "nat \<Rightarrow> int" where
  "bexp b = (if b div 2 ^ 52 = 0 then - 1074 else int (b div 2 ^ 52) - 1075)"

definition vmag :: "nat \<Rightarrow> real" where
  "vmag b = real (bmant b) * 2 powi bexp b"

definition f_val :: "f64 \<Rightarrow> real" where
  "f_val x = (if f_neg x then - vmag (f_mag x) else vmag (f_mag x))"

lemma f_mag_less: "f_mag x < 2 ^ 63"
  by (simp add: f_mag_def)

lemma unat_lt64: "unat (x :: 64 word) < 2 ^ 64"
  using unsigned_less [of x] by simp

lemma unat_f_make: "b < 2 ^ 63 \<Longrightarrow> unat (f_make s b) = b + (if s then 2 ^ 63 else 0)"
  unfolding f_make_def by (subst unat_of_nat) simp

lemma top_half: "n < 2 * N \<Longrightarrow> n mod N + (if N \<le> n then N else 0) = (n :: nat)"
  by (auto simp: le_mod_geq)

lemma f_mag_make [simp]: "b < 2 ^ 63 \<Longrightarrow> f_mag (f_make s b) = b"
  by (simp add: f_mag_def unat_f_make)

lemma f_neg_make [simp]: "b < 2 ^ 63 \<Longrightarrow> f_neg (f_make s b) = s"
  by (simp add: f_neg_def unat_f_make)

lemma f_make_parts: "f_make (f_neg x) (f_mag x) = x"
proof -
  have "unat (f_make (f_neg x) (f_mag x)) = f_mag x + (if f_neg x then 2 ^ 63 else 0)"
    by (rule unat_f_make) (rule f_mag_less)
  also have "\<dots> = unat x"
    unfolding f_mag_def f_neg_def by (rule top_half) (use unat_lt64 [of x] in simp)
  finally show ?thesis by (simp add: word_unat_eq_iff)
qed

lemma f_eqI:
  assumes "f_neg x = f_neg y" and "f_mag x = f_mag y"
  shows "x = y"
proof -
  have "f_make (f_neg x) (f_mag x) = f_make (f_neg y) (f_mag y)" using assms by simp
  then show ?thesis by (simp only: f_make_parts)
qed

lemma vmag_nonneg: "0 \<le> vmag b"
  by (simp add: vmag_def)

lemma vmag_0 [simp]: "vmag 0 = 0"
  by (simp add: vmag_def bmant_def)

text \<open>A mantissa and an exponent packed into a magnitude; the carry of a mantissa
  \<open>2 ^ 53\<close> runs into the next binade.\<close>

definition pack :: "int \<Rightarrow> nat \<Rightarrow> nat" where
  "pack e q = nat (e + 1074) * 2 ^ 52 + q"

lemma vmag_pack:
  assumes "- 1074 \<le> e" and "q \<le> 2 ^ 53" and "2 ^ 52 \<le> q \<or> e = - 1074"
  shows "vmag (pack e q) = real q * 2 powi e"
proof -
  define E where "E = nat (e + 1074)"
  have E: "e = int E - 1074" using assms(1) by (simp add: E_def)
  consider "q < 2 ^ 52" "e = - 1074" | "2 ^ 52 \<le> q" "q < 2 ^ 53" | "q = 2 ^ 53"
    using assms(2,3) by linarith
  then show ?thesis
  proof cases
    case 1
    then show ?thesis using E by (simp add: vmag_def pack_def bmant_def bexp_def)
  next
    case 2
    define f where "f = q - 2 ^ 52"
    have f: "q = 2 ^ 52 + f" "f < 2 ^ 52" using 2 by (auto simp: f_def)
    have p: "pack e q = (E + 1) * 2 ^ 52 + f" by (simp add: pack_def E f)
    have "pack e q div 2 ^ 52 = E + 1" "pack e q mod 2 ^ 52 = f"
      unfolding p using f(2) by (simp_all only: div_mult_self3 mod_mult_self3) simp_all
    then show ?thesis by (simp add: vmag_def bmant_def bexp_def E f)
  next
    case 3
    have p: "pack e q = (E + 2) * 2 ^ 52" by (simp add: pack_def E 3)
    have "pack e q div 2 ^ 52 = E + 2" "pack e q mod 2 ^ 52 = 0"
      unfolding p by simp_all
    then show ?thesis by (simp add: vmag_def bmant_def bexp_def E 3 power_int_add power_int_diff)
  qed
qed

lemma pack_bmant_bexp: "pack (bexp b) (bmant b) = b"
proof (cases "b div 2 ^ 52 = 0")
  case True
  then show ?thesis by (simp add: pack_def bexp_def bmant_def)
next
  case False
  have "b = b div 2 ^ 52 * 2 ^ 52 + b mod 2 ^ 52" by presburger
  moreover have "nat (int (b div 2 ^ 52) - 1) = b div 2 ^ 52 - 1" by simp
  ultimately show ?thesis using False by (simp add: pack_def bexp_def bmant_def algebra_simps)
qed

lemma bmant_bounds: "bmant b < 2 ^ 53" "2 ^ 52 \<le> bmant b \<or> bexp b = - 1074" "- 1074 \<le> bexp b"
  by (auto simp: bmant_def bexp_def)


lemma Suc_pack: "Suc b = pack (bexp b) (bmant b + 1)"
  using pack_bmant_bexp [of b] by (simp add: pack_def)

lemma vmag_unfold: "vmag b = real (bmant b) * 2 powi bexp b"
  by (simp add: vmag_def)

lemma vmag_Suc: "vmag (Suc b) = (real (bmant b) + 1) * 2 powi bexp b"
  unfolding Suc_pack by (subst vmag_pack) (use bmant_bounds [of b] in auto)

lemma vmag_strict_mono: "strict_mono vmag"
  unfolding strict_mono_Suc_iff vmag_Suc unfolding vmag_unfold by simp

lemma vmag_less_iff [simp]: "vmag a < vmag b \<longleftrightarrow> a < b"
  using vmag_strict_mono by (rule strict_mono_less)

lemma vmag_le_iff [simp]: "vmag a \<le> vmag b \<longleftrightarrow> a \<le> b"
  using vmag_strict_mono by (rule strict_mono_less_eq)

lemma vmag_eq_iff [simp]: "vmag a = vmag b \<longleftrightarrow> a = b"
  using vmag_strict_mono by (rule strict_mono_eq)

lemma vmag_eq_0_iff [simp]: "vmag b = 0 \<longleftrightarrow> b = 0"
  using vmag_eq_iff [of b 0] by (simp only: vmag_0)

lemma vmag_pos_iff [simp]: "0 < vmag b \<longleftrightarrow> 0 < b"
  using vmag_less_iff [of 0 b] by (simp only: vmag_0)

section \<open>Rounding a quotient\<close>

text \<open>
  \<open>round_mag n d k\<close> is the magnitude nearest to \<open>n / d * 2 ^ k\<close>. The exponent of the
  last place is chosen so that the scaled quotient has 53 bits, and never below that
  of the subnormal numbers.
\<close>

definition lead :: "nat \<Rightarrow> nat \<Rightarrow> int" where
  "lead n d = int (floorlog 2 n) - int (floorlog 2 d)"

definition ulp_exp :: "nat \<Rightarrow> nat \<Rightarrow> int \<Rightarrow> int" where
  "ulp_exp n d k =
     (let l = lead n d
      in max (- 1074) (k + (if d * 2 ^ nat l \<le> n * 2 ^ nat (- l) then l - 52 else l - 53)))"

definition rne :: "nat \<Rightarrow> nat \<Rightarrow> nat" where
  "rne n d =
     (let q = n div d; r = n mod d
      in if d < 2 * r \<or> (2 * r = d \<and> odd q) then q + 1 else q)"

definition round_mag :: "nat \<Rightarrow> nat \<Rightarrow> int \<Rightarrow> nat" where
  "round_mag n d k =
     (if n = 0 then 0
      else (let e = ulp_exp n d k
            in min (pack e (rne (n * 2 ^ nat (k - e)) (d * 2 ^ nat (e - k)))) inf_mag))"

definition ratio :: "nat \<Rightarrow> nat \<Rightarrow> int \<Rightarrow> real" where
  "ratio n d k = real n / real d * 2 powi k"

lemma powi_nat_split: "(2 :: real) ^ nat j / 2 ^ nat (- j) = 2 powi j"
proof (cases "0 \<le> j")
  case True
  then show ?thesis by (simp add: power_int_def)
next
  case False
  then show ?thesis by (simp add: power_int_def divide_simps)
qed

lemma two_powi_add: "(2 :: real) powi (a + b) = 2 powi a * 2 powi b"
  by (simp add: power_int_add)

lemma two_powi_nat: "(2 :: real) powi int j = real (2 ^ j)"
  by simp

lemma ratio_scaled:
  assumes "0 < d"
  shows "real (n * 2 ^ nat (k - e)) / real (d * 2 ^ nat (e - k)) = ratio n d k * 2 powi (- e)"
proof -
  have "real (n * 2 ^ nat (k - e)) / real (d * 2 ^ nat (e - k))
      = real n / real d * (2 ^ nat (k - e) / 2 ^ nat (- (k - e)))"
    by (simp add: field_simps)
  also have "\<dots> = real n / real d * 2 powi (k + - e)"
    by (simp only: powi_nat_split) simp
  also have "\<dots> = ratio n d k * 2 powi (- e)"
    unfolding two_powi_add by (simp add: ratio_def)
  finally show ?thesis .
qed

lemma floorlog_real:
  assumes "0 < (x :: nat)"
  shows "2 powi (int (floorlog 2 x) - 1) \<le> real x" "real x < 2 powi int (floorlog 2 x)"
proof -
  have b: "2 ^ (floorlog 2 x - 1) \<le> x" "x < 2 ^ floorlog 2 x"
    using floorlog_bounds [of x 2] assms by simp_all
  have "0 < floorlog 2 x" using assms floorlog_eq_zero_iff [of 2 x] by linarith
  then have "int (floorlog 2 x) - 1 = int (floorlog 2 x - 1)" by simp
  then have "2 powi (int (floorlog 2 x) - 1) = real (2 ^ (floorlog 2 x - 1))"
    by (simp only: two_powi_nat)
  then show "2 powi (int (floorlog 2 x) - 1) \<le> real x"
    using b(1) by (simp only: of_nat_le_iff)
  show "real x < 2 powi int (floorlog 2 x)"
    using b(2) by (simp only: two_powi_nat of_nat_less_iff)
qed

lemma lead_bounds:
  assumes "0 < n" "0 < d"
  shows "2 powi (lead n d - 1) < real n / real d" "real n / real d < 2 powi (lead n d + 1)"
proof -
  define a b where "a = int (floorlog 2 n)" and "b = int (floorlog 2 d)"
  have n: "2 powi (a - 1) \<le> real n" "real n < 2 powi a"
    using floorlog_real [OF assms(1)] by (simp_all only: a_def)
  have d: "2 powi (b - 1) \<le> real d" "real d < 2 powi b"
    using floorlog_real [OF assms(2)] by (simp_all only: b_def)
  have l: "lead n d = a - b" by (simp add: lead_def a_def b_def)
  have "2 powi (a - b - 1) * real d < 2 powi (a - b - 1) * 2 powi b"
    using d(2) by (intro mult_strict_left_mono) simp_all
  also have "\<dots> = 2 powi (a - 1)"
    unfolding two_powi_add [symmetric] by simp
  also have "\<dots> \<le> real n" by (rule n(1))
  finally show "2 powi (lead n d - 1) < real n / real d"
    using assms(2) by (simp add: less_divide_eq l)
  have "real n < 2 powi a" by (rule n(2))
  also have "\<dots> = 2 powi (a - b + 1) * 2 powi (b - 1)"
    unfolding two_powi_add [symmetric] by simp
  also have "\<dots> \<le> 2 powi (a - b + 1) * real d"
    using d(1) by (intro mult_left_mono) simp_all
  finally show "real n / real d < 2 powi (lead n d + 1)"
    using assms(2) by (simp add: divide_less_eq l)
qed

lemma ulp_exp_bounds:
  assumes "0 < n" "0 < d"
  shows "- 1074 \<le> ulp_exp n d k" "ratio n d k < 2 powi (ulp_exp n d k + 53)"
    "ulp_exp n d k = - 1074 \<or> 2 powi (ulp_exp n d k + 52) \<le> ratio n d k"
proof -
  let ?l = "lead n d"
  have cmp: "d * 2 ^ nat ?l \<le> n * 2 ^ nat (- ?l) \<longleftrightarrow> 2 powi ?l \<le> real n / real d"
  proof -
    have "d * 2 ^ nat ?l \<le> n * 2 ^ nat (- ?l) \<longleftrightarrow> real d * 2 ^ nat ?l \<le> real n * 2 ^ nat (- ?l)"
      by (simp flip: of_nat_le_iff [where 'a = real])
    also have "\<dots> \<longleftrightarrow> 2 ^ nat ?l / 2 ^ nat (- ?l) \<le> real n / real d"
      using assms(2) by (simp add: field_simps)
    finally show ?thesis by (simp only: powi_nat_split)
  qed
  define e where "e = (if 2 powi ?l \<le> real n / real d then ?l - 52 else ?l - 53)"
  have u: "ulp_exp n d k = max (- 1074) (k + e)"
    unfolding ulp_exp_def Let_def e_def cmp by simp
  have e: "2 powi (e + 52) \<le> real n / real d" "real n / real d < 2 powi (e + 53)"
    using lead_bounds [OF assms] by (auto simp: e_def add.commute)
  have pk: "(0 :: real) < 2 powi k" by simp
  have lo: "2 powi (k + e + 52) \<le> ratio n d k"
    using mult_right_mono [OF e(1), of "2 powi k"] pk
    by (simp only: ratio_def two_powi_add ac_simps)
  have hi: "ratio n d k < 2 powi (k + e + 53)"
    using mult_strict_right_mono [OF e(2) pk]
    by (simp only: ratio_def two_powi_add ac_simps)
  show "- 1074 \<le> ulp_exp n d k" by (simp add: u)
  have "(2 :: real) powi (k + e + 53) \<le> 2 powi (ulp_exp n d k + 53)"
    by (rule power_int_increasing) (simp_all add: u)
  with hi show "ratio n d k < 2 powi (ulp_exp n d k + 53)" by simp
  show "ulp_exp n d k = - 1074 \<or> 2 powi (ulp_exp n d k + 52) \<le> ratio n d k"
    using lo by (auto simp: u max_def)
qed

text \<open>Rounding to nearest stays within half a unit of the quotient.\<close>

lemma div_real_bounds:
  assumes "0 < (d :: nat)"
  shows "real (n div d) \<le> real n / real d" "real n / real d < real (n div d) + 1"
proof -
  have n: "real n = real (n div d) * real d + real (n mod d)"
    by (metis div_mult_mod_eq of_nat_add of_nat_mult)
  have m: "real (n mod d) < real d" using assms by simp
  show "real (n div d) \<le> real n / real d" using assms n by (simp add: pos_le_divide_eq)
  show "real n / real d < real (n div d) + 1"
    using assms n m by (simp add: pos_divide_less_eq algebra_simps)
qed

lemma rne_cases:
  assumes "0 < (d :: nat)"
  shows "rne n d = n div d \<or> (rne n d = n div d + 1 \<and> real (n div d) < real n / real d)"
proof (cases "n mod d = 0")
  case True
  then show ?thesis using assms by (simp add: rne_def)
next
  case False
  have "real n = real (n div d) * real d + real (n mod d)"
    by (metis div_mult_mod_eq of_nat_add of_nat_mult)
  with False assms have "real (n div d) < real n / real d" by (simp add: pos_less_divide_eq)
  then show ?thesis by (simp add: rne_def Let_def)
qed

text \<open>The scaled quotient \<open>y\<close>, its floor \<open>q\<close> and the rounded \<open>q'\<close>, as the rounding lemmas
  use them.\<close>

lemma round_mag_scaled:
  assumes "0 < n" "0 < d"
  obtains e q q' and y :: real
    where "round_mag n d k = min (pack e q') inf_mag" "ratio n d k = y * 2 powi e"
      "- 1074 \<le> e" "q < 2 ^ 53" "2 ^ 52 \<le> q \<or> e = - 1074" "real q \<le> y" "y < real (q + 1)"
      "q' = q \<or> (q' = q + 1 \<and> real q < y)"
proof -
  define e where "e = ulp_exp n d k"
  define n' where "n' = n * 2 ^ nat (k - e)"
  define d' where "d' = d * 2 ^ nat (e - k)"
  define q where "q = n' div d'"
  define y where "y = real n' / real d'"
  note u = ulp_exp_bounds [OF assms, of k, folded e_def]
  have d': "0 < d'" using assms(2) by (simp add: d'_def)
  have "y = ratio n d k * 2 powi (- e)"
    unfolding y_def n'_def d'_def by (rule ratio_scaled [OF assms(2)])
  then have x: "ratio n d k = y * 2 powi e" by (simp add: power_int_minus)
  have y: "real q \<le> y" "y < real (q + 1)"
    using div_real_bounds [OF d', of n'] by (simp_all add: q_def y_def)
  have pe: "(0 :: real) < 2 powi e" by simp
  have "y * 2 powi e < 2 powi 53 * 2 powi e"
    using u(2) by (simp only: x two_powi_add mult.commute)
  then have "y < 2 ^ 53" using pe by simp
  with y(1) have "real q < real (2 ^ 53)" by simp
  then have hi: "q < 2 ^ 53" by (simp only: of_nat_less_iff)
  have lo: "2 ^ 52 \<le> q \<or> e = - 1074"
  proof (cases "e = - 1074")
    case False
    with u(3) have "2 powi (e + 52) \<le> y * 2 powi e" by (simp only: x) blast
    then have "2 powi 52 * 2 powi e \<le> y * 2 powi e" by (simp only: two_powi_add mult.commute)
    then have "2 ^ 52 \<le> y" using pe by simp
    with y(2) have "real (2 ^ 52) < real (q + 1)" by simp
    then have "2 ^ 52 < q + 1" by (simp only: of_nat_less_iff)
    then show ?thesis by simp
  qed simp
  have r: "round_mag n d k = min (pack e (rne n' d')) inf_mag"
    using assms by (simp add: round_mag_def Let_def e_def n'_def d'_def)
  show ?thesis
    by (rule that [OF r x u(1) hi lo y]) (use rne_cases [OF d', of n'] in \<open>simp add: q_def y_def\<close>)
qed

lemma round_mag_le:
  assumes "0 < d" "ratio n d k \<le> vmag b"
  shows "round_mag n d k \<le> b"
proof (cases "n = 0")
  case True
  then show ?thesis by (simp add: round_mag_def)
next
  case False
  then have n: "0 < n" by simp
  obtain e q q' y where r: "round_mag n d k = min (pack e q') inf_mag"
    and x: "ratio n d k = y * 2 powi e" and e: "- 1074 \<le> e" "q < 2 ^ 53" "2 ^ 52 \<le> q \<or> e = - 1074"
    and y: "real q \<le> y" "y < real (q + 1)" "q' = q \<or> (q' = q + 1 \<and> real q < y)"
    by (rule round_mag_scaled [OF n assms(1), of k])
  have v: "vmag (pack e q) = real q * 2 powi e" using e by (intro vmag_pack) auto
  have "pack e q' \<le> b"
    using y(3)
  proof
    assume "q' = q"
    moreover have "vmag (pack e q) \<le> ratio n d k" using y(1) by (simp add: v x)
    ultimately show ?thesis using assms(2) by (metis order_trans vmag_le_iff)
  next
    assume q': "q' = q + 1 \<and> real q < y"
    then have "vmag (pack e q) < ratio n d k" by (simp add: v x)
    then have "vmag (pack e q) < vmag b" using assms(2) by (rule less_le_trans)
    then show ?thesis using q' by (simp add: pack_def)
  qed
  then show ?thesis by (simp add: r min_le_iff_disj)
qed

lemma round_mag_ge:
  assumes "0 < d" "vmag b \<le> ratio n d k" "b \<le> inf_mag"
  shows "b \<le> round_mag n d k"
proof (cases "n = 0")
  case True
  then have "vmag b \<le> vmag 0" using assms(2) by (simp add: ratio_def)
  then show ?thesis by (simp only: vmag_le_iff)
next
  case False
  then have n: "0 < n" by simp
  obtain e q q' y where r: "round_mag n d k = min (pack e q') inf_mag"
    and x: "ratio n d k = y * 2 powi e" and e: "- 1074 \<le> e" "q < 2 ^ 53" "2 ^ 52 \<le> q \<or> e = - 1074"
    and y: "real q \<le> y" "y < real (q + 1)" "q' = q \<or> (q' = q + 1 \<and> real q < y)"
    by (rule round_mag_scaled [OF n assms(1), of k])
  have v: "vmag (pack e (q + 1)) = real (q + 1) * 2 powi e" using e by (intro vmag_pack) auto
  have "ratio n d k < vmag (pack e (q + 1))"
    unfolding v x using y(2) by (intro mult_strict_right_mono) simp_all
  with assms(2) have "vmag b < vmag (pack e (q + 1))" by (rule le_less_trans)
  then have "b \<le> pack e q" by (simp add: pack_def)
  also have "\<dots> \<le> pack e q'" using y(3) by (auto simp: pack_def)
  finally show ?thesis using assms(3) by (simp add: r)
qed

lemma round_mag_exact:
  assumes "0 < d" "ratio n d k = vmag b" "b \<le> inf_mag"
  shows "round_mag n d k = b"
  using round_mag_le [OF assms(1), of n k b] round_mag_ge [OF assms(1), of b n k] assms by simp

lemma round_mag_mono_bound: "round_mag n d k \<le> inf_mag"
  by (simp add: round_mag_def Let_def)

section \<open>The operations of the language\<close>

definition f_mul :: "f64 \<Rightarrow> f64 \<Rightarrow> f64" where
  "f_mul x y =
     (if is_nan x \<or> is_nan y then f_nan
      else if is_inf x \<or> is_inf y then
        (if f_mag x = 0 \<or> f_mag y = 0 then f_nan else f_make (f_neg x \<noteq> f_neg y) inf_mag)
      else f_make (f_neg x \<noteq> f_neg y)
        (round_mag (bmant (f_mag x) * bmant (f_mag y)) 1 (bexp (f_mag x) + bexp (f_mag y))))"

definition f_div :: "f64 \<Rightarrow> f64 \<Rightarrow> f64" where
  "f_div x y =
     (if is_nan x \<or> is_nan y then f_nan
      else if is_inf x then (if is_inf y then f_nan else f_make (f_neg x \<noteq> f_neg y) inf_mag)
      else if is_inf y then f_make (f_neg x \<noteq> f_neg y) 0
      else if f_mag y = 0 then
        (if f_mag x = 0 then f_nan else f_make (f_neg x \<noteq> f_neg y) inf_mag)
      else f_make (f_neg x \<noteq> f_neg y)
        (round_mag (bmant (f_mag x)) (bmant (f_mag y)) (bexp (f_mag x) - bexp (f_mag y))))"

definition signed_mant :: "f64 \<Rightarrow> int" where
  "signed_mant x = (if f_neg x then - int (bmant (f_mag x)) else int (bmant (f_mag x)))"

definition f_add :: "f64 \<Rightarrow> f64 \<Rightarrow> f64" where
  "f_add x y =
     (if is_nan x \<or> is_nan y then f_nan
      else if is_inf x then (if is_inf y \<and> f_neg x \<noteq> f_neg y then f_nan else x)
      else if is_inf y then y
      else if f_mag x = 0 \<and> f_mag y = 0 then f_make (f_neg x \<and> f_neg y) 0
      else if f_mag x = 0 then y
      else if f_mag y = 0 then x
      else (let e = min (bexp (f_mag x)) (bexp (f_mag y));
                s = signed_mant x * 2 ^ nat (bexp (f_mag x) - e)
                  + signed_mant y * 2 ^ nat (bexp (f_mag y) - e)
            in if s = 0 then f_make False 0
               else f_make (s < 0) (round_mag (nat \<bar>s\<bar>) 1 e)))"

text \<open>Conversions: from an integer, and C's truncating cast to \<open>int\<close>, which is undefined
  (\<open>None\<close>) when the truncated value does not fit.\<close>

definition f_of_int :: "int \<Rightarrow> f64" where
  "f_of_int i = f_make (i < 0) (round_mag (nat \<bar>i\<bar>) 1 0)"

definition f_trunc :: "f64 \<Rightarrow> int option" where
  "f_trunc x =
     (if is_finite x then
        (let e = bexp (f_mag x); m = bmant (f_mag x);
             a = int (if 0 \<le> e then m * 2 ^ nat e else m div 2 ^ nat (- e));
             v = (if f_neg x then - a else a)
         in if int_range v then Some v else None)
      else None)"

text \<open>A decimal literal of the source: \<open>n / d\<close> rounded once.\<close>

definition f_lit :: "nat \<Rightarrow> nat \<Rightarrow> f64" where
  "f_lit n d = f_make False (round_mag n d 0)"

text \<open>Comparisons; every one of them is false on a NaN, and \<open>-0 = +0\<close>.\<close>

definition f_key :: "f64 \<Rightarrow> int" where
  "f_key x = (if f_neg x then - int (f_mag x) else int (f_mag x))"

definition f_lt :: "f64 \<Rightarrow> f64 \<Rightarrow> bool" where
  "f_lt x y \<longleftrightarrow> \<not> is_nan x \<and> \<not> is_nan y \<and> f_key x < f_key y"

definition f_le :: "f64 \<Rightarrow> f64 \<Rightarrow> bool" where
  "f_le x y \<longleftrightarrow> \<not> is_nan x \<and> \<not> is_nan y \<and> f_key x \<le> f_key y"

definition f_eq :: "f64 \<Rightarrow> f64 \<Rightarrow> bool" where
  "f_eq x y \<longleftrightarrow> \<not> is_nan x \<and> \<not> is_nan y \<and> f_key x = f_key y"

abbreviation (input) f_zero :: f64 where
  "f_zero \<equiv> 0"

abbreviation (input) f_one :: f64 where
  "f_one \<equiv> 0x3FF0000000000000"

text \<open>Finite patterns compare as their values do.\<close>

lemma f_val_key: "f_val x < f_val y \<longleftrightarrow> f_key x < f_key y"
proof -
  have n: "- vmag a < vmag b \<longleftrightarrow> - int a < int b" for a b
  proof (cases "a = 0 \<and> b = 0")
    case False
    then have "0 < vmag a \<or> 0 < vmag b" by simp
    then have "- vmag a < vmag b" using vmag_nonneg [of a] vmag_nonneg [of b] by linarith
    with False show ?thesis by auto
  qed simp
  have p: "\<not> vmag a < - vmag b" for a b
    using vmag_nonneg [of a] vmag_nonneg [of b] by linarith
  show ?thesis using n [of "f_mag x" "f_mag y"] p [of "f_mag x" "f_mag y"]
    by (auto simp: f_val_def f_key_def)
qed

text \<open>Evaluation of closed terms by \<open>simp\<close>.\<close>

lemmas f_eval = f_lit_def round_mag_def ulp_exp_def lead_def compute_floorlog rne_def pack_def
  inf_mag_def f_make_def Let_def f_mul_def f_add_def f_div_def f_of_int_def f_trunc_def f_key_def
  f_lt_def f_le_def f_eq_def signed_mant_def bmant_def bexp_def is_nan_def is_inf_def is_finite_def
  f_mag_def f_neg_def int_range_def

section \<open>Exactness\<close>

lemma inf_mag_less: "b \<le> inf_mag \<Longrightarrow> b < 2 ^ 63"
  by (simp add: inf_mag_def)

lemma f_val_make: "b < 2 ^ 63 \<Longrightarrow> f_val (f_make s b) = (if s then - vmag b else vmag b)"
  by (simp add: f_val_def)

lemma f_val_eqI:
  assumes "is_finite x" and "is_finite y" and "f_val x = f_val y" and "f_val x \<noteq> 0"
  shows "x = y"
proof -
  have "f_val z \<noteq> 0 \<Longrightarrow> f_mag z \<noteq> 0" for z
    by (rule ccontr) (simp add: f_val_def split: if_splits)
  then have "f_mag x \<noteq> 0" "f_mag y \<noteq> 0" using assms(3,4) by simp_all
  then have p: "0 < vmag (f_mag x)" "0 < vmag (f_mag y)" by simp_all
  have "f_neg x = f_neg y"
    using assms(3) p unfolding f_val_def
    by (cases "f_neg x"; cases "f_neg y"; simp only: if_True if_False; linarith)
  then show ?thesis using assms(3) by (intro f_eqI) (auto simp: f_val_def split: if_splits)
qed

text \<open>Every integer up to \<open>2 ^ 53\<close> has a pattern; its magnitude is the rounded one.\<close>

lemma vmag_of_nat:
  assumes "n \<le> 2 ^ 53"
  shows "vmag (round_mag n 1 0) = real n" "round_mag n 1 0 < inf_mag"
proof -
  have "\<exists>b < inf_mag. vmag b = real n"
  proof (cases "n = 0")
    case True
    then show ?thesis by (intro exI [of _ 0]) (simp add: inf_mag_def)
  next
    case False
    define l where "l = floorlog 2 n"
    have b: "2 ^ (l - 1) \<le> n" "n < 2 ^ l"
      using floorlog_bounds [of n 2] False by (simp_all add: l_def)
    have "0 < l" using b(2) False by (cases l) auto
    have "2 ^ (l - 1) \<le> (2 :: nat) ^ 53" using b(1) assms by simp
    then have "l - 1 \<le> 53" by (rule power_le_imp_le_exp [rotated]) simp
    then have l: "l \<le> 54" by simp
    show ?thesis
    proof (cases "l = 54")
      case True
      with b(1) assms have n: "n = 2 ^ 53" by simp
      have "vmag (pack 1 (2 ^ 52)) = real (2 ^ 52) * 2 powi 1" by (rule vmag_pack) simp_all
      then show ?thesis
        by (intro exI [of _ "pack 1 (2 ^ 52)"]) (simp add: n pack_def inf_mag_def)
    next
      case False
      with l have l: "l \<le> 53" by simp
      let ?e = "int l - 53" and ?m = "n * 2 ^ (53 - l)"
      have lo: "2 ^ 52 \<le> ?m"
      proof -
        have "(2 :: nat) ^ 52 = 2 ^ (l - 1) * 2 ^ (53 - l)"
          using l \<open>0 < l\<close> by (simp flip: power_add)
        then show ?thesis using b(1) by (metis mult_le_mono1)
      qed
      have hi: "?m < 2 ^ 53"
      proof -
        have "(2 :: nat) ^ 53 = 2 ^ l * 2 ^ (53 - l)" using l by (simp flip: power_add)
        then show ?thesis using b(2) by (metis mult_less_mono1 zero_less_numeral zero_less_power)
      qed
      have "vmag (pack ?e ?m) = real ?m * 2 powi ?e"
        using lo hi by (intro vmag_pack) auto
      also have "\<dots> = real n * (2 powi int (53 - l) * 2 powi ?e)" by simp
      also have "\<dots> = real n"
        unfolding two_powi_add [symmetric] using l by (simp add: of_nat_diff)
      finally have v: "vmag (pack ?e ?m) = real n" .
      have "nat (?e + 1074) \<le> 1074" using l by simp
      then have "nat (?e + 1074) * 2 ^ 52 \<le> 1074 * 2 ^ 52" by (rule mult_le_mono1)
      with hi have "pack ?e ?m < inf_mag" by (simp add: pack_def inf_mag_def)
      with v show ?thesis by blast
    qed
  qed
  then obtain b where b: "b < inf_mag" "vmag b = real n" by blast
  have "round_mag n 1 0 = b"
    using b by (intro round_mag_exact) (simp_all add: ratio_def)
  with b show "vmag (round_mag n 1 0) = real n" "round_mag n 1 0 < inf_mag" by simp_all
qed

lemma is_finite_make [simp]: "b < inf_mag \<Longrightarrow> is_finite (f_make s b)"
  using inf_mag_less [of b] by (simp add: is_finite_def)

lemma f_of_int_exact:
  assumes "\<bar>i\<bar> \<le> 2 ^ 53"
  shows "is_finite (f_of_int i)" "f_val (f_of_int i) = real_of_int i"
proof -
  have n: "nat \<bar>i\<bar> \<le> 2 ^ 53" using assms by (simp add: nat_le_iff)
  note v = vmag_of_nat [OF n]
  show "is_finite (f_of_int i)" using v(2) by (simp add: f_of_int_def)
  have "round_mag (nat \<bar>i\<bar>) 1 0 < 2 ^ 63" using v(2) inf_mag_less by simp
  then show "f_val (f_of_int i) = real_of_int i"
    using v(1) by (cases "i < 0") (simp_all add: f_of_int_def f_val_make)
qed

lemma finite_not_nan: "is_finite x \<Longrightarrow> \<not> is_nan x \<and> \<not> is_inf x"
  by (simp add: is_finite_def is_nan_def is_inf_def)

lemma f_mul_finite:
  assumes "is_finite x" "is_finite y" "b < inf_mag" "vmag b = \<bar>f_val x * f_val y\<bar>"
  shows "f_mul x y = f_make (f_neg x \<noteq> f_neg y) b"
proof -
  have "\<bar>f_val x * f_val y\<bar> = vmag (f_mag x) * vmag (f_mag y)"
    using vmag_nonneg by (simp add: f_val_def abs_mult)
  also have "\<dots> = ratio (bmant (f_mag x) * bmant (f_mag y)) 1 (bexp (f_mag x) + bexp (f_mag y))"
    by (simp add: ratio_def vmag_unfold two_powi_add)
  finally have "round_mag (bmant (f_mag x) * bmant (f_mag y)) 1 (bexp (f_mag x) + bexp (f_mag y)) = b"
    using assms(3,4) by (intro round_mag_exact) simp_all
  then show ?thesis using assms(1,2) by (simp add: f_mul_def finite_not_nan)
qed

lemma f_one_val: "f_val f_one = 1" "is_finite f_one" "\<not> f_neg f_one"
proof -
  have m: "f_mag f_one = pack (- 52) (2 ^ 52)" by (simp add: f_mag_def pack_def)
  have "vmag (f_mag f_one) = real (2 ^ 52) * 2 powi (- 52)"
    unfolding m by (rule vmag_pack) simp_all
  then have "vmag (f_mag f_one) = 1" by (simp add: power_int_def power_divide)
  moreover show "\<not> f_neg f_one" by (simp add: f_neg_def)
  ultimately show "f_val f_one = 1" by (simp add: f_val_def)
  show "is_finite f_one" by (simp add: is_finite_def inf_mag_def f_mag_def)
qed

lemma f_mul_one [simp]:
  assumes "is_finite x"
  shows "f_mul x f_one = x"
proof -
  have "vmag (f_mag x) = \<bar>f_val x * f_val f_one\<bar>"
    using vmag_nonneg by (simp only: f_one_val) (simp add: f_val_def)
  then have "f_mul x f_one = f_make (f_neg x) (f_mag x)"
    using assms f_mul_finite [of x f_one "f_mag x"] f_one_val by (simp add: is_finite_def)
  then show ?thesis by (simp add: f_make_parts)
qed

lemma f_add_zero:
  assumes "is_finite x"
  shows "f_add x 0 = (if f_mag x = 0 then 0 else x)"
proof -
  have z: "is_finite 0" "f_mag 0 = 0" "\<not> f_neg 0"
    by (simp_all add: is_finite_def f_mag_def f_neg_def inf_mag_def)
  have "f_make False 0 = 0" by (simp add: f_make_def)
  then show ?thesis using assms z by (simp add: f_add_def finite_not_nan)
qed

end
