(* ===== verification/DbcSignal.thy ===== *)
theory DbcSignal
  imports Binary64
begin

text \<open>
  Signals, from \<open>bridge/dbc/dbc.h\<close> and \<open>bridge/dbc/dbc.cc\<close>: the bit positions
  (\<open>flipBitPos\<close>, \<open>updateMsbLsb\<close>), the extraction of a signal's bits from a CAN payload
  (\<open>get_raw_bits\<close>) and the scaling to a physical value (\<open>get_raw_value\<close>).

  The abstract view is \<open>payload_bit\<close> (one numbered bit of a payload) and \<open>sig_pos\<close> (the
  payload position of bit \<open>k\<close> of a signal); the byte-wise extraction loop is shown to
  collect exactly those bits, for both byte orders, and its behaviour on payloads that
  are too short is spelled out.
\<close>

section \<open>Data\<close>

datatype sig_type = Normal | Multiplexed | Multiplexor

record signal =
  sg_type :: sig_type
  sg_name :: string
  start_bit :: int
  sg_msb :: int
  sg_lsb :: int
  sg_size :: int
  factor :: f64
  offset :: f64
  is_signed :: bool
  is_little_endian :: bool
  sg_min :: f64
  sg_max :: f64
  sg_unit :: string
  sg_comment :: string
  receiver_name :: string
  val_desc :: "(f64 \<times> string) list"
  multiplex_value :: int
  multiplexor :: "nat option"

text \<open>The pointer \<open>multiplexor\<close> of a signal is the index of its pointee in the \<open>sigs\<close> of its
  message; \<open>None\<close> is \<open>nullptr\<close>. A value-initialised signal (\<open>Signal s{}\<close>):\<close>

definition signal_init :: signal where
  "signal_init =
     \<lparr>sg_type = Normal, sg_name = [], start_bit = 0, sg_msb = 0, sg_lsb = 0, sg_size = 0,
      factor = f_one, offset = 0, is_signed = False, is_little_endian = False,
      sg_min = 0, sg_max = 0, sg_unit = [], sg_comment = [], receiver_name = [], val_desc = [],
      multiplex_value = 0, multiplexor = None\<rparr>"

definition DEFAULT_NODE_NAME :: string where
  "DEFAULT_NODE_NAME = ''XXX''"

section \<open>Bit positions\<close>

definition flipBitPos :: "int \<Rightarrow> int" where
  "flipBitPos b = 8 * (b sdiv 8) + 7 - b smod 8"

text \<open>\<open>updateMsbLsb\<close>: undefined when \<open>start_bit + size\<close> overflows an \<open>int\<close>.\<close>

definition updateMsbLsb :: "signal \<Rightarrow> signal option" where
  "updateMsbLsb s =
     (if is_little_endian s then
        (if int_range (start_bit s + sg_size s) \<and> int_range (start_bit s + sg_size s - 1)
         then Some (s\<lparr>sg_lsb := start_bit s, sg_msb := start_bit s + sg_size s - 1\<rparr>)
         else None)
      else
        (let f = flipBitPos (start_bit s)
         in if int_range f \<and> int_range (f + sg_size s) \<and> int_range (f + sg_size s - 1)
              \<and> int_range (flipBitPos (f + sg_size s - 1))
            then Some (s\<lparr>sg_lsb := flipBitPos (f + sg_size s - 1), sg_msb := start_bit s\<rparr>)
            else None))"

lemma updateMsbLsb_fix:
  "updateMsbLsb s = Some s \<longleftrightarrow>
     (if is_little_endian s then
        int_range (start_bit s + sg_size s) \<and> int_range (start_bit s + sg_size s - 1)
        \<and> sg_lsb s = start_bit s \<and> sg_msb s = start_bit s + sg_size s - 1
      else
        (let f = flipBitPos (start_bit s)
         in int_range f \<and> int_range (f + sg_size s) \<and> int_range (f + sg_size s - 1)
            \<and> int_range (flipBitPos (f + sg_size s - 1))
            \<and> sg_lsb s = flipBitPos (f + sg_size s - 1) \<and> sg_msb s = start_bit s))"
  by (cases s) (auto simp: updateMsbLsb_def Let_def)

section \<open>Extracting a signal\<close>

text \<open>The loop of \<open>get_raw_bits\<close> for a signal that spans several bytes.\<close>

function raw_loop :: "bytes \<Rightarrow> signal \<Rightarrow> int \<Rightarrow> int \<Rightarrow> u64 \<Rightarrow> u64" where
  "raw_loop data sg i bits val =
     (if 0 \<le> i \<and> i < int (length data) \<and> 0 < bits then
        (let m = (if i = sg_msb sg sdiv 8 then sg_msb sg AND 7 else 7);
             l = (if i = sg_lsb sg sdiv 8 then sg_lsb sg AND 7 else 0);
             nbits = m - l + 1
         in raw_loop data sg (if is_little_endian sg then i - 1 else i + 1) (bits - nbits)
              (push_bit (nat nbits) val
               OR (drop_bit (nat l) (ucast (data ! nat i)) AND (push_bit (nat nbits) 1 - 1))))
      else val)"
  by pat_completeness auto
termination
  by (relation "measure (\<lambda>(data, sg, i, bits, val).
        if is_little_endian sg then nat (i + 1) else nat (int (length data) - i))") auto

declare raw_loop.simps [simp del]

definition get_raw_bits :: "bytes \<Rightarrow> signal \<Rightarrow> u64 option" where
  "get_raw_bits data sg =
     (let msb_byte = sg_msb sg sdiv 8
      in if int (length data) \<le> msb_byte then Some 0
         else (let lsb_byte = sg_lsb sg sdiv 8
               in if msb_byte = lsb_byte then
                    do { b \<leftarrow> c_at data msb_byte;
                         o1 \<leftarrow> shl1 (sg_size sg);
                         Some (drop_bit (nat (sg_lsb sg AND 7)) (ucast b) AND (o1 - 1)) }
                  else Some (raw_loop data sg msb_byte (sg_size sg) 0)))"

text \<open>\<open>get_raw_value\<close>: the shifts of the sign extension are undefined for sizes outside
  \<open>1..64\<close>, and for a negative 64-bit value.\<close>

definition sign_extend :: "signal \<Rightarrow> u64 \<Rightarrow> u64 option" where
  "sign_extend sg val =
     (if is_signed sg then
        do { sb \<leftarrow> shl1 (sg_size sg - 1);
             if val AND sb \<noteq> 0
             then do { o1 \<leftarrow> shl1 (sg_size sg); Some (val OR NOT (o1 - 1)) }
             else Some val }
      else Some val)"

definition scale :: "signal \<Rightarrow> u64 \<Rightarrow> f64" where
  "scale sg val = f_add (f_mul (f_of_int (sint val)) (factor sg)) (offset sg)"

definition get_raw_value :: "bytes \<Rightarrow> signal \<Rightarrow> f64 option" where
  "get_raw_value data sg =
     do { val \<leftarrow> get_raw_bits data sg;
          val \<leftarrow> sign_extend sg val;
          Some (scale sg val) }"

section \<open>What the extraction computes\<close>

definition payload_bit :: "bytes \<Rightarrow> nat \<Rightarrow> bool" where
  "payload_bit data p \<longleftrightarrow> p div 8 < length data \<and> bit (data ! (p div 8)) (p mod 8)"

definition flip :: "nat \<Rightarrow> nat" where
  "flip q = 8 * (q div 8) + (7 - q mod 8)"

definition sig_pos :: "signal \<Rightarrow> nat \<Rightarrow> nat" where
  "sig_pos sg k =
     (if is_little_endian sg then nat (start_bit sg) + k
      else flip (flip (nat (start_bit sg)) + nat (sg_size sg) - 1 - k))"

text \<open>A well-formed signal: 1 to 64 bits that start at a position no payload of 64 bytes
  exceeds, with \<open>msb\<close> and \<open>lsb\<close> as \<open>updateMsbLsb\<close> leaves them.\<close>

definition wf_signal :: "signal \<Rightarrow> bool" where
  "wf_signal sg \<longleftrightarrow>
     0 \<le> start_bit sg \<and> start_bit sg < 2 ^ 16 \<and> 1 \<le> sg_size sg \<and> sg_size sg \<le> 64
     \<and> updateMsbLsb sg = Some sg"

lemma flip_split: obtains d r where "q = 8 * d + r" "r \<le> 7" "flip q = 8 * d + (7 - r)"
proof
  show "q = 8 * (q div 8) + q mod 8" "q mod 8 \<le> 7" by simp_all
qed (simp only: flip_def)

lemma byte_of: "r \<le> 7 \<Longrightarrow> (8 * d + r) div 8 = (d :: nat)" "r \<le> 7 \<Longrightarrow> (8 * d + r) mod 8 = r"
  by simp_all

lemma flip_pack: "r \<le> 7 \<Longrightarrow> flip (8 * d + r) = 8 * d + (7 - r)"
  by (simp only: flip_def byte_of)

lemma flip_div [simp]: "flip q div 8 = q div 8"
  by (rule flip_split [of q]) (simp only: byte_of diff_le_self)

lemma flip_mod [simp]: "flip q mod 8 = 7 - q mod 8"
  by (rule flip_split [of q]) (simp only: byte_of diff_le_self)

lemma flip_flip [simp]: "flip (flip q) = q"
proof (rule flip_split [of q])
  fix d r assume "q = 8 * d + r" "r \<le> 7" "flip q = 8 * d + (7 - r)"
  then show ?thesis by (simp only: flip_pack diff_le_self diff_diff_cancel)
qed

lemma flip_add:
  assumes "q mod 8 + j \<le> 7"
  shows "flip (q + j) + j = flip q"
proof (rule flip_split [of q])
  fix d r assume q: "q = 8 * d + r" "r \<le> 7" and f: "flip q = 8 * d + (7 - r)"
  then have j: "r + j \<le> 7" using assms by (simp only: byte_of)
  have "flip (q + j) = 8 * d + (7 - (r + j))" using q(1) j by (simp only: flip_pack add.assoc)
  with f j show ?thesis by simp
qed

lemma flipBitPos_flip: "flipBitPos (int q) = int (flip q)"
proof -
  have "q mod 8 \<le> 7" by simp
  then show ?thesis
    by (simp add: flipBitPos_def flip_def of_nat_diff zdiv_int zmod_int)
qed

abbreviation sig_bits :: "signal \<Rightarrow> nat" where
  "sig_bits sg \<equiv> nat (sg_size sg)"

text \<open>For a well-formed signal \<open>msb\<close> and \<open>lsb\<close> are the positions of its ends.\<close>

lemma wf_signal_ends:
  assumes "wf_signal sg"
  shows "1 \<le> sig_bits sg" "sig_bits sg \<le> 64" "int (sig_bits sg) = sg_size sg"
    "sg_msb sg = int (sig_pos sg (sig_bits sg - 1))" "sg_lsb sg = int (sig_pos sg 0)"
proof -
  have s: "0 \<le> start_bit sg" "1 \<le> sg_size sg" "sg_size sg \<le> 64" and u: "updateMsbLsb sg = Some sg"
    using assms by (auto simp: wf_signal_def)
  then show n: "1 \<le> sig_bits sg" "sig_bits sg \<le> 64" "int (sig_bits sg) = sg_size sg" by simp_all
  define st n where "st = nat (start_bit sg)" and "n = sig_bits sg"
  have st: "start_bit sg = int st" and sz: "sg_size sg = int n" and n1: "1 \<le> n"
    using s n by (simp_all add: st_def n_def)
  have "sg_msb sg = int (sig_pos sg (n - 1)) \<and> sg_lsb sg = int (sig_pos sg 0)"
  proof (cases "is_little_endian sg")
    case True
    then have "sg_lsb sg = start_bit sg" "sg_msb sg = start_bit sg + sg_size sg - 1"
      using u unfolding updateMsbLsb_fix by simp_all
    then show ?thesis using True n1 by (simp add: sig_pos_def st sz of_nat_diff)
  next
    case False
    have f: "flipBitPos (start_bit sg) + sg_size sg - 1 = int (flip st + n - 1)"
      using n1 by (simp add: st sz flipBitPos_flip of_nat_diff)
    from False have "sg_lsb sg = int (flip (flip st + n - 1))" "sg_msb sg = int st"
      using u unfolding updateMsbLsb_fix
      by (simp_all only: if_False Let_def f flipBitPos_flip) (simp add: st)
    then show ?thesis using False n1 by (simp add: sig_pos_def st sz)
  qed
  then show "sg_msb sg = int (sig_pos sg (sig_bits sg - 1))" "sg_lsb sg = int (sig_pos sg 0)"
    by (simp_all add: n_def)
qed

text \<open>
  One byte of the run. With \<open>r\<close> bits to go, the next bit is bit \<open>r - 1\<close>, at \<open>p\<close>; the byte
  holds \<open>c\<close> of the remaining bits, in descending order from \<open>p\<close>.
\<close>

definition run_len :: "signal \<Rightarrow> nat \<Rightarrow> nat" where
  "run_len sg r = min r (sig_pos sg (r - 1) mod 8 + 1)"

lemma run_len_bounds: "0 < r \<Longrightarrow> 0 < run_len sg r" "run_len sg r \<le> r" "run_len sg r \<le> 8"
  "run_len sg r \<le> sig_pos sg (r - 1) mod 8 + 1"
  by (auto simp: run_len_def min_le_iff_disj)

lemma sig_pos_run:
  assumes "0 < r" "r \<le> sig_bits sg" "j < run_len sg r"
  shows "sig_pos sg (r - 1 - j) + j = sig_pos sg (r - 1)"
proof (cases "is_little_endian sg")
  case True
  then show ?thesis using assms by (simp add: sig_pos_def run_len_def)
next
  case False
  define q where "q = flip (nat (start_bit sg)) + sig_bits sg - r"
  have p: "sig_pos sg (r - 1) = flip q" using False assms by (simp add: sig_pos_def q_def)
  have "flip (nat (start_bit sg)) + sig_bits sg - 1 - (r - 1 - j) = q + j"
    using assms by (simp add: q_def run_len_def)
  then have "sig_pos sg (r - 1 - j) = flip (q + j)" using False by (simp add: sig_pos_def)
  moreover have "q mod 8 + j \<le> 7"
  proof -
    have "j < 7 - q mod 8 + 1" using assms(3) by (simp only: run_len_def p flip_mod)
    then show ?thesis by (simp add: less_Suc_eq_le le_diff_conv2 add.commute)
  qed
  ultimately show ?thesis using flip_add p by simp
qed

text \<open>Where big-endian positions sit in the transmission order \<open>q\<close>.\<close>

lemma sig_pos_be:
  assumes "\<not> is_little_endian sg" "k < sig_bits sg"
  shows "sig_pos sg k = flip (flip (nat (start_bit sg)) + (sig_bits sg - 1 - k))"
  using assms by (simp add: sig_pos_def)

lemma be_shift:
  assumes "\<not> is_little_endian sg" "k < sig_bits sg" "j \<le> k"
  shows "flip (sig_pos sg (k - j)) = flip (sig_pos sg k) + j"
  using assms by (simp add: sig_pos_be)

lemma same_byte_less:
  assumes "p div 8 = q div 8" "p mod 8 = 7"
  shows "\<not> p < (q :: nat)"
proof -
  have "p = 8 * (p div 8) + p mod 8" "q = 8 * (q div 8) + q mod 8" "q mod 8 < 8" by simp_all
  with assms show ?thesis by linarith
qed

lemma int_byte: "int p sdiv 8 = int (p div 8)" "int p AND 7 = int (p mod 8)"
  by (simp_all add: int_and_7 zdiv_int zmod_int)

lemma run_top:
  assumes "wf_signal sg" "0 < r" "r \<le> sig_bits sg" "r = sig_bits sg \<or> sig_pos sg (r - 1) mod 8 = 7"
  shows "(if int (sig_pos sg (r - 1) div 8) = sg_msb sg sdiv 8 then sg_msb sg AND 7 else 7)
    = int (sig_pos sg (r - 1) mod 8)"
proof (cases "r = sig_bits sg")
  case True
  then show ?thesis by (simp only: wf_signal_ends(4) [OF assms(1)] int_byte) simp
next
  case False
  let ?p = "sig_pos sg (r - 1)" and ?m = "sig_pos sg (sig_bits sg - 1)"
  have r: "r < sig_bits sg" and t: "?p mod 8 = 7" using False assms(3,4) by auto
  have "?p div 8 \<noteq> ?m div 8"
  proof
    assume e: "?p div 8 = ?m div 8"
    show False
    proof (cases "is_little_endian sg")
      case True
      then have "?p < ?m" using r assms(2) by (simp add: sig_pos_def)
      with e t same_byte_less show False by blast
    next
      case False
      let ?f = "flip (nat (start_bit sg))" and ?q = "flip ?p"
      have q: "?q = ?f + (sig_bits sg - r)" "flip ?m = ?f"
        using False r assms(2) by (simp_all add: sig_pos_be)
      have "?q mod 8 = 0" using t by simp
      moreover have "?q div 8 = ?f div 8" using e q(2) by (metis flip_div)
      ultimately have "?q \<le> ?f" by (metis add.right_neutral div_mult_mod_eq div_times_less_eq_dividend)
      then show False using q(1) r by simp
    qed
  qed
  then show ?thesis using t by (simp only: wf_signal_ends(4) [OF assms(1)] int_byte) simp
qed

lemma run_other_byte:
  assumes "0 < r" "r \<le> sig_bits sg" "run_len sg r < r"
  shows "sig_pos sg (r - 1) div 8 \<noteq> sig_pos sg 0 div 8"
proof -
  have short: "\<not> r \<le> sig_pos sg (r - 1) mod 8 + 1" using assms(3) by (auto simp: run_len_def)
  let ?p = "sig_pos sg (r - 1)"
  show ?thesis
  proof (cases "is_little_endian sg")
    case True
    then have "sig_pos sg 0 + (r - 1) = ?p" by (simp add: sig_pos_def)
    moreover have "?p = 8 * (?p div 8) + ?p mod 8" by simp
    ultimately have "sig_pos sg 0 < 8 * (?p div 8)" using short by linarith
    then show ?thesis by (simp add: less_mult_imp_div_less mult.commute less_imp_neq)
  next
    case be: False
    let ?q = "flip ?p"
    have z: "flip (sig_pos sg 0) = ?q + (r - 1)"
      using be_shift [OF be, of "r - 1" "r - 1"] assms by simp
    define d x where "d = ?p div 8" and "x = ?p mod 8"
    have "?q = 8 * d + (7 - x)" by (simp only: flip_def d_def x_def)
    moreover have "x \<le> 7" "x + 1 < r" using short by (simp_all add: x_def)
    ultimately have "8 * (d + 1) \<le> flip (sig_pos sg 0)" unfolding z by simp
    then have "8 * (?p div 8 + 1) \<le> flip (sig_pos sg 0)" by (simp only: d_def)
    then have "?p div 8 + 1 \<le> flip (sig_pos sg 0) div 8"
      by (metis div_le_mono nonzero_mult_div_cancel_left zero_neq_numeral)
    then show ?thesis by simp
  qed
qed

lemma run_low:
  assumes "wf_signal sg" "0 < r" "r \<le> sig_bits sg"
  shows "(if int (sig_pos sg (r - 1) div 8) = sg_lsb sg sdiv 8 then sg_lsb sg AND 7 else 0)
    = int (sig_pos sg (r - 1) mod 8 + 1 - run_len sg r)"
proof (cases "r \<le> sig_pos sg (r - 1) mod 8 + 1")
  case True
  let ?p = "sig_pos sg (r - 1)"
  have "sig_pos sg 0 + (r - 1) = ?p"
    using sig_pos_run [OF assms(2,3), of "r - 1"] True assms(2) by (simp add: run_len_def)
  moreover have "?p = 8 * (?p div 8) + ?p mod 8" by simp
  ultimately have z: "sig_pos sg 0 = 8 * (?p div 8) + (?p mod 8 - (r - 1))"
    using True by linarith
  have "?p mod 8 - (r - 1) \<le> 7" by (simp add: le_diff_conv)
  then have "sig_pos sg 0 div 8 = ?p div 8" "sig_pos sg 0 mod 8 = ?p mod 8 - (r - 1)"
    unfolding z by (simp_all only: byte_of)
  then show ?thesis using True assms(2)
    by (simp only: wf_signal_ends(5) [OF assms(1)] int_byte) (simp add: run_len_def)
next
  case False
  from False have "sig_pos sg (r - 1) div 8 \<noteq> sig_pos sg 0 div 8"
    by (intro run_other_byte assms) (simp add: run_len_def)
  then show ?thesis using False
    by (simp only: wf_signal_ends(5) [OF assms(1)] int_byte) (simp add: run_len_def)
qed

lemma run_next:
  assumes "0 < r" "r \<le> sig_bits sg" "run_len sg r < r"
  shows "sig_pos sg (r - run_len sg r - 1) mod 8 = 7"
    "int (sig_pos sg (r - run_len sg r - 1) div 8) =
     (if is_little_endian sg then int (sig_pos sg (r - 1) div 8) - 1
      else int (sig_pos sg (r - 1) div 8) + 1)"
proof -
  let ?p = "sig_pos sg (r - 1)"
  let ?n = "sig_pos sg (r - run_len sg r - 1)"
  have c: "run_len sg r = ?p mod 8 + 1" using assms(3) by (auto simp: run_len_def min_def split: if_splits)
  have p: "?p = 8 * (?p div 8) + ?p mod 8" by simp
  have "?n mod 8 = 7 \<and> int (?n div 8) =
     (if is_little_endian sg then int (?p div 8) - 1 else int (?p div 8) + 1)"
  proof (cases "is_little_endian sg")
    case True
    have "r - run_len sg r - 1 + (?p mod 8 + 1) = r - 1" using assms(3) c by simp
    moreover have "?n = nat (start_bit sg) + (r - run_len sg r - 1)" "?p = nat (start_bit sg) + (r - 1)"
      using True by (simp_all add: sig_pos_def)
    ultimately have n: "?n + (?p mod 8 + 1) = ?p" by linarith
    then have "?n + 1 = 8 * (?p div 8)" using p by linarith
    then obtain d where d: "?p div 8 = d + 1" "?n = 8 * d + 7"
      by (cases "?p div 8") auto
    have "?n mod 8 = 7" "?n div 8 = d" unfolding d(2) by (simp_all only: byte_of)
    then show ?thesis using True d(1) by simp
  next
    case False
    define d x where "d = ?p div 8" and "x = ?p mod 8"
    have "r - 1 - (x + 1) = r - run_len sg r - 1" using c by (simp add: x_def)
    then have n: "flip ?n = flip ?p + (x + 1)"
      using be_shift [OF False, of "r - 1" "x + 1"] assms c by (simp add: x_def)
    have "flip ?p = 8 * d + (7 - x)" by (simp only: flip_def d_def x_def)
    moreover have "x \<le> 7" by (simp add: x_def)
    ultimately have "flip ?n = 8 * (d + 1) + 0" using n by simp
    then have "flip ?n = 8 * (?p div 8 + 1) + 0" by (simp only: d_def)
    then have "?n = 8 * (?p div 8 + 1) + 7"
      by (metis flip_flip flip_pack diff_zero le0)
    then show ?thesis using False by simp
  qed
  then show "?n mod 8 = 7" "int (?n div 8) =
     (if is_little_endian sg then int (?p div 8) - 1 else int (?p div 8) + 1)" by simp_all
qed

text \<open>
  The state of the loop with \<open>r\<close> bits to go: the bits above \<open>r\<close> have been collected,
  most significant first, and \<open>i\<close> is the byte of the next one.
\<close>

definition collected :: "bytes \<Rightarrow> signal \<Rightarrow> nat \<Rightarrow> u64 \<Rightarrow> bool" where
  "collected data sg r val \<longleftrightarrow>
     (\<forall>k. bit val k \<longleftrightarrow> k < sig_bits sg - r \<and> payload_bit data (sig_pos sg (k + r)))
     \<and> (\<forall>k. r \<le> k \<and> k < sig_bits sg \<longrightarrow> sig_pos sg k div 8 < length data)"

lemma collected_step:
  assumes "wf_signal sg" "0 < r" "r \<le> sig_bits sg" "collected data sg r val"
    and i: "i = sig_pos sg (r - 1) div 8" "i < length data"
    and c: "c = run_len sg r" "l = sig_pos sg (r - 1) mod 8 + 1 - c"
  shows "collected data sg (r - c)
    (push_bit c val OR (drop_bit l (ucast (data ! i)) AND (push_bit c 1 - 1)))"
  unfolding collected_def
proof (intro conjI allI impI)
  note b = run_len_bounds(1) [OF assms(2), of sg] run_len_bounds(2-4) [of sg r]
  let ?p = "sig_pos sg (r - 1)"
  have pos: "sig_pos sg (k + (r - c)) = 8 * i + (l + k) \<and> l + k \<le> 7" if "k < c" for k
  proof -
    have j: "sig_pos sg (r - 1 - (c - 1 - k)) + (c - 1 - k) = ?p"
      using that by (intro sig_pos_run [OF assms(2,3)]) (simp add: c(1))
    have e: "r - 1 - (c - 1 - k) = k + (r - c)" using that b c(1) by simp
    have "?p = 8 * i + ?p mod 8" by (simp add: i(1))
    moreover have "c - 1 - k + k + 1 = c" "l + c = ?p mod 8 + 1" using that b(4) c by simp_all
    ultimately have "sig_pos sg (k + (r - c)) = 8 * i + (l + k)" using j unfolding e by linarith
    moreover have "l + k \<le> 7" using that b(4) c by simp
    ultimately show ?thesis by simp
  qed
  {
    fix k assume k: "r - c \<le> k \<and> k < sig_bits sg"
    show "sig_pos sg k div 8 < length data"
    proof (cases "k < r")
      case True
      then have "k - (r - c) < c" using k b c(1) by simp
      from pos [OF this] have "sig_pos sg k = 8 * i + (l + (k - (r - c)))" "l + (k - (r - c)) \<le> 7"
        using k by simp_all
      then have "sig_pos sg k div 8 = i" by (simp only: byte_of)
      then show ?thesis using i(2) by simp
    next
      case False
      then show ?thesis using assms(4) k by (simp add: collected_def)
    qed
  }
  fix k
  let ?v = "push_bit c val OR (drop_bit l (ucast (data ! i)) AND (push_bit c 1 - 1))"
  show "bit ?v k \<longleftrightarrow> k < sig_bits sg - (r - c) \<and> payload_bit data (sig_pos sg (k + (r - c)))"
  proof (cases "k < c")
    case True
    from pos [OF True] have pos: "sig_pos sg (k + (r - c)) = 8 * i + (l + k)" and lk: "l + k \<le> 7"
      by simp_all
    have "payload_bit data (sig_pos sg (k + (r - c))) \<longleftrightarrow> bit (data ! i) (l + k)"
      unfolding payload_bit_def pos byte_of [OF lk] using i(2) by simp
    moreover have "k < sig_bits sg - (r - c)" using True b c(1) assms(3) by simp
    ultimately show ?thesis
      using True lk by (simp add: bit_simps flip: mask_eq_exp_minus_1)
  next
    case False
    then have e: "k - c + r = k + (r - c)" using b c(1) by simp
    have v: "bit val (k - c) \<longleftrightarrow> k - c < sig_bits sg - r \<and> payload_bit data (sig_pos sg (k + (r - c)))"
      using assms(4) by (simp add: collected_def e)
    have k: "k - c < sig_bits sg - r \<longleftrightarrow> k < sig_bits sg - (r - c)"
      using False b c(1) assms(3) by auto
    have "sig_bits sg \<le> 64" by (rule wf_signal_ends(2) [OF assms(1)])
    then show ?thesis
      using False v k by (auto simp: bit_simps simp flip: mask_eq_exp_minus_1)
  qed
qed

text \<open>The loop stops with \<open>r'\<close> bits missing only where the next byte is past the payload.\<close>

lemma raw_loop_collects:
  assumes "wf_signal sg" "r \<le> sig_bits sg" "collected data sg r val"
    and "0 < r \<Longrightarrow> i = int (sig_pos sg (r - 1) div 8)"
    and "0 < r \<Longrightarrow> r = sig_bits sg \<or> sig_pos sg (r - 1) mod 8 = 7"
  obtains r' where "r' \<le> r" "collected data sg r' (raw_loop data sg i (int r) val)"
    "0 < r' \<Longrightarrow> length data \<le> sig_pos sg (r' - 1) div 8"
proof -
  have "\<exists>r' \<le> r. collected data sg r' (raw_loop data sg i (int r) val)
      \<and> (0 < r' \<longrightarrow> length data \<le> sig_pos sg (r' - 1) div 8)"
    using assms(2-5)
  proof (induction r arbitrary: i val rule: less_induct)
    case (less r)
    let ?p = "sig_pos sg (r - 1)" and ?c = "run_len sg r"
    show ?case
    proof (cases "0 < r \<and> ?p div 8 < length data")
      case False
      then have "raw_loop data sg i (int r) val = val"
        using less.prems(3) by (auto simp: raw_loop.simps [of data sg i])
      then show ?thesis using less.prems(2) False by (intro exI [of _ r]) auto
    next
      case True
      then have r: "0 < r" and i: "i = int (?p div 8)" and d: "?p div 8 < length data"
        using less.prems(3) by simp_all
      note b = run_len_bounds(1) [OF r, of sg] run_len_bounds(2-4) [of sg r]
      have top: "(if i = sg_msb sg sdiv 8 then sg_msb sg AND 7 else 7) = int (?p mod 8)"
        unfolding i by (rule run_top [OF assms(1) r less.prems(1) less.prems(4) [OF r]])
      let ?l = "?p mod 8 + 1 - ?c"
      have low: "(if i = sg_lsb sg sdiv 8 then sg_lsb sg AND 7 else 0) = int ?l"
        unfolding i by (rule run_low [OF assms(1) r less.prems(1)])
      let ?v = "push_bit ?c val OR (drop_bit ?l (ucast (data ! (?p div 8))) AND (push_bit ?c 1 - 1))"
      let ?j = "if is_little_endian sg then i - 1 else i + 1"
      have nb: "int (?p mod 8) - int ?l + 1 = int ?c" using b(4) by simp
      have g: "(0 \<le> i \<and> i < int (length data) \<and> 0 < int r) = True" using i d r by simp
      have "raw_loop data sg i (int r) val = raw_loop data sg ?j (int r - int ?c)
          (push_bit (nat (int ?c)) val
           OR (drop_bit (nat (int ?l)) (ucast (data ! nat i)) AND (push_bit (nat (int ?c)) 1 - 1)))"
        by (subst raw_loop.simps) (simp only: top low g Let_def nb if_True)
      then have step: "raw_loop data sg i (int r) val = raw_loop data sg ?j (int (r - ?c)) ?v"
        using b(2) by (simp only: nat_int of_nat_diff i)
      have v: "collected data sg (r - ?c) ?v"
        by (rule collected_step [OF assms(1) r less.prems(1,2) refl d refl refl])
      have "\<exists>r' \<le> r - ?c. collected data sg r' (raw_loop data sg ?j (int (r - ?c)) ?v)
          \<and> (0 < r' \<longrightarrow> length data \<le> sig_pos sg (r' - 1) div 8)"
      proof (rule less.IH)
        show "r - ?c < r" using r b(1) by simp
        show "r - ?c \<le> sig_bits sg" using less.prems(1) by simp
        show "collected data sg (r - ?c) ?v" by (rule v)
        show "?j = int (sig_pos sg (r - ?c - 1) div 8)" if "0 < r - ?c"
          using run_next(2) [OF r less.prems(1)] that i by simp
        show "r - ?c = sig_bits sg \<or> sig_pos sg (r - ?c - 1) mod 8 = 7" if "0 < r - ?c"
          using run_next(1) [OF r less.prems(1)] that by simp
      qed
      then show ?thesis using step by (metis diff_le_self le_trans)
    qed
  qed
  then show ?thesis using that by blast
qed

section \<open>The extraction loop against its specification\<close>

text \<open>The reference: the bits of the signal, least significant first, read as a number.\<close>

definition raw_spec :: "bytes \<Rightarrow> signal \<Rightarrow> u64" where
  "raw_spec data sg =
     horner_sum of_bool 2 (map (\<lambda>k. payload_bit data (sig_pos sg k)) [0..<sig_bits sg])"

definition fits :: "bytes \<Rightarrow> signal \<Rightarrow> bool" where
  "fits data sg \<longleftrightarrow> (\<forall>k < sig_bits sg. sig_pos sg k div 8 < length data)"

lemma bit_raw_spec:
  "sig_bits sg \<le> 64 \<Longrightarrow>
   bit (raw_spec data sg) k \<longleftrightarrow> k < sig_bits sg \<and> payload_bit data (sig_pos sg k)"
  by (auto simp: raw_spec_def bit_horner_sum_bit_word_iff)

lemma collected_all: "wf_signal sg \<Longrightarrow> collected data sg 0 v \<Longrightarrow> v = raw_spec data sg"
  by (rule bit_word_eqI) (simp add: collected_def bit_raw_spec wf_signal_ends(2))

lemma single_byte_bits:
  assumes "wf_signal sg" "sg_msb sg sdiv 8 = sg_lsb sg sdiv 8"
  shows "sig_bits sg \<le> 8" "k < sig_bits sg \<Longrightarrow> sig_pos sg k = sig_pos sg 0 + k"
    "k < sig_bits sg \<Longrightarrow> sig_pos sg 0 mod 8 + k \<le> 7"
proof -
  note e = wf_signal_ends [OF assms(1)]
  define n m where "n = sig_bits sg" and "m = sig_pos sg (n - 1)"
  have n: "0 < n" using e(1) by (simp add: n_def)
  have le: "n \<le> sig_bits sg" by (simp add: n_def)
  have "m div 8 = sig_pos sg 0 div 8"
    using assms(2) by (simp only: e(4,5) int_byte of_nat_eq_iff m_def n_def)
  then have "\<not> run_len sg n < n" using run_other_byte [OF n le] by (auto simp: m_def)
  then have c: "run_len sg n = n" using run_len_bounds(2) [of sg n] by simp
  then show "sig_bits sg \<le> 8" using run_len_bounds(3) [of sg n] by (simp add: n_def)
  have t: "n \<le> m mod 8 + 1" using run_len_bounds(4) [of sg n] c by (simp add: m_def)
  have p: "sig_pos sg j + (n - 1 - j) = m" if j: "j < n" for j
  proof -
    have "n - 1 - j < run_len sg n" "n - 1 - (n - 1 - j) = j" using j c by simp_all
    then show ?thesis using sig_pos_run [OF n le, of "n - 1 - j"] by (simp add: m_def)
  qed
  assume "k < sig_bits sg"
  then have k: "k < n" by (simp add: n_def)
  show "sig_pos sg k = sig_pos sg 0 + k" using p [OF k] p [OF n] k by simp
  define d x where "d = m div 8" and "x = m mod 8"
  have m: "m = 8 * d + x" "x \<le> 7" by (simp_all add: d_def x_def)
  have x: "n \<le> x + 1" using t by (simp add: x_def)
  have "sig_pos sg 0 + (n - 1) = 8 * d + x" using p [OF n] m(1) by simp
  then have "sig_pos sg 0 = 8 * d + (x - (n - 1))" using x n by simp
  moreover have "x - (n - 1) \<le> 7" using m(2) by simp
  ultimately have "sig_pos sg 0 mod 8 = x - (n - 1)" by (simp only: byte_of)
  then show "sig_pos sg 0 mod 8 + k \<le> 7" using k x m(2) by simp
qed

lemma get_raw_bits_single:
  assumes "wf_signal sg" "sg_msb sg sdiv 8 = sg_lsb sg sdiv 8"
    "sg_msb sg sdiv 8 < int (length data)"
  shows "get_raw_bits data sg = Some (raw_spec data sg)"
proof -
  note e = wf_signal_ends [OF assms(1)]
  note s = single_byte_bits [OF assms(1,2)]
  let ?i = "sig_pos sg 0 div 8" and ?l = "sig_pos sg 0 mod 8"
  have b: "sg_msb sg sdiv 8 = int ?i" "sg_lsb sg sdiv 8 = int ?i" "sg_lsb sg AND 7 = int ?l"
    unfolding assms(2) by (simp_all only: e(5) int_byte)
  have i: "?i < length data" using assms(3) b(1) by simp
  have "sg_size sg < 64" "0 \<le> sg_size sg" using s(1) e(3) by linarith+
  then have o: "shl1 (sg_size sg) = Some (push_bit (sig_bits sg) 1)" by simp
  have "drop_bit ?l (ucast (data ! ?i)) AND (push_bit (sig_bits sg) 1 - 1) = raw_spec data sg"
  proof (rule bit_word_eqI)
    fix k assume "k < LENGTH(64)"
    have "payload_bit data (sig_pos sg k) \<longleftrightarrow> bit (data ! ?i) (?l + k)" if k: "k < sig_bits sg"
    proof -
      have "sig_pos sg k = 8 * ?i + (?l + k)" using s(2) [OF k] by simp
      then show ?thesis
        unfolding payload_bit_def using byte_of [OF s(3) [OF k], of ?i] i by simp
    qed
    then show "bit (drop_bit ?l (ucast (data ! ?i)) AND (push_bit (sig_bits sg) 1 - 1) :: u64) k
      \<longleftrightarrow> bit (raw_spec data sg) k"
      using s(3) [of k] e(2) \<open>k < LENGTH(64)\<close>
      by (auto simp: bit_raw_spec bit_simps simp flip: mask_eq_exp_minus_1)
  qed
  then show ?thesis
    using i by (simp add: get_raw_bits_def b o Let_def del: push_bit_of_1)
qed

lemma get_raw_bits_multi:
  assumes "wf_signal sg" "sg_msb sg sdiv 8 \<noteq> sg_lsb sg sdiv 8"
    "sg_msb sg sdiv 8 < int (length data)"
  obtains r v where "get_raw_bits data sg = Some v" "r \<le> sig_bits sg" "collected data sg r v"
    "0 < r \<Longrightarrow> length data \<le> sig_pos sg (r - 1) div 8"
proof -
  note e = wf_signal_ends [OF assms(1)]
  have z: "collected data sg (sig_bits sg) 0" by (auto simp: collected_def)
  have i: "sg_msb sg sdiv 8 = int (sig_pos sg (sig_bits sg - 1) div 8)"
    by (simp only: e(4) int_byte)
  have "get_raw_bits data sg = Some (raw_loop data sg (sg_msb sg sdiv 8) (int (sig_bits sg)) 0)"
    using assms(2,3) e(3) by (simp add: get_raw_bits_def)
  moreover obtain r where "r \<le> sig_bits sg"
    "collected data sg r (raw_loop data sg (sg_msb sg sdiv 8) (int (sig_bits sg)) 0)"
    "0 < r \<Longrightarrow> length data \<le> sig_pos sg (r - 1) div 8"
    using raw_loop_collects [OF assms(1) order_refl z, of "sg_msb sg sdiv 8"] i by blast
  ultimately show ?thesis by (rule that)
qed

lemma msb_byte: "wf_signal sg \<Longrightarrow> sg_msb sg sdiv 8 = int (sig_pos sg (sig_bits sg - 1) div 8)"
  by (simp only: wf_signal_ends(4) int_byte)

text \<open>On a payload that holds all of the signal, both paths return the reference.\<close>

lemma get_raw_bits_fits:
  assumes "wf_signal sg" "fits data sg"
  shows "get_raw_bits data sg = Some (raw_spec data sg)"
proof -
  have "sig_bits sg - 1 < sig_bits sg" using wf_signal_ends(1) [OF assms(1)] by simp
  then have lt: "sg_msb sg sdiv 8 < int (length data)"
    using assms(2) msb_byte [OF assms(1)] by (simp add: fits_def)
  show ?thesis
  proof (cases "sg_msb sg sdiv 8 = sg_lsb sg sdiv 8")
    case True
    then show ?thesis using get_raw_bits_single [OF assms(1) _ lt] by simp
  next
    case False
    obtain r v where v: "get_raw_bits data sg = Some v" "r \<le> sig_bits sg" "collected data sg r v"
      and s: "0 < r \<Longrightarrow> length data \<le> sig_pos sg (r - 1) div 8"
      using get_raw_bits_multi [OF assms(1) False lt] by blast
    have "r = 0"
    proof (rule ccontr)
      assume "r \<noteq> 0"
      then have "r - 1 < sig_bits sg" "0 < r" using v(2) by linarith+
      then show False using s assms(2) unfolding fits_def by (meson not_le)
    qed
    then show ?thesis using v collected_all [OF assms(1)] by simp
  qed
qed

text \<open>A payload too short for the most significant byte reads as 0.\<close>

lemma get_raw_bits_short: "int (length data) \<le> sg_msb sg sdiv 8 \<Longrightarrow> get_raw_bits data sg = Some 0"
  by (simp add: get_raw_bits_def)

text \<open>The bits above the signal are zero, on every payload.\<close>

lemma get_raw_bits_total:
  assumes "wf_signal sg"
  obtains v where "get_raw_bits data sg = Some v" "\<And>k. bit v k \<Longrightarrow> k < sig_bits sg"
proof (cases "int (length data) \<le> sg_msb sg sdiv 8")
  case True
  then show ?thesis using that [of 0] by (simp add: get_raw_bits_short)
next
  case False
  then have lt: "sg_msb sg sdiv 8 < int (length data)" by simp
  show ?thesis
  proof (cases "sg_msb sg sdiv 8 = sg_lsb sg sdiv 8")
    case True
    show ?thesis
      by (rule that [OF get_raw_bits_single [OF assms True lt]])
        (simp add: bit_raw_spec wf_signal_ends(2) [OF assms])
  next
    case False
    obtain r v where v: "get_raw_bits data sg = Some v" "r \<le> sig_bits sg" "collected data sg r v"
      using get_raw_bits_multi [OF assms False lt] by blast
    have "k < sig_bits sg" if "bit v k" for k
      using v(3) that less_le_trans [of k "sig_bits sg - r" "sig_bits sg"] by (simp add: collected_def)
    then show ?thesis by (rule that [OF v(1)])
  qed
qed

text \<open>A big-endian signal that starts inside the payload and runs past its end yields its
  leading bits, moved down: the value is the full one shifted right.\<close>

lemma get_raw_bits_be_truncated:
  assumes "wf_signal sg" "\<not> is_little_endian sg" "sg_msb sg sdiv 8 < int (length data)"
  obtains r where "r \<le> sig_bits sg" "0 < r \<Longrightarrow> length data \<le> sig_pos sg (r - 1) div 8"
    "\<And>pad. length data + length pad = 64 \<Longrightarrow>
       get_raw_bits data sg = Some (drop_bit r (raw_spec (data @ pad) sg))"
proof (cases "fits data sg")
  case True
  have "raw_spec (data @ pad) sg = raw_spec data sg" for pad
    using True by (auto intro!: bit_word_eqI
        simp: bit_raw_spec wf_signal_ends(2) [OF assms(1)] payload_bit_def fits_def nth_append)
  then show ?thesis using that [of 0] get_raw_bits_fits [OF assms(1) True] by simp
next
  case False
  have d: "sg_msb sg sdiv 8 \<noteq> sg_lsb sg sdiv 8"
  proof
    assume s: "sg_msb sg sdiv 8 = sg_lsb sg sdiv 8"
    note sb = single_byte_bits [OF assms(1) s]
    have "sig_pos sg k div 8 < length data" if k: "k < sig_bits sg" for k
    proof -
      have "sig_pos sg k = 8 * (sig_pos sg 0 div 8) + (sig_pos sg 0 mod 8 + k)"
        using sb(2) [OF k] by simp
      then have "sig_pos sg k div 8 = sig_pos sg 0 div 8" by (simp only: byte_of(1) [OF sb(3) [OF k]])
      moreover have "int (sig_pos sg 0 div 8) < int (length data)"
        using assms(3) s wf_signal_ends(5) [OF assms(1)] by (simp only: int_byte)
      ultimately show ?thesis by simp
    qed
    then show False using False by (simp add: fits_def)
  qed
  obtain r v where v: "get_raw_bits data sg = Some v" "r \<le> sig_bits sg" "collected data sg r v"
    and e: "0 < r \<Longrightarrow> length data \<le> sig_pos sg (r - 1) div 8"
    using get_raw_bits_multi [OF assms(1) d assms(3)] by blast
  show ?thesis
  proof (rule that [OF v(2) e])
    fix pad :: bytes assume l: "length data + length pad = 64"
    have "v = drop_bit r (raw_spec (data @ pad) sg)"
    proof (rule bit_word_eqI)
      fix k assume "k < LENGTH(64)"
      have "payload_bit (data @ pad) (sig_pos sg (k + r)) \<longleftrightarrow> payload_bit data (sig_pos sg (k + r))"
        if k: "k + r < sig_bits sg"
      proof -
        have "r \<le> k + r" by simp
        then have "sig_pos sg (k + r) div 8 < length data"
          using v(3) that unfolding collected_def by blast
        then show ?thesis by (simp add: payload_bit_def nth_append)
      qed
      then show "bit v k \<longleftrightarrow> bit (drop_bit r (raw_spec (data @ pad) sg)) k"
        using v(2,3) by (auto simp: collected_def bit_simps bit_raw_spec wf_signal_ends(2) [OF assms(1)]
            add.commute less_diff_conv)
    qed
    then show "get_raw_bits data sg = Some (drop_bit r (raw_spec (data @ pad) sg))" using v(1) by simp
  qed
qed

section \<open>Sign extension and scaling\<close>

text \<open>The integer that the bits denote: two's complement for a signed signal; an unsigned
  one goes through the same 64-bit signed conversion, which only 64-bit signals notice.\<close>

definition sig_int :: "bytes \<Rightarrow> signal \<Rightarrow> int" where
  "sig_int data sg =
     (if is_signed sg then signed_take_bit (sig_bits sg - 1) (uint (raw_spec data sg))
      else sint (raw_spec data sg))"

lemma sign_extend_word:
  assumes "wf_signal sg" "is_signed sg \<Longrightarrow> sg_size sg < 64" "\<And>k. bit v k \<Longrightarrow> k < sig_bits sg"
  obtains w where "sign_extend sg v = Some w"
    "sint w = (if is_signed sg then signed_take_bit (sig_bits sg - 1) (uint v) else sint v)"
proof (cases "is_signed sg")
  case False
  then show ?thesis using that [of v] by (simp add: sign_extend_def)
next
  case True
  let ?n = "sig_bits sg"
  note e = wf_signal_ends [OF assms(1)]
  have n: "?n < 64" "0 < ?n" using assms(2) True e(1,3) by linarith+
  have sh: "shl1 (sg_size sg - 1) = Some (push_bit (?n - 1) 1)" "shl1 (sg_size sg) = Some (push_bit ?n 1)"
    using n e(3) by (simp_all add: shl1_def nat_diff_distrib del: push_bit_of_1)
  have tst: "v AND push_bit (?n - 1) 1 \<noteq> 0 \<longleftrightarrow> bit v (?n - 1)"
    by (rule bit_iff_and_push_bit_not_eq_0 [symmetric])
  let ?w = "if bit v (?n - 1) then v OR NOT (mask ?n) else v"
  have w: "sign_extend sg v = Some ?w"
    by (simp only: sign_extend_def True if_True sh bind.bind_lunit tst push_bit_1_minus_1) simp
  have "?w = signed_take_bit (?n - 1) v"
  proof (rule bit_word_eqI)
    fix k assume k: "k < LENGTH(64)"
    show "bit ?w k \<longleftrightarrow> bit (signed_take_bit (?n - 1) v) k"
    proof -
      consider "k < ?n - 1" | "k = ?n - 1" | "?n \<le> k" by linarith
      then show ?thesis
        using assms(3) [of k] k n by cases (auto simp: bit_simps min_def not_less)
    qed
  qed
  moreover have "sint (signed_take_bit (?n - 1) v) = signed_take_bit (?n - 1) (uint v)"
    using n by (intro bit_eqI) (auto simp: bit_simps bit_sint_iff bit_uint_iff min_def not_less)
  ultimately show ?thesis using that [OF w] True by simp
qed

lemma get_raw_value_fits:
  assumes "wf_signal sg" "is_signed sg \<Longrightarrow> sg_size sg < 64" "fits data sg"
  shows "get_raw_value data sg =
    Some (f_add (f_mul (f_of_int (sig_int data sg)) (factor sg)) (offset sg))"
proof -
  have b: "bit (raw_spec data sg) k \<Longrightarrow> k < sig_bits sg" for k
    by (simp add: bit_raw_spec wf_signal_ends(2) [OF assms(1)])
  obtain w where "sign_extend sg (raw_spec data sg) = Some w" "sint w = sig_int data sg"
    using sign_extend_word [OF assms(1,2) b] unfolding sig_int_def by blast
  then show ?thesis
    using get_raw_bits_fits [OF assms(1,3)] by (simp add: get_raw_value_def scale_def)
qed

lemma get_raw_value_total:
  assumes "wf_signal sg" "is_signed sg \<Longrightarrow> sg_size sg < 64"
  obtains x where "get_raw_value data sg = Some x"
proof -
  obtain v where v: "get_raw_bits data sg = Some v" "\<And>k. bit v k \<Longrightarrow> k < sig_bits sg"
    using get_raw_bits_total [OF assms(1), of data] by blast
  obtain w where "sign_extend sg v = Some w"
    using sign_extend_word [OF assms v(2)] by blast
  then show ?thesis using that v(1) by (simp add: get_raw_value_def)
qed

lemma uint_bound:
  assumes "\<And>k. bit (v :: u64) k \<Longrightarrow> k < n" "n \<le> 64"
  shows "uint v < 2 ^ n"
proof -
  have "take_bit n v = v" using assms(1) by (auto intro!: bit_word_eqI simp: bit_simps)
  then have "take_bit n (uint v) = uint v" by (metis unsigned_take_bit_eq)
  then show ?thesis by (metis take_bit_int_less_exp)
qed

lemma sig_int_range:
  assumes "wf_signal sg" "sg_size sg < 64"
  shows "\<not> is_signed sg \<Longrightarrow> 0 \<le> sig_int data sg \<and> sig_int data sg < 2 ^ sig_bits sg"
    "is_signed sg \<Longrightarrow> - (2 ^ (sig_bits sg - 1)) \<le> sig_int data sg \<and> sig_int data sg < 2 ^ (sig_bits sg - 1)"
proof -
  note e = wf_signal_ends [OF assms(1)]
  have n: "sig_bits sg < 64" using e(3) assms(2) by linarith
  have u: "uint (raw_spec data sg) < 2 ^ sig_bits sg"
    by (rule uint_bound) (use bit_raw_spec e(2) in auto)
  also have "(2 :: int) ^ sig_bits sg \<le> 2 ^ 63" using n by (intro power_increasing) simp_all
  finally have h: "uint (raw_spec data sg) < 2 ^ 63" .
  have "signed_take_bit 63 (uint (raw_spec data sg)) = uint (raw_spec data sg)"
    by (rule signed_take_bit_int_eq_self [OF order_trans [OF _ uint_ge_0] h]) simp
  then have "sint (raw_spec data sg) = uint (raw_spec data sg)" by (simp add: sint_uint)
  with u show "\<not> is_signed sg \<Longrightarrow> 0 \<le> sig_int data sg \<and> sig_int data sg < 2 ^ sig_bits sg"
    by (simp add: sig_int_def)
  show "is_signed sg \<Longrightarrow> - (2 ^ (sig_bits sg - 1)) \<le> sig_int data sg \<and> sig_int data sg < 2 ^ (sig_bits sg - 1)"
    by (simp add: sig_int_def signed_take_bit_int_greater_eq_minus_exp signed_take_bit_int_less_exp)
qed

end
