(* ===== verification/CStrings.thy ===== *)
theory CStrings
  imports Binary64
begin

text \<open>
  The string functions the bridge uses, from \<open>bridge/dbc/dbcfile.cc\<close> (\<open>trim\<close>, \<open>endsWith\<close>,
  \<open>replaceAll\<close>, \<open>split\<close>) and from the C++ standard library: \<open>std::getline\<close>, searching,
  \<open>std::to_string\<close>, \<open>std::stoul\<close>, \<open>std::stoi\<close>, \<open>std::stod\<close>. A thrown exception is the left
  of a sum. Strings are byte strings, and character classes are those of the C locale.
  \<open>unsigned long\<close> has 64 bits, as on the program's targets.
\<close>

section \<open>Exceptions\<close>

datatype exn = Runtime_error string | Invalid_argument | Out_of_range

type_synonym 'a result = "exn + 'a"

fun bindE :: "'e + 'a \<Rightarrow> ('a \<Rightarrow> 'e + 'b) \<Rightarrow> 'e + 'b" where
  "bindE (Inl e) f = Inl e"
| "bindE (Inr x) f = f x"

lemma bindE_Inr: "bindE r f = Inr y \<longleftrightarrow> (\<exists>x. r = Inr x \<and> f x = Inr y)"
  by (cases r) auto

lemma bindE_Inl: "bindE r f = Inl e \<longleftrightarrow> r = Inl e \<or> (\<exists>x. r = Inr x \<and> f x = Inl e)"
  by (cases r) auto

section \<open>Searching and cutting\<close>

fun find_index :: "('a \<Rightarrow> bool) \<Rightarrow> 'a list \<Rightarrow> nat option" where
  "find_index P [] = None"
| "find_index P (x # xs) = (if P x then Some 0 else map_option Suc (find_index P xs))"

lemma find_index_None: "find_index P xs = None \<longleftrightarrow> (\<forall>x \<in> set xs. \<not> P x)"
  by (induction xs) auto

lemma find_index_Some:
  "find_index P xs = Some i \<longleftrightarrow> i < length xs \<and> P (xs ! i) \<and> (\<forall>j < i. \<not> P (xs ! j))"
proof (induction xs arbitrary: i)
  case Nil
  then show ?case by simp
next
  case (Cons x xs)
  show ?case
    using Cons.IH by (cases i) (auto simp: nth_Cons split: nat.splits)
qed

definition isspace :: "char \<Rightarrow> bool" where
  "isspace c \<longleftrightarrow> c = CHR '' '' \<or> (9 \<le> (of_char c :: nat) \<and> (of_char c :: nat) \<le> 13)"

text \<open>The four characters of \<open>trim\<close>: blank, tab, carriage return and newline.\<close>

definition blanks :: string where
  "blanks = [CHR '' '', CHR 0x09, CHR 0x0D, CHR 0x0A]"

definition find_first_not_of :: "string \<Rightarrow> string \<Rightarrow> nat option" where
  "find_first_not_of cs s = find_index (\<lambda>c. c \<notin> set cs) s"

definition find_last_not_of :: "string \<Rightarrow> string \<Rightarrow> nat option" where
  "find_last_not_of cs s = map_option (\<lambda>i. length s - 1 - i) (find_index (\<lambda>c. c \<notin> set cs) (rev s))"

definition trim :: "string \<Rightarrow> string" where
  "trim s =
     (case find_first_not_of blanks s of
        None \<Rightarrow> []
      | Some st \<Rightarrow> (case find_last_not_of blanks s of
          None \<Rightarrow> []
        | Some en \<Rightarrow> take (en - st + 1) (drop st s)))"

text \<open>The local \<open>trim\<close> of \<open>DBCFile::parse\<close>: it erases at both ends in place.\<close>

definition trim_line :: "string \<Rightarrow> string" where
  "trim_line s = (let s = dropWhile isspace s in rev (dropWhile isspace (rev s)))"

definition startsWith :: "string \<Rightarrow> string \<Rightarrow> bool" where
  "startsWith s p \<longleftrightarrow> length p \<le> length s \<and> take (length p) s = p"

definition endsWith :: "string \<Rightarrow> string \<Rightarrow> bool" where
  "endsWith s p \<longleftrightarrow> (if length s < length p then False else drop (length s - length p) s = p)"

text \<open>\<open>s.find(p, pos)\<close> and \<open>s.find(c)\<close>, \<open>s.rfind(c)\<close>; \<open>npos\<close> is \<open>None\<close>.\<close>

fun str_find :: "string \<Rightarrow> string \<Rightarrow> nat option" where
  "str_find [] p = (if p = [] then Some 0 else None)"
| "str_find (c # s) p = (if startsWith (c # s) p then Some 0 else map_option Suc (str_find s p))"

definition str_find_from :: "string \<Rightarrow> string \<Rightarrow> nat \<Rightarrow> nat option" where
  "str_find_from s p pos =
     (if length s < pos then None else map_option ((+) pos) (str_find (drop pos s) p))"

definition find_char :: "char \<Rightarrow> string \<Rightarrow> nat option" where
  "find_char c s = find_index (\<lambda>d. d = c) s"

definition rfind_char :: "char \<Rightarrow> string \<Rightarrow> nat option" where
  "rfind_char c s = map_option (\<lambda>i. length s - 1 - i) (find_index (\<lambda>d. d = c) (rev s))"

text \<open>\<open>replaceAll\<close>: its loop does not end when \<open>from\<close> is empty.\<close>

partial_function (option) replace_loop :: "string \<Rightarrow> string \<Rightarrow> nat \<Rightarrow> string \<Rightarrow> string option" where
  "replace_loop p t pos s =
     (case str_find_from s p pos of
        None \<Rightarrow> Some s
      | Some i \<Rightarrow> replace_loop p t (i + length t) (take i s @ t @ drop (i + length p) s))"

definition replaceAll :: "string \<Rightarrow> string \<Rightarrow> string \<Rightarrow> string option" where
  "replaceAll s p t = replace_loop p t 0 s"

text \<open>The sequence of strings that \<open>std::getline\<close> reads: a last line without a delimiter is
  returned when it is not empty. \<open>split\<close> collects it.\<close>

fun getlines :: "char \<Rightarrow> string \<Rightarrow> string list" where
  "getlines d [] = []"
| "getlines d (c # s) =
     (let l = takeWhile (\<lambda>x. x \<noteq> d) (c # s)
      in l # getlines d (drop (length l + 1) (c # s)))"

declare getlines.simps(2) [simp del]

definition split :: "string \<Rightarrow> char \<Rightarrow> string list" where
  "split s d = getlines d s"

section \<open>Numbers\<close>

definition digit_char :: "nat \<Rightarrow> char" where
  "digit_char d = (if d < 10 then char_of (48 + d) else char_of (55 + d))"

definition digit_val :: "char \<Rightarrow> nat" where
  "digit_val c =
     (let n = of_char c
      in if 48 \<le> n \<and> n \<le> 57 then n - 48
         else if 65 \<le> n \<and> n \<le> 90 then n - 55
         else if 97 \<le> n \<and> n \<le> 122 then n - 87
         else 99)"

text \<open>Digits to base 10 or 16, as \<open>std::to_string\<close> and \<open>ostream\<close> print them (upper case).\<close>

fun digits_rev :: "nat \<Rightarrow> nat \<Rightarrow> string" where
  "digits_rev b n =
     digit_char (n mod b) # (if n < b \<or> b < 2 then [] else digits_rev b (n div b))"

declare digits_rev.simps [simp del]

definition nat_str :: "nat \<Rightarrow> string" where
  "nat_str n = rev (digits_rev 10 n)"

definition hex_str :: "nat \<Rightarrow> string" where
  "hex_str n = rev (digits_rev 16 n)"

definition int_str :: "int \<Rightarrow> string" where
  "int_str i = (if i < 0 then CHR ''-'' # nat_str (nat (- i)) else nat_str (nat i))"

definition digits_val :: "nat \<Rightarrow> string \<Rightarrow> nat" where
  "digits_val b ds = foldl (\<lambda>a c. a * b + digit_val c) 0 ds"

text \<open>An optional sign, as a pair of its value and the rest.\<close>

fun scan_sign :: "string \<Rightarrow> bool \<times> string" where
  "scan_sign [] = (False, [])"
| "scan_sign (c # s) =
     (if c = CHR ''-'' then (True, s) else if c = CHR ''+'' then (False, s) else (False, c # s))"

definition hex_prefix :: "string \<Rightarrow> bool" where
  "hex_prefix s \<longleftrightarrow>
     (case s of a # x # d # _ \<Rightarrow> a = CHR ''0'' \<and> (x = CHR ''x'' \<or> x = CHR ''X'') \<and> digit_val d < 16
      | _ \<Rightarrow> False)"

text \<open>\<open>strtol\<close> and \<open>strtoul\<close>: base 0 looks at the prefix; no digits is no conversion.\<close>

definition int_base :: "nat \<Rightarrow> string \<Rightarrow> nat \<times> string" where
  "int_base base s =
     (if (base = 0 \<or> base = 16) \<and> hex_prefix s then (16, drop 2 s)
      else if base = 0 then (if s \<noteq> [] \<and> hd s = CHR ''0'' then (8, s) else (10, s))
      else (base, s))"

definition scan_mag :: "nat \<Rightarrow> string \<Rightarrow> nat option" where
  "scan_mag base s =
     (case int_base base s of (b, r) \<Rightarrow>
        let ds = takeWhile (\<lambda>c. digit_val c < b) r
        in if ds = [] then None else Some (digits_val b ds))"

definition scan_int :: "nat \<Rightarrow> string \<Rightarrow> (bool \<times> nat) option" where
  "scan_int base s =
     (case scan_sign (dropWhile isspace s) of (neg, r) \<Rightarrow> map_option (Pair neg) (scan_mag base r))"

definition stoul :: "data_model \<Rightarrow> nat \<Rightarrow> string \<Rightarrow> u64 result" where
  "stoul dm base s =
     (case scan_int base s of
        None \<Rightarrow> Inl Invalid_argument
      | Some (neg, n) \<Rightarrow>
          if 2 ^ long_bits dm \<le> n then Inl Out_of_range
          else Inr (take_bit (long_bits dm) (if neg then - word_of_nat n else word_of_nat n)))"

definition stoi :: "string \<Rightarrow> int result" where
  "stoi s =
     (case scan_int 10 s of
        None \<Rightarrow> Inl Invalid_argument
      | Some (neg, n) \<Rightarrow>
          (let i = (if neg then - int n else int n)
           in if int_range i then Inr i else Inl Out_of_range))"

text \<open>\<open>strtod\<close> on decimal input: digits with an optional point and exponent, correctly rounded.
  An overflow, and an inexact result below the normal range, are out of range. (The
  hexadecimal, infinity and not-a-number forms need letters other than \<open>e\<close>, which the
  callers' regular expressions exclude.)\<close>

definition isdigit :: "char \<Rightarrow> bool" where
  "isdigit c \<longleftrightarrow> 48 \<le> (of_char c :: nat) \<and> (of_char c :: nat) \<le> 57"

definition scan_exp :: "string \<Rightarrow> int" where
  "scan_exp s =
     (case s of
        e # r \<Rightarrow>
          (if e = CHR ''e'' \<or> e = CHR ''E'' then
             (let (neg, r) = scan_sign r; ds = takeWhile isdigit r
              in if neg then - int (digits_val 10 ds) else int (digits_val 10 ds))
           else 0)
      | [] \<Rightarrow> 0)"

definition scan_dec :: "string \<Rightarrow> (bool \<times> nat \<times> int) option" where
  "scan_dec s =
     (let (neg, s) = scan_sign (dropWhile isspace s);
          ip = takeWhile isdigit s; r = dropWhile isdigit s;
          fp = (case r of c # r' \<Rightarrow> if c = CHR ''.'' then takeWhile isdigit r' else [] | [] \<Rightarrow> []);
          r = (case r of c # r' \<Rightarrow> if c = CHR ''.'' then dropWhile isdigit r' else r | [] \<Rightarrow> [])
      in if ip @ fp = [] then None
         else Some (neg, digits_val 10 (ip @ fp), scan_exp r - int (length fp)))"

definition dec_f64 :: "bool \<Rightarrow> nat \<Rightarrow> int \<Rightarrow> f64 result" where
  "dec_f64 neg n e =
     (let num = n * 10 ^ nat e; den = 10 ^ nat (- e); b = round_mag num den 0
      in if b = inf_mag then Inl Out_of_range
         else if 0 < num \<and> num * 2 ^ 1022 < den \<and> num * 2 ^ 1074 mod den \<noteq> 0 then Inl Out_of_range
         else Inr (f_make neg b))"

definition stod :: "string \<Rightarrow> f64 result" where
  "stod s =
     (case scan_dec s of
        None \<Rightarrow> Inl Invalid_argument
      | Some (neg, n, e) \<Rightarrow> dec_f64 neg n e)"

section \<open>Cutting blanks\<close>

definition strip :: "('a \<Rightarrow> bool) \<Rightarrow> 'a list \<Rightarrow> 'a list" where
  "strip P s = rev (dropWhile P (rev (dropWhile P s)))"

lemma trim_line_strip: "trim_line = strip isspace"
  by (simp add: fun_eq_iff trim_line_def strip_def Let_def)

lemma find_index_dropWhile:
  "find_index (\<lambda>c. \<not> P c) s = (if dropWhile P s = [] then None else Some (length (takeWhile P s)))"
  by (induction s) auto

lemma dropWhile_drop: "dropWhile P s = drop (length (takeWhile P s)) s"
  by (induction s) auto

lemma trim_strip: "trim s = strip (\<lambda>c. c \<in> set blanks) s"
proof (cases "dropWhile (\<lambda>c. c \<in> set blanks) s = []")
  case True
  then show ?thesis
    using find_index_dropWhile [of "\<lambda>c. c \<in> set blanks" s]
    by (simp add: trim_def find_first_not_of_def strip_def True del: dropWhile_eq_Nil_conv)
next
  case False
  let ?P = "\<lambda>c. c \<in> set blanks"
  define a t where "a = takeWhile ?P s" and "t = dropWhile ?P s"
  have s: "s = a @ t" by (simp add: a_def t_def)
  have t: "t \<noteq> []" "\<not> ?P (hd t)"
    unfolding t_def by (fact False, rule hd_dropWhile [OF False])
  define b where "b = takeWhile ?P (rev t)"
  have d: "dropWhile ?P (rev s) \<noteq> []" using t False by (auto simp: s dropWhile_eq_Nil_conv)
  have lb: "takeWhile ?P (rev s) = b"
    using t by (auto simp: s b_def takeWhile_append dest!: hd_in_set)
  have bl: "length b < length t"
    using t hd_in_set [OF t(1)] length_takeWhile_le [of ?P "rev t"]
    by (metis b_def length_rev linorder_not_le order_antisym set_rev takeWhile_eq_all_conv take_all_iff takeWhile_eq_take)
  have "trim s = take (length s - 1 - length b - length a + 1) (drop (length a) s)"
    by (simp only: trim_def find_first_not_of_def find_last_not_of_def find_index_dropWhile [of ?P]
        False d if_False lb option.map option.case a_def)
  also have "\<dots> = take (length t - length b) t" using bl by (simp add: s Suc_diff_Suc)
  also have "\<dots> = rev (dropWhile ?P (rev t))"
    by (simp add: dropWhile_drop [of ?P "rev t"] b_def [symmetric] drop_rev)
  finally show ?thesis by (simp add: strip_def t_def)
qed

text \<open>What is left has no blanks at its ends, and nothing else is removed.\<close>

lemma strip_split:
  obtains a b where "s = a @ strip P s @ b" "\<forall>c \<in> set a. P c" "\<forall>c \<in> set b. P c"
    "strip P s \<noteq> [] \<Longrightarrow> \<not> P (hd (strip P s)) \<and> \<not> P (last (strip P s))"
proof -
  let ?t = "dropWhile P s"
  have t: "?t = strip P s @ rev (takeWhile P (rev ?t))"
    unfolding strip_def by (metis rev_append rev_rev_ident takeWhile_dropWhile_id)
  have "s = takeWhile P s @ strip P s @ rev (takeWhile P (rev ?t))"
    using t by (metis takeWhile_dropWhile_id)
  moreover have "\<not> P (hd (strip P s)) \<and> \<not> P (last (strip P s))" if n: "strip P s \<noteq> []"
  proof
    have "hd ?t = hd (strip P s)" by (subst t) (simp add: n)
    moreover have "?t \<noteq> []" using n unfolding strip_def by (metis dropWhile.simps(1) rev.simps(1))
    ultimately show "\<not> P (hd (strip P s))" using hd_dropWhile [of P s] by simp
    have "dropWhile P (rev ?t) \<noteq> []" using n by (simp add: strip_def)
    from hd_dropWhile [OF this] show "\<not> P (last (strip P s))" by (simp add: strip_def last_rev)
  qed
  ultimately show ?thesis using that set_takeWhileD by (metis set_rev)
qed

lemma strip_id: "s = [] \<or> (\<not> P (hd s) \<and> \<not> P (last s)) \<Longrightarrow> strip P s = s"
proof (cases "s = []")
  case False
  assume "s = [] \<or> (\<not> P (hd s) \<and> \<not> P (last s))"
  with False have e: "\<not> P (hd s)" "\<not> P (last s)" by simp_all
  have "dropWhile P s = s" using e(1) False by (cases s) simp_all
  moreover have "dropWhile P (rev s) = rev s" using e(2) False by (cases s rule: rev_cases) simp_all
  ultimately show ?thesis by (simp add: strip_def)
qed (simp add: strip_def)

section \<open>Lines\<close>

lemma getlines_line: "d \<notin> set l \<Longrightarrow> getlines d (l @ d # s) = l # getlines d s"
proof (cases l)
  case Nil
  then show ?thesis by (simp add: getlines.simps)
next
  case (Cons c m)
  assume "d \<notin> set l"
  then have "takeWhile (\<lambda>x. x \<noteq> d) (l @ d # s) = l" by (simp add: takeWhile_append)
  then show ?thesis using Cons by (simp add: getlines.simps Let_def)
qed

lemma getlines_last: "d \<notin> set l \<Longrightarrow> l \<noteq> [] \<Longrightarrow> getlines d l = [l]"
proof (cases l)
  case (Cons c m)
  assume "d \<notin> set l"
  then have "takeWhile (\<lambda>x. x \<noteq> d) l = l" by (auto simp: takeWhile_eq_all_conv)
  then show ?thesis unfolding Cons getlines.simps(2) Let_def by (simp only:) simp
qed simp

lemma getlines_unlines:
  "\<forall>l \<in> set ls. d \<notin> set l \<Longrightarrow> getlines d (concat (map (\<lambda>l. l @ [d]) ls)) = ls"
  by (induction ls) (auto simp: getlines_line)

section \<open>Replacing\<close>

function replace_ref :: "string \<Rightarrow> string \<Rightarrow> string \<Rightarrow> string" where
  "replace_ref p t s =
     (if p = [] then s
      else if startsWith s p then t @ replace_ref p t (drop (length p) s)
      else (case s of [] \<Rightarrow> [] | c # r \<Rightarrow> c # replace_ref p t r))"
  by pat_completeness auto
termination
  by (relation "measure (\<lambda>(p, t, s). length s)") (auto simp: startsWith_def neq_Nil_conv)

declare replace_ref.simps [simp del]

lemma str_find_bound: "str_find s p = Some i \<Longrightarrow> i + length p \<le> length s"
  by (induction s p arbitrary: i rule: str_find.induct) (auto simp: startsWith_def split: if_splits)

lemma replace_ref_find:
  "p \<noteq> [] \<Longrightarrow> replace_ref p t s =
     (case str_find s p of None \<Rightarrow> s
      | Some i \<Rightarrow> take i s @ t @ replace_ref p t (drop (i + length p) s))"
proof (induction s)
  case Nil
  then show ?case by (subst replace_ref.simps) (simp add: startsWith_def)
next
  case (Cons c s)
  show ?case
  proof (cases "startsWith (c # s) p")
    case True
    then show ?thesis using Cons.prems by (subst replace_ref.simps) simp
  next
    case False
    then show ?thesis
      using Cons by (subst replace_ref.simps) (simp split: option.split)
  qed
qed

lemma replace_loop_ref:
  assumes "p \<noteq> []" "pos \<le> length s"
  shows "replace_loop p t pos s = Some (take pos s @ replace_ref p t (drop pos s))"
  using assms(2)
proof (induction "length s - pos" arbitrary: pos s rule: less_induct)
  case less
  show ?case
  proof (cases "str_find (drop pos s) p")
    case None
    then show ?thesis
      using less.prems by (subst replace_loop.simps)
        (simp add: str_find_from_def replace_ref_find [OF assms(1)])
  next
    case (Some i)
    note b = str_find_bound [OF Some]
    let ?s = "take (pos + i) s @ t @ drop (pos + i + length p) s"
    have l: "length ?s - (pos + i + length t) < length s - pos"
      using b assms(1) less.prems by (cases p) auto
    have "replace_loop p t pos s = replace_loop p t (pos + i + length t) ?s"
      using Some less.prems by (subst replace_loop.simps) (simp add: str_find_from_def)
    also have "\<dots> = Some (take (pos + i + length t) ?s @ replace_ref p t (drop (pos + i + length t) ?s))"
      using b less.prems by (intro less.hyps [OF l]) auto
    also have "\<dots> = Some (take (pos + i) s @ t @ replace_ref p t (drop (pos + i + length p) s))"
      using b less.prems by (simp add: min_def)
    finally have st: "replace_loop p t pos s =
        Some (take (pos + i) s @ t @ replace_ref p t (drop (pos + i + length p) s))" .
    have dd: "drop (i + length p) (drop pos s) = drop (pos + i + length p) s" by (simp add: ac_simps)
    show ?thesis unfolding st
      by (simp only: replace_ref_find [OF assms(1), of t "drop pos s"] Some option.case take_add append_assoc dd)
  qed
qed

lemma replaceAll_ref: "p \<noteq> [] \<Longrightarrow> replaceAll s p t = Some (replace_ref p t s)"
  using replace_loop_ref [of p 0 s t] by (simp add: replaceAll_def)

lemma replaceAll_empty: "replaceAll s [] t = None"
proof -
  have "p = [] \<longrightarrow> pos \<le> length s \<longrightarrow> False" if "replace_loop p t pos s = Some r" for p t pos s r
  proof (rule replace_loop.raw_induct [where P = "\<lambda>p t pos s r. p = [] \<longrightarrow> pos \<le> length s \<longrightarrow> False", OF _ that],
      intro impI)
    fix f :: "string \<Rightarrow> string \<Rightarrow> nat \<Rightarrow> string \<Rightarrow> string option" and p t pos s r
    assume ih: "\<And>p t pos s r. f p t pos s = Some r \<Longrightarrow> p = [] \<longrightarrow> pos \<le> length s \<longrightarrow> False"
      and r: "(case str_find_from s p pos of None \<Rightarrow> Some s
          | Some i \<Rightarrow> f p t (i + length t) (take i s @ t @ drop (i + length p) s)) = Some r"
      and p: "p = []" and pos: "pos \<le> length s"
    have "str_find_from s p pos = Some pos"
      using p pos by (cases "drop pos s") (auto simp: str_find_from_def startsWith_def)
    then have "f p t (pos + length t) (take pos s @ t @ drop (pos + length p) s) = Some r"
      using r by simp
    from ih [OF this] show False using p pos by simp
  qed
  from this [of "[]" t 0 s] show ?thesis
    by (cases "replaceAll s [] t") (auto simp: replaceAll_def)
qed

section \<open>Printing and reading numbers\<close>

lemma digit_val_char: "d < 36 \<Longrightarrow> digit_val (digit_char d) = d"
  by (auto simp: digit_val_def digit_char_def Let_def)

lemma digits_val_snoc: "digits_val b (ds @ [c]) = digits_val b ds * b + digit_val c"
  by (simp add: digits_val_def)

lemma digits_rev_step:
  "2 \<le> b \<Longrightarrow> digits_rev b n = digit_char (n mod b) # (if n < b then [] else digits_rev b (n div b))"
  by (subst digits_rev.simps) simp

lemma digits_rev_not_Nil [simp]: "digits_rev b n \<noteq> []"
  by (subst digits_rev.simps) simp

lemma digits_val_rev:
  assumes "2 \<le> b" "b \<le> 36"
  shows "digits_val b (rev (digits_rev b n)) = n"
proof (induction n rule: less_induct)
  case (less n)
  have d: "digit_val (digit_char (n mod b)) = n mod b"
    using assms by (intro digit_val_char order_less_le_trans [OF mod_less_divisor]) simp_all
  show ?case
  proof (cases "n < b")
    case True
    then show ?thesis using assms d by (simp add: digits_rev_step digits_val_def)
  next
    case False
    then have "n div b < n" using assms(1) by (intro div_less_dividend) auto
    then show ?thesis
      using assms d less False by (subst digits_rev_step) (simp_all add: digits_val_snoc)
  qed
qed

lemma digits_rev_digits:
  assumes "2 \<le> b" "b \<le> 36"
  shows "\<forall>c \<in> set (digits_rev b n). digit_val c < b"
proof (induction n rule: less_induct)
  case (less n)
  have "n mod b < b" using assms by simp
  moreover from this have "n mod b < 36" using assms(2) by (rule order_less_le_trans)
  ultimately have d: "digit_val (digit_char (n mod b)) < b" by (simp add: digit_val_char)
  show ?case
  proof (cases "n < b")
    case True
    then show ?thesis using assms d by (simp add: digits_rev_step)
  next
    case False
    then have "n div b < n" using assms(1) by (intro div_less_dividend) auto
    then show ?thesis
      using assms d less.IH by (subst digits_rev_step) auto
  qed
qed

lemma digit_not_special:
  assumes "digit_val c < 36"
  shows "\<not> isspace c" "c \<noteq> CHR ''-''" "c \<noteq> CHR ''+''"
  using assms by (auto simp: digit_val_def isspace_def Let_def split: if_splits)

lemma digits_rev_lead: "0 < n \<Longrightarrow> 2 \<le> b \<Longrightarrow> b \<le> 36 \<Longrightarrow> digit_val (last (digits_rev b n)) \<noteq> 0"
proof (induction n rule: less_induct)
  case (less n)
  show ?case
  proof (cases "n < b")
    case True
    then show ?thesis using less.prems by (simp add: digits_rev_step digit_val_char)
  next
    case False
    then have "n div b < n" "0 < n div b" using less.prems by (auto intro: div_less_dividend simp: div_greater_zero_iff)
    then show ?thesis using less False by (subst digits_rev_step) simp_all
  qed
qed

text \<open>A printed number is read back: to the base it was printed in, and decimal also with base 0.\<close>

lemma scan_int_plain:
  "\<not> isspace c \<Longrightarrow> c \<noteq> CHR ''-'' \<Longrightarrow> c \<noteq> CHR ''+'' \<Longrightarrow>
   scan_int base (c # r) = map_option (Pair False) (scan_mag base (c # r))"
  by (simp add: scan_int_def)

lemma scan_int_minus: "scan_int base (CHR ''-'' # r) = map_option (Pair True) (scan_mag base r)"
  by (simp add: scan_int_def isspace_def)

lemma scan_mag_digits:
  assumes "ds \<noteq> []" "\<forall>c \<in> set ds. digit_val c < b" "b = 16 \<or> b = 10"
  shows "scan_mag b ds = Some (digits_val b ds)"
proof -
  have h: "\<not> hex_prefix ds" if "b = 16"
    using assms(2) that by (auto simp: hex_prefix_def digit_val_def split: list.split)
  have "int_base b ds = (b, ds)" using assms(3) h by (auto simp: int_base_def)
  moreover have "takeWhile (\<lambda>c. digit_val c < b) ds = ds"
    using assms(2) by (simp add: takeWhile_eq_all_conv)
  ultimately show ?thesis using assms(1) by (simp add: scan_mag_def del: takeWhile_eq_all_conv)
qed

lemma scan_digits:
  assumes "ds \<noteq> []" "\<forall>c \<in> set ds. digit_val c < b" "b = 16 \<or> b = 10"
  shows "scan_int b ds = Some (False, digits_val b ds)"
proof -
  obtain c r where ds: "ds = c # r" using assms(1) by (cases ds) auto
  have "\<not> isspace c" "c \<noteq> CHR ''-''" "c \<noteq> CHR ''+''"
    using assms(2,3) ds digit_not_special [of c] by auto
  then show ?thesis using scan_mag_digits [OF assms] by (simp add: scan_int_plain ds)
qed

lemma nat_str_digits: "nat_str n \<noteq> []" "\<forall>c \<in> set (nat_str n). digit_val c < 10" "digits_val 10 (nat_str n) = n"
  using digits_rev_digits [of 10 n] digits_val_rev [of 10 n] by (simp_all add: nat_str_def)

lemma hex_str_digits: "hex_str n \<noteq> []" "\<forall>c \<in> set (hex_str n). digit_val c < 16" "digits_val 16 (hex_str n) = n"
  using digits_rev_digits [of 16 n] digits_val_rev [of 16 n] by (simp_all add: hex_str_def)

lemma scan_nat_str: "scan_int 10 (nat_str n) = Some (False, n)"
  by (simp add: scan_digits nat_str_digits)

lemma scan_hex_str: "scan_int 16 (hex_str n) = Some (False, n)"
  by (simp add: scan_digits hex_str_digits)

lemma scan_int_str: "scan_int 10 (int_str i) = Some (i < 0, nat \<bar>i\<bar>)"
  by (simp add: int_str_def scan_int_minus scan_mag_digits nat_str_digits scan_nat_str)

lemma nat_str_inj: "nat_str a = nat_str b \<longleftrightarrow> a = b"
  using scan_nat_str by (metis option.inject prod.inject)

lemma stoi_int_str: "int_range i \<Longrightarrow> stoi (int_str i) = Inr i"
  by (simp add: stoi_def scan_int_str Let_def)

lemma long_fits:
  assumes "n < 2 ^ 32"
  shows "n < 2 ^ long_bits dm" "take_bit (long_bits dm) (word_of_nat n :: u64) = word_of_nat n"
proof -
  show n: "n < 2 ^ long_bits dm"
    using assms long_bits_bounds(1) [of dm] by (rule less_le_trans [OF _ power_increasing]) simp
  show "take_bit (long_bits dm) (word_of_nat n :: u64) = word_of_nat n"
    by (simp only: take_bit_of_nat take_bit_nat_eq_self [OF n])
qed

lemma stoul_nat_str: "n < 2 ^ 32 \<Longrightarrow> stoul dm 10 (nat_str n) = Inr (word_of_nat n)"
  using long_fits [of n dm] by (simp add: stoul_def scan_nat_str not_le)

lemma stoul_hex_str: "n < 2 ^ 32 \<Longrightarrow> stoul dm 16 (hex_str n) = Inr (word_of_nat n)"
  using long_fits [of n dm] by (simp add: stoul_def scan_hex_str not_le)

lemma nat_str_lead: "0 < n \<Longrightarrow> hd (nat_str n) \<noteq> CHR ''0''"
  using digits_rev_lead [of n 10] by (auto simp: nat_str_def hd_rev digit_val_def)

lemma nat_str_0: "nat_str 0 = ''0''"
  by (simp add: nat_str_def digits_rev_step digit_char_def) code_simp

lemma scan_nat_str_0: "scan_int 0 (nat_str n) = Some (False, n)"
proof (cases "n = 0")
  case True
  then show ?thesis by (simp add: nat_str_0) code_simp
next
  case False
  have "\<not> hex_prefix (nat_str n)" "int_base 0 (nat_str n) = int_base 10 (nat_str n)"
    using nat_str_lead [of n] False by (auto simp: hex_prefix_def int_base_def split: list.split)
  then have "scan_mag 0 (nat_str n) = scan_mag 10 (nat_str n)" by (simp add: scan_mag_def)
  moreover obtain c r where ds: "nat_str n = c # r" using nat_str_digits(1) by (cases "nat_str n") auto
  moreover have "\<not> isspace c" "c \<noteq> CHR ''-''" "c \<noteq> CHR ''+''"
    using nat_str_digits(2) [of n] ds digit_not_special [of c] by auto
  ultimately have "scan_int 0 (nat_str n) = scan_int 10 (nat_str n)" by (simp add: scan_int_plain)
  then show ?thesis by (simp add: scan_nat_str)
qed

lemma stoul_nat_str_0: "n < 2 ^ 32 \<Longrightarrow> stoul dm 0 (nat_str n) = Inr (word_of_nat n)"
  using long_fits [of n dm] by (simp add: stoul_def scan_nat_str_0 not_le)

end
