(* ===== verification/DbcMsg.thy ===== *)
theory DbcMsg
  imports DbcSignal CStrings "HOL-Library.Multiset"
begin

text \<open>
  Messages, from \<open>bridge/dbc/dbc.h\<close> and \<open>bridge/dbc/dbc.cc\<close>: message identifiers with their
  order, the multiplexed read of a signal (\<open>getValue\<close>, \<open>getRawBits\<close>), and the operations of
  \<open>cabana::Msg\<close>: \<open>addSignal\<close>, \<open>updateSignal\<close>, \<open>removeSignal\<close>, \<open>sig\<close>, \<open>indexOf\<close>,
  \<open>newSignalName\<close>, the copy assignment and \<open>update\<close>.

  \<open>sigs\<close> is a vector of pointers to signals owned by the message; a pointer into it is an
  index. Every operation that changes the vector ends in \<open>update\<close>, which sorts it and
  recomputes all pointers.
\<close>

section \<open>Message identifiers\<close>

datatype message_id = MessageId (mid_source: u8) (mid_address: u32)

definition mid_eq :: "message_id \<Rightarrow> message_id \<Rightarrow> bool" where
  "mid_eq a b \<longleftrightarrow> mid_source a = mid_source b \<and> mid_address a = mid_address b"

definition mid_ne :: "message_id \<Rightarrow> message_id \<Rightarrow> bool" where
  "mid_ne a b \<longleftrightarrow> \<not> mid_eq a b"

definition mid_gt :: "message_id \<Rightarrow> message_id \<Rightarrow> bool" where
  "mid_gt a b \<longleftrightarrow> (mid_source a, mid_address a) > (mid_source b, mid_address b)"

definition mid_lt :: "message_id \<Rightarrow> message_id \<Rightarrow> bool" where
  "mid_lt a b \<longleftrightarrow> (mid_source a, mid_address a) < (mid_source b, mid_address b)"

instantiation message_id :: linorder
begin

definition less_message_id :: "message_id \<Rightarrow> message_id \<Rightarrow> bool" where
  "less_message_id = mid_lt"

definition less_eq_message_id :: "message_id \<Rightarrow> message_id \<Rightarrow> bool" where
  "less_eq_message_id a b \<longleftrightarrow> (mid_source a, mid_address a) \<le> (mid_source b, mid_address b)"

instance
  by standard (auto simp: less_message_id_def mid_lt_def less_eq_message_id_def message_id.expand)

end

lemma mid_operators [simp]: "mid_eq a b \<longleftrightarrow> a = b" "mid_ne a b \<longleftrightarrow> a \<noteq> b" "mid_gt a b \<longleftrightarrow> b < a"
  "mid_lt a b \<longleftrightarrow> a < b"
  by (auto simp: mid_eq_def mid_ne_def mid_gt_def mid_lt_def less_message_id_def message_id.expand)

text \<open>The order of the enumeration \<open>Signal::Type\<close>.\<close>

fun type_code :: "sig_type \<Rightarrow> nat" where
  "type_code Normal = 0"
| "type_code Multiplexed = 1"
| "type_code Multiplexor = 2"

lemma type_code_inj: "type_code a = type_code b \<longleftrightarrow> a = b"
  by (cases a; cases b) simp_all

instantiation sig_type :: linorder
begin

definition less_sig_type :: "sig_type \<Rightarrow> sig_type \<Rightarrow> bool" where
  "less_sig_type a b \<longleftrightarrow> type_code a < type_code b"

definition less_eq_sig_type :: "sig_type \<Rightarrow> sig_type \<Rightarrow> bool" where
  "less_eq_sig_type a b \<longleftrightarrow> type_code a \<le> type_code b"

instance
  by standard (auto simp: less_sig_type_def less_eq_sig_type_def type_code_inj)

end

section \<open>Messages\<close>

record msg =
  m_address :: u32
  m_name :: string
  m_size :: u32
  m_comment :: string
  transmitter :: string
  sigs :: "signal list"
  m_mask :: bytes
  m_multiplexor :: "nat option"

definition msg_init :: msg where
  "msg_init = \<lparr>m_address = 0, m_name = [], m_size = 0, m_comment = [], transmitter = [],
     sigs = [], m_mask = [], m_multiplexor = None\<rparr>"

text \<open>The comparison of \<open>update\<close>'s sort, as a key: multiplexors first, then by multiplex
  value, start bit and name.\<close>

definition sort_cmp :: "signal \<Rightarrow> signal \<Rightarrow> bool" where
  "sort_cmp l r \<longleftrightarrow>
     (sg_type r, multiplex_value l, start_bit l, sg_name l)
     < (sg_type l, multiplex_value r, start_bit r, sg_name r)"

definition sort_pos :: "signal \<Rightarrow> nat \<times> int \<times> int \<times> string" where
  "sort_pos s = (2 - type_code (sg_type s), multiplex_value s, start_bit s, sg_name s)"

definition sort_sigs :: "signal list \<Rightarrow> signal list" where
  "sort_sigs = sort_key sort_pos"

lemma sort_cmp_pos: "sort_cmp l r \<longleftrightarrow> sort_pos l < sort_pos r"
  by (cases "sg_type l"; cases "sg_type r")
    (auto simp: sort_cmp_def sort_pos_def less_sig_type_def less_eq_sig_type_def less_prod_def)

text \<open>\<open>Signal::update\<close>.\<close>

definition signal_update :: "signal \<Rightarrow> signal option" where
  "signal_update s =
     do { s \<leftarrow> updateMsbLsb s;
          Some (s\<lparr>receiver_name := (if receiver_name s = [] then DEFAULT_NODE_NAME else receiver_name s)\<rparr>) }"

text \<open>The mask loop of \<open>update\<close>: the bytes of one signal, from its most significant one.
  The shifts are undefined outside the width of the shifted type.\<close>

function mask_loop :: "signal \<Rightarrow> int \<Rightarrow> int \<Rightarrow> bytes \<Rightarrow> bytes option" where
  "mask_loop sg i bits m =
     (if 0 \<le> i \<and> i < int (length m) \<and> 0 < bits then
        (let l = (if sg_lsb sg sdiv 8 = i then sg_lsb sg else i * 8);
             h = (if sg_msb sg sdiv 8 = i then sg_msb sg else (i + 1) * 8 - 1);
             sz = h - l + 1;
             shift = l - i * 8
         in if 0 \<le> sz \<and> sz < 64 \<and> 0 \<le> shift \<and> shift < 64 then
              mask_loop sg (if is_little_endian sg then i - 1 else i + 1) (bits - sz)
                (m[nat i := (m ! nat i) OR ucast (push_bit (nat shift) (push_bit (nat sz) (1 :: u64) - 1))])
            else None)
      else Some m)"
  by pat_completeness auto
termination
  by (relation "measure (\<lambda>(sg, i, bits, m).
        if is_little_endian sg then nat (i + 1) else nat (int (length m) - i))") auto

declare mask_loop.simps [simp del]

text \<open>The first loop over the sorted signals (the multiplexor is the last one of that
  type), and the second one, which links the multiplexed signals.\<close>

fun update_sigs :: "nat \<Rightarrow> signal list \<Rightarrow> nat option \<Rightarrow> bytes \<Rightarrow> (signal list \<times> nat option \<times> bytes) option" where
  "update_sigs i [] mux m = Some ([], mux, m)"
| "update_sigs i (s # ss) mux m =
     do { let mux = (if sg_type s = Multiplexor then Some i else mux);
          s \<leftarrow> signal_update s;
          m \<leftarrow> mask_loop s (sg_msb s sdiv 8) (sg_size s) m;
          (ss, mux, m) \<leftarrow> update_sigs (Suc i) ss mux m;
          Some (s # ss, mux, m) }"

definition link_sig :: "nat option \<Rightarrow> signal \<Rightarrow> signal" where
  "link_sig mux s =
     (let s = s\<lparr>multiplexor := (if sg_type s = Multiplexed then mux else None)\<rparr>
      in if multiplexor s = None then
           s\<lparr>sg_type := (if sg_type s = Multiplexed then Normal else sg_type s), multiplex_value := 0\<rparr>
         else s)"

definition msg_update :: "msg \<Rightarrow> msg option" where
  "msg_update m =
     do { (ss, mux, mk) \<leftarrow> update_sigs 0 (sort_sigs (sigs m)) None (replicate (unat (m_size m)) 0);
          Some (m\<lparr>transmitter := (if transmitter m = [] then DEFAULT_NODE_NAME else transmitter m),
                  sigs := map (link_sig mux) ss, m_mask := mk, m_multiplexor := mux\<rparr>) }"

text \<open>\<open>sig\<close>, the first signal of that name, as an index; \<open>addSignal\<close>, \<open>updateSignal\<close>,
  \<open>removeSignal\<close>. A result \<open>None\<close> is an undefined shift or overflow inside \<open>update\<close>.\<close>

definition msg_sig :: "msg \<Rightarrow> string \<Rightarrow> nat option" where
  "msg_sig m n = find_index (\<lambda>s. sg_name s = n) (sigs m)"

definition addSignal :: "msg \<Rightarrow> signal \<Rightarrow> msg option" where
  "addSignal m s = msg_update (m\<lparr>sigs := sigs m @ [s]\<rparr>)"

definition updateSignal :: "msg \<Rightarrow> string \<Rightarrow> signal \<Rightarrow> msg option" where
  "updateSignal m n s =
     (case msg_sig m n of
        Some i \<Rightarrow> msg_update (m\<lparr>sigs := (sigs m)[i := s]\<rparr>)
      | None \<Rightarrow> Some m)"

definition removeSignal :: "msg \<Rightarrow> string \<Rightarrow> msg option" where
  "removeSignal m n =
     (case msg_sig m n of
        Some i \<Rightarrow> msg_update (m\<lparr>sigs := take i (sigs m) @ drop (Suc i) (sigs m)\<rparr>)
      | None \<Rightarrow> Some m)"

text \<open>\<open>indexOf\<close> compares pointers, so its argument is an index already.\<close>

definition indexOf :: "msg \<Rightarrow> nat option \<Rightarrow> int" where
  "indexOf m p =
     (case p of None \<Rightarrow> - 1
      | Some k \<Rightarrow> (case find_index (\<lambda>j. j = k) [0..<length (sigs m)] of
                     Some i \<Rightarrow> int i | None \<Rightarrow> - 1))"

text \<open>\<open>operator==\<close> compares doubles as numbers and leaves the multiplexor out.\<close>

definition val_desc_eq :: "(f64 \<times> string) list \<Rightarrow> (f64 \<times> string) list \<Rightarrow> bool" where
  "val_desc_eq v w \<longleftrightarrow> list_all2 (\<lambda>(a, s) (b, t). f_eq a b \<and> s = t) v w"

definition signal_eq :: "signal \<Rightarrow> signal \<Rightarrow> bool" where
  "signal_eq s t \<longleftrightarrow>
     sg_name s = sg_name t \<and> sg_size s = sg_size t \<and> start_bit s = start_bit t \<and> sg_msb s = sg_msb t \<and> sg_lsb s = sg_lsb t
     \<and> is_signed s = is_signed t \<and> is_little_endian s = is_little_endian t
     \<and> f_eq (factor s) (factor t) \<and> f_eq (offset s) (offset t) \<and> f_eq (sg_min s) (sg_min t) \<and> f_eq (sg_max s) (sg_max t)
     \<and> sg_comment s = sg_comment t \<and> sg_unit s = sg_unit t \<and> val_desc_eq (val_desc s) (val_desc t)
     \<and> multiplex_value s = multiplex_value t \<and> sg_type s = sg_type t \<and> receiver_name s = receiver_name t"

definition signal_ne :: "signal \<Rightarrow> signal \<Rightarrow> bool" where
  "signal_ne s t \<longleftrightarrow> \<not> signal_eq s t"

text \<open>A signal equals itself unless one of its numbers is not a number.\<close>

lemma val_desc_eq_refl: "val_desc_eq v v \<longleftrightarrow> (\<forall>(a, s) \<in> set v. \<not> is_nan a)"
  by (induction v) (auto simp: val_desc_eq_def f_eq_def)

lemma signal_eq_refl:
  "signal_eq s s \<longleftrightarrow> \<not> is_nan (factor s) \<and> \<not> is_nan (offset s) \<and> \<not> is_nan (sg_min s) \<and> \<not> is_nan (sg_max s)
     \<and> (\<forall>(a, t) \<in> set (val_desc s). \<not> is_nan a)"
  by (simp add: signal_eq_def val_desc_eq_refl) (simp add: f_eq_def)

text \<open>The copy assignment \<open>*this = other\<close> on a store of messages, so that the two sides may be
  the same object: the signals of the target are deleted before the source's are read.\<close>

definition msg_assign :: "('a \<Rightarrow> msg) \<Rightarrow> 'a \<Rightarrow> 'a \<Rightarrow> ('a \<Rightarrow> msg) option" where
  "msg_assign st this other =
     (let o1 = st other;
          st1 = st(this := (st this)\<lparr>m_address := m_address o1, m_name := m_name o1, m_size := m_size o1,
                     m_comment := m_comment o1, transmitter := transmitter o1\<rparr>);
          st2 = st1(this := (st1 this)\<lparr>sigs := []\<rparr>);
          st3 = st2(this := (st2 this)\<lparr>sigs := sigs (st2 other)\<rparr>)
      in do { m \<leftarrow> msg_update (st3 this); Some (st3(this := m)) })"

text \<open>\<open>newSignalName\<close>: the loop is given one
  turn more than there are signals, which \<open>newSignalName_fresh\<close> shows to be enough.\<close>

fun new_name_loop :: "nat \<Rightarrow> msg \<Rightarrow> nat \<Rightarrow> string option" where
  "new_name_loop 0 m i = None"
| "new_name_loop (Suc fuel) m i =
     (let n = ''NEW_SIGNAL_'' @ nat_str i
      in if msg_sig m n = None then Some n else new_name_loop fuel m (Suc i))"

definition newSignalName :: "msg \<Rightarrow> string option" where
  "newSignalName m = new_name_loop (Suc (length (sigs m))) m 1"

section \<open>Reading a signal of a message\<close>

text \<open>The multiplexor check of \<open>getValue\<close> and \<open>getRawBits\<close>: the physical value of the
  multiplexor is compared with the signal's multiplex value. \<open>Some None\<close> is the return
  value \<open>false\<close>.\<close>

definition mux_selects :: "msg \<Rightarrow> bytes \<Rightarrow> signal \<Rightarrow> bool option" where
  "mux_selects m data s =
     (case multiplexor s of
        None \<Rightarrow> Some True
      | Some j \<Rightarrow> do { v \<leftarrow> get_raw_value data (sigs m ! j); Some (f_eq v (f_of_int (multiplex_value s))) })"

definition getValue :: "msg \<Rightarrow> bytes \<Rightarrow> signal \<Rightarrow> f64 option option" where
  "getValue m data s =
     do { sel \<leftarrow> mux_selects m data s;
          if sel then do { v \<leftarrow> get_raw_value data s; Some (Some v) } else Some None }"

definition getRawBits :: "msg \<Rightarrow> bytes \<Rightarrow> signal \<Rightarrow> u64 option option" where
  "getRawBits m data s =
     do { sel \<leftarrow> mux_selects m data s;
          if sel then do { v \<leftarrow> get_raw_bits data s; Some (Some v) } else Some None }"

section \<open>The invariant that \<open>update\<close> establishes\<close>

definition linked :: "nat option \<Rightarrow> signal \<Rightarrow> bool" where
  "linked mux s \<longleftrightarrow>
     updateMsbLsb s = Some s \<and> receiver_name s \<noteq> []
     \<and> multiplexor s = (if sg_type s = Multiplexed then mux else None)
     \<and> (sg_type s = Multiplexed \<longrightarrow> mux \<noteq> None)
     \<and> (sg_type s \<noteq> Multiplexed \<longrightarrow> multiplex_value s = 0)"

definition msg_inv :: "msg \<Rightarrow> bool" where
  "msg_inv m \<longleftrightarrow>
     length (m_mask m) = unat (m_size m) \<and> transmitter m \<noteq> []
     \<and> (\<forall>s \<in> set (sigs m). linked (m_multiplexor m) s)
     \<and> (\<forall>s \<in> set (sigs m). sg_type s = Multiplexor \<longrightarrow> m_multiplexor m \<noteq> None)
     \<and> (\<forall>j. m_multiplexor m = Some j \<longrightarrow> j < length (sigs m) \<and> sg_type (sigs m ! j) = Multiplexor)"

text \<open>One turn of the mask loop.\<close>

lemma mask_loop_stop: "\<not> (0 \<le> i \<and> i < int (length m) \<and> 0 < bits) \<Longrightarrow> mask_loop sg i bits m = Some m"
  by (subst mask_loop.simps) (simp only: if_False)

lemma mask_loop_turn:
  assumes "0 \<le> i \<and> i < int (length m) \<and> 0 < bits"
    and "l = (if sg_lsb sg sdiv 8 = i then sg_lsb sg else i * 8)"
    and "h = (if sg_msb sg sdiv 8 = i then sg_msb sg else (i + 1) * 8 - 1)"
  shows "mask_loop sg i bits m =
    (if 0 \<le> h - l + 1 \<and> h - l + 1 < 64 \<and> 0 \<le> l - i * 8 \<and> l - i * 8 < 64 then
       mask_loop sg (if is_little_endian sg then i - 1 else i + 1) (bits - (h - l + 1))
         (m[nat i := (m ! nat i)
              OR ucast (push_bit (nat (l - i * 8)) (push_bit (nat (h - l + 1)) (1 :: u64) - 1))])
     else None)"
  by (subst mask_loop.simps) (simp only: assms(1) assms(2,3) [symmetric] Let_def if_True simp_thms)

lemma length_mask_loop: "mask_loop sg i bits m = Some m' \<Longrightarrow> length m' = length m"
proof (induction sg i bits m arbitrary: m' rule: mask_loop.induct)
  case (1 sg i bits m)
  show ?case
  proof (cases "0 \<le> i \<and> i < int (length m) \<and> 0 < bits")
    case False
    then show ?thesis using "1.prems" by (simp add: mask_loop_stop)
  next
    case True
    define l where "l = (if sg_lsb sg sdiv 8 = i then sg_lsb sg else i * 8)"
    define h where "h = (if sg_msb sg sdiv 8 = i then sg_msb sg else (i + 1) * 8 - 1)"
    note t = mask_loop_turn [OF True l_def h_def]
    show ?thesis
    proof (cases "0 \<le> h - l + 1 \<and> h - l + 1 < 64 \<and> 0 \<le> l - i * 8 \<and> l - i * 8 < 64")
      case c: True
      have "mask_loop sg (if is_little_endian sg then i - 1 else i + 1) (bits - (h - l + 1))
         (m[nat i := (m ! nat i)
              OR ucast (push_bit (nat (l - i * 8)) (push_bit (nat (h - l + 1)) (1 :: u64) - 1))]) = Some m'"
        using "1.prems" unfolding t by (simp only: c if_True simp_thms)
      from "1.IH" [OF True l_def h_def refl refl c this]
      show ?thesis by (simp only: length_list_update)
    next
      case False
      then show ?thesis using "1.prems" unfolding t by (simp only: if_False option.simps)
    qed
  qed
qed

lemma updateMsbLsb_idem:
  assumes "updateMsbLsb s = Some s'"
  shows "updateMsbLsb s' = Some s'"
  using assms by (auto simp: updateMsbLsb_def Let_def split: if_splits)

lemma updateMsbLsb_receiver:
  "updateMsbLsb s = Some s' \<Longrightarrow> updateMsbLsb (s\<lparr>receiver_name := r\<rparr>) = Some (s'\<lparr>receiver_name := r\<rparr>)"
  by (auto simp: updateMsbLsb_def Let_def split: if_splits)

lemma signal_update_props:
  assumes "signal_update s = Some s'"
  shows "updateMsbLsb s' = Some s'" "receiver_name s' \<noteq> []"
    "sg_type s' = sg_type s" "sg_name s' = sg_name s" "start_bit s' = start_bit s" "sg_size s' = sg_size s"
    "is_little_endian s' = is_little_endian s" "multiplex_value s' = multiplex_value s"
proof -
  obtain t where t: "updateMsbLsb s = Some t"
    and s': "s' = t\<lparr>receiver_name := (if receiver_name t = [] then DEFAULT_NODE_NAME else receiver_name t)\<rparr>"
    using assms by (auto simp: signal_update_def bind_eq_Some_conv)
  show "updateMsbLsb s' = Some s'"
    unfolding s' by (rule updateMsbLsb_receiver [OF updateMsbLsb_idem [OF t]])
  show "receiver_name s' \<noteq> []" by (simp add: s' DEFAULT_NODE_NAME_def)
  show "sg_type s' = sg_type s" "sg_name s' = sg_name s" "start_bit s' = start_bit s"
    "sg_size s' = sg_size s" "is_little_endian s' = is_little_endian s"
    "multiplex_value s' = multiplex_value s"
    using t by (auto simp: s' updateMsbLsb_def Let_def split: if_splits)
qed

lemma update_sigs_props:
  assumes "update_sigs i ss mux m = Some (ss', mux', m')"
  shows "list_all2 (\<lambda>s s'. signal_update s = Some s') ss ss' \<and> length m' = length m
    \<and> ((\<exists>s \<in> set ss. sg_type s = Multiplexor) \<longrightarrow> mux' \<noteq> None)
    \<and> (mux' = mux \<or> (\<exists>j < length ss. mux' = Some (i + j) \<and> sg_type (ss ! j) = Multiplexor))"
  using assms
proof (induction ss arbitrary: i mux m ss' mux' m')
  case Nil
  then show ?case by simp
next
  case (Cons s ss)
  let ?mux = "if sg_type s = Multiplexor then Some i else mux"
  obtain t m1 ts where t: "signal_update s = Some t" and m1: "mask_loop t (sg_msb t sdiv 8) (sg_size t) m = Some m1"
    and r: "update_sigs (Suc i) ss ?mux m1 = Some (ts, mux', m')" and ss': "ss' = t # ts"
    using Cons.prems by (auto simp: Let_def bind_eq_Some_conv)
  note IH = Cons.IH [OF r]
  have "mux' = mux \<or> (\<exists>j < length (s # ss). mux' = Some (i + j) \<and> sg_type ((s # ss) ! j) = Multiplexor)"
  proof (cases "mux' = ?mux")
    case True
    then show ?thesis by (auto intro!: exI [of _ 0] split: if_splits)
  next
    case False
    then obtain j where "j < length ss" "mux' = Some (Suc i + j)" "sg_type (ss ! j) = Multiplexor"
      using IH by blast
    then show ?thesis by (intro disjI2 exI [of _ "Suc j"]) simp
  qed
  moreover have "mux' \<noteq> None" if "sg_type s = Multiplexor"
    using IH that by auto
  ultimately show ?case
    using IH t length_mask_loop [OF m1] by (auto simp: ss')
qed

lemma linked_link_sig:
  assumes "updateMsbLsb s = Some s" "receiver_name s \<noteq> []"
  shows "linked mux (link_sig mux s)"
  using assms by (cases mux; cases "sg_type s") (auto simp: linked_def link_sig_def updateMsbLsb_fix Let_def)

lemma link_sig_multiplexor: "sg_type (link_sig mux s) = Multiplexor \<longleftrightarrow> sg_type s = Multiplexor"
  by (auto simp: link_sig_def Let_def)

lemma msg_update_inv:
  assumes "msg_update m = Some m'"
  shows "msg_inv m'"
proof -
  obtain ss mux mk where u: "update_sigs 0 (sort_sigs (sigs m)) None (replicate (unat (m_size m)) 0)
      = Some (ss, mux, mk)"
    and m': "m' = m\<lparr>transmitter := (if transmitter m = [] then DEFAULT_NODE_NAME else transmitter m),
                  sigs := map (link_sig mux) ss, m_mask := mk, m_multiplexor := mux\<rparr>"
    using assms by (auto simp: msg_update_def bind_eq_Some_conv)
  note p = update_sigs_props [OF u]
  have upd: "\<forall>s \<in> set ss. updateMsbLsb s = Some s \<and> receiver_name s \<noteq> []"
    using p signal_update_props(1,2) by (fastforce simp: list_all2_conv_all_nth in_set_conv_nth)
  have ty: "sg_type (ss ! j) = sg_type (sort_sigs (sigs m) ! j)" if "j < length ss" for j
    using p that signal_update_props(3) by (auto simp: list_all2_conv_all_nth)
  have len: "length ss = length (sort_sigs (sigs m))" using p by (auto simp: list_all2_lengthD)
  have "\<forall>s \<in> set ss. sg_type s = Multiplexor \<longrightarrow> mux \<noteq> None"
  proof (intro ballI impI)
    fix s assume "s \<in> set ss" "sg_type s = Multiplexor"
    then obtain j where "j < length ss" "sg_type (sort_sigs (sigs m) ! j) = Multiplexor"
      using ty by (auto simp: in_set_conv_nth)
    then have "\<exists>s \<in> set (sort_sigs (sigs m)). sg_type s = Multiplexor" using len nth_mem by metis
    then show "mux \<noteq> None" using p by blast
  qed
  moreover have "\<forall>j. mux = Some j \<longrightarrow> j < length ss \<and> sg_type (ss ! j) = Multiplexor"
    using p ty len by auto
  ultimately show ?thesis
    unfolding msg_inv_def m' using p upd
    by (auto simp: link_sig_multiplexor linked_link_sig DEFAULT_NODE_NAME_def)
qed

section \<open>The mask marks the bits of the signals\<close>

text \<open>The ends of a byte's run, as \<open>mask_loop\<close> computes them: absolute positions.\<close>

lemma int_split: "int q = 8 * int (q div 8) + int (q mod 8)"
  by presburger

lemma mask_run:
  assumes "wf_signal sg" "0 < r" "r \<le> sig_bits sg" "r = sig_bits sg \<or> sig_pos sg (r - 1) mod 8 = 7"
  defines "p \<equiv> sig_pos sg (r - 1)"
  shows "(if sg_msb sg sdiv 8 = int (p div 8) then sg_msb sg else (int (p div 8) + 1) * 8 - 1) = int p"
    "(if sg_lsb sg sdiv 8 = int (p div 8) then sg_lsb sg else int (p div 8) * 8) = int (p + 1 - run_len sg r)"
proof -
  note e = wf_signal_ends [OF assms(1)]
  note p = int_split [of p]
  have split: "int q = 8 * int (p div 8) + (int q AND 7)" if "int q sdiv 8 = int (p div 8)" for q
    using that unfolding int_byte of_nat_eq_iff by (metis int_split)
  have b: "run_len sg r \<le> p mod 8 + 1" using run_len_bounds(4) [of sg r] by (simp add: p_def)
  have top: "(if int (p div 8) = sg_msb sg sdiv 8 then sg_msb sg AND 7 else 7) = int (p mod 8)"
    unfolding p_def by (rule run_top [OF assms(1-4)])
  have low: "(if int (p div 8) = sg_lsb sg sdiv 8 then sg_lsb sg AND 7 else 0) = int (p mod 8 + 1 - run_len sg r)"
    unfolding p_def by (rule run_low [OF assms(1-3)])
  show "(if sg_msb sg sdiv 8 = int (p div 8) then sg_msb sg else (int (p div 8) + 1) * 8 - 1) = int p"
    using top p split [of "sig_pos sg (sig_bits sg - 1)"] unfolding e(4) by (auto split: if_splits)
  have "int (p + 1 - run_len sg r) = 8 * int (p div 8) + int (p mod 8 + 1 - run_len sg r)"
    using p b by linarith
  then show "(if sg_lsb sg sdiv 8 = int (p div 8) then sg_lsb sg else int (p div 8) * 8) = int (p + 1 - run_len sg r)"
    using low split [of "sig_pos sg 0"] unfolding e(5) by (auto split: if_splits)
qed

text \<open>The positions of one run are contiguous and lie in one byte.\<close>

lemma run_positions:
  assumes "0 < r" "r \<le> sig_bits sg"
  defines "p \<equiv> sig_pos sg (r - 1)"
  shows "(\<exists>k. r - run_len sg r \<le> k \<and> k < r \<and> sig_pos sg k = q) \<longleftrightarrow> p + 1 - run_len sg r \<le> q \<and> q \<le> p"
proof -
  let ?c = "run_len sg r"
  note b = run_len_bounds(1) [OF assms(1), of sg] run_len_bounds(2-4) [of sg r]
  have pos: "sig_pos sg (r - 1 - j) + j = p" if "j < ?c" for j
    unfolding p_def by (rule sig_pos_run [OF assms(1,2) that])
  show ?thesis
  proof
    assume "\<exists>k. r - ?c \<le> k \<and> k < r \<and> sig_pos sg k = q"
    then obtain k where k: "r - ?c \<le> k" "k < r" "sig_pos sg k = q" by blast
    then have "r - 1 - k < ?c" "r - 1 - (r - 1 - k) = k" using b by linarith+
    then show "p + 1 - ?c \<le> q \<and> q \<le> p" using pos [of "r - 1 - k"] k(3) by simp
  next
    assume q: "p + 1 - ?c \<le> q \<and> q \<le> p"
    then have "p - q < ?c" using b(1) by linarith
    from pos [OF this] have "sig_pos sg (r - 1 - (p - q)) = q" using q by linarith
    moreover have "r - ?c \<le> r - 1 - (p - q)" "r - 1 - (p - q) < r"
      using \<open>p - q < ?c\<close> b(2) assms(1) by linarith+
    ultimately show "\<exists>k. r - ?c \<le> k \<and> k < r \<and> sig_pos sg k = q" by blast
  qed
qed

lemma mark_bits:
  assumes "i < length m" "l + c \<le> 8"
  shows "payload_bit (m[i := (m ! i) OR ucast (push_bit l (push_bit c (1 :: u64) - 1))]) q
    \<longleftrightarrow> payload_bit m q \<or> 8 * i + l \<le> q \<and> q < 8 * i + l + c"
proof (cases "q div 8 = i")
  case True
  define x where "x = q mod 8"
  have q: "q = 8 * i + x" "x \<le> 7" using True by (auto simp: x_def)
  have "bit (ucast (push_bit l (push_bit c (1 :: u64) - 1)) :: 8 word) x \<longleftrightarrow> l \<le> x \<and> x < l + c"
    using q(2) assms(2) by (auto simp: bit_simps simp flip: mask_eq_exp_minus_1)
  then show ?thesis
    using assms(1) q by (simp add: payload_bit_def bit_simps byte_of)
next
  case False
  then have "\<not> (8 * i + l \<le> q \<and> q < 8 * i + l + c)" using assms(2) by auto
  then show ?thesis using False by (auto simp: payload_bit_def)
qed

lemma mask_loop_marks:
  assumes "wf_signal sg" "r \<le> sig_bits sg"
    and "0 < r \<Longrightarrow> i = int (sig_pos sg (r - 1) div 8)"
    and "0 < r \<Longrightarrow> r = sig_bits sg \<or> sig_pos sg (r - 1) mod 8 = 7"
  shows "\<exists>r' m'. r' \<le> r \<and> mask_loop sg i (int r) m = Some m' \<and> length m' = length m
    \<and> (\<forall>q. payload_bit m' q \<longleftrightarrow> payload_bit m q \<or> (\<exists>k. r' \<le> k \<and> k < r \<and> sig_pos sg k = q))
    \<and> (0 < r' \<longrightarrow> length m \<le> sig_pos sg (r' - 1) div 8)"
  using assms(2-4)
proof (induction r arbitrary: i m rule: less_induct)
  case (less r)
  let ?p = "sig_pos sg (r - 1)" and ?c = "run_len sg r"
  show ?case
  proof (cases "0 < r \<and> ?p div 8 < length m")
    case False
    then have "mask_loop sg i (int r) m = Some m"
      using less.prems(2) by (intro mask_loop_stop) (cases "0 < r"; simp)
    then show ?thesis using False by (intro exI [of _ r] exI [of _ m]) auto
  next
    case True
    then have r: "0 < r" and i: "i = int (?p div 8)" and d: "?p div 8 < length m"
      using less.prems(2) by simp_all
    note b = run_len_bounds(1) [OF r, of sg] run_len_bounds(2-4) [of sg r]
    note mr = mask_run [OF assms(1) r less.prems(1) less.prems(3) [OF r]]
    let ?l = "?p mod 8 + 1 - ?c"
    let ?j = "if is_little_endian sg then i - 1 else i + 1"
    let ?m = "m[?p div 8 := (m ! (?p div 8)) OR ucast (push_bit ?l (push_bit ?c (1 :: u64) - 1))]"
    have g: "0 \<le> i \<and> i < int (length m) \<and> 0 < int r" using i d r by simp
    have p: "?p = 8 * (?p div 8) + ?p mod 8" by simp
    have sz: "int ?p - int (?p + 1 - ?c) + 1 = int ?c" "int (?p + 1 - ?c) - i * 8 = int ?l"
      using b(4) p unfolding i by linarith+
    have "?c < 64" "?l < 64" using b(3) by linarith+
    then have step: "mask_loop sg i (int r) m = mask_loop sg ?j (int (r - ?c)) ?m"
      unfolding mask_loop_turn [OF g mr(2) [folded i, symmetric] mr(1) [folded i, symmetric]] sz
      using b(2) by (simp add: i of_nat_diff)
    have "\<exists>r' m'. r' \<le> r - ?c \<and> mask_loop sg ?j (int (r - ?c)) ?m = Some m' \<and> length m' = length ?m
        \<and> (\<forall>q. payload_bit m' q \<longleftrightarrow> payload_bit ?m q \<or> (\<exists>k. r' \<le> k \<and> k < r - ?c \<and> sig_pos sg k = q))
        \<and> (0 < r' \<longrightarrow> length ?m \<le> sig_pos sg (r' - 1) div 8)"
    proof (rule less.IH)
      show "r - ?c < r" using r b(1) by simp
      show "r - ?c \<le> sig_bits sg" using less.prems(1) by simp
      show "?j = int (sig_pos sg (r - ?c - 1) div 8)" if "0 < r - ?c"
        using run_next(2) [OF r less.prems(1)] that i by simp
      show "r - ?c = sig_bits sg \<or> sig_pos sg (r - ?c - 1) mod 8 = 7" if "0 < r - ?c"
        using run_next(1) [OF r less.prems(1)] that by simp
    qed
    then obtain r' m' where m': "r' \<le> r - ?c" "mask_loop sg ?j (int (r - ?c)) ?m = Some m'"
        "length m' = length ?m" "0 < r' \<Longrightarrow> length ?m \<le> sig_pos sg (r' - 1) div 8"
      and pb: "\<And>q. payload_bit m' q \<longleftrightarrow> payload_bit ?m q \<or> (\<exists>k. r' \<le> k \<and> k < r - ?c \<and> sig_pos sg k = q)"
      by blast
    have "payload_bit m' q \<longleftrightarrow> payload_bit m q \<or> (\<exists>k. r' \<le> k \<and> k < r \<and> sig_pos sg k = q)" for q
    proof -
      have "?l + ?c \<le> 8" using b(3,4) by simp
      then have "payload_bit ?m q \<longleftrightarrow> payload_bit m q \<or> ?p + 1 - ?c \<le> q \<and> q \<le> ?p"
        unfolding mark_bits [OF d \<open>?l + ?c \<le> 8\<close>] using p b(4) by linarith
      moreover have "(\<exists>k. r' \<le> k \<and> k < r \<and> sig_pos sg k = q) \<longleftrightarrow>
          (\<exists>k. r - ?c \<le> k \<and> k < r \<and> sig_pos sg k = q) \<or> (\<exists>k. r' \<le> k \<and> k < r - ?c \<and> sig_pos sg k = q)"
      proof -
        have "r' \<le> k \<and> k < r \<longleftrightarrow> (r - ?c \<le> k \<and> k < r) \<or> (r' \<le> k \<and> k < r - ?c)" for k
          using m'(1) by linarith
        then show ?thesis by blast
      qed
      ultimately show ?thesis unfolding pb run_positions [OF r less.prems(1)] by blast
    qed
    then show ?thesis
      using m' step b(2) by (intro exI [of _ r'] exI [of _ m']) auto
  qed
qed

lemma mask_loop_fits:
  assumes "wf_signal sg" "fits m sg"
  obtains m' where "mask_loop sg (sg_msb sg sdiv 8) (sg_size sg) m = Some m'" "length m' = length m"
    "\<And>q. payload_bit m' q \<longleftrightarrow> payload_bit m q \<or> (\<exists>k < sig_bits sg. sig_pos sg k = q)"
proof -
  obtain r' m' where m': "r' \<le> sig_bits sg" "mask_loop sg (sg_msb sg sdiv 8) (int (sig_bits sg)) m = Some m'"
      "length m' = length m" "0 < r' \<Longrightarrow> length m \<le> sig_pos sg (r' - 1) div 8"
      "\<And>q. payload_bit m' q \<longleftrightarrow> payload_bit m q \<or> (\<exists>k. r' \<le> k \<and> k < sig_bits sg \<and> sig_pos sg k = q)"
    using mask_loop_marks [OF assms(1) order_refl, of "sg_msb sg sdiv 8" m] msb_byte [OF assms(1)] by blast
  have "r' = 0"
  proof (rule ccontr)
    assume "r' \<noteq> 0"
    then have "r' - 1 < sig_bits sg" "0 < r'" using m'(1) by linarith+
    then show False using m'(4) assms(2) unfolding fits_def by (meson not_le)
  qed
  then show ?thesis using that [of m'] m' wf_signal_ends(3) [OF assms(1)] by simp
qed

section \<open>What \<open>update\<close> does to a message whose signals are in range\<close>

definition sig_ok :: "signal \<Rightarrow> bool" where
  "sig_ok s \<longleftrightarrow> 0 \<le> start_bit s \<and> start_bit s < 2 ^ 16 \<and> 1 \<le> sg_size s \<and> sg_size s \<le> 64"

text \<open>The part of a signal that an update keeps, and the positions a signal covers.\<close>

definition layout :: "signal \<Rightarrow> string \<times> int \<times> int \<times> bool \<times> bool \<times> f64 \<times> f64" where
  "layout s = (sg_name s, start_bit s, sg_size s, is_little_endian s, is_signed s, factor s, offset s)"

definition covers :: "signal \<Rightarrow> nat \<Rightarrow> bool" where
  "covers s q \<longleftrightarrow> (\<exists>k < sig_bits s. sig_pos s k = q)"

definition fits_size :: "nat \<Rightarrow> signal \<Rightarrow> bool" where
  "fits_size n s \<longleftrightarrow> (\<forall>k < sig_bits s. sig_pos s k div 8 < n)"

lemma covers_cong: "layout s = layout t \<Longrightarrow> covers s = covers t"
  by (auto simp: covers_def layout_def sig_pos_def fun_eq_iff)

lemma fits_size_cong: "layout s = layout t \<Longrightarrow> fits_size n s = fits_size n t"
  by (auto simp: fits_size_def layout_def sig_pos_def)

lemma sig_ok_cong: "layout s = layout t \<Longrightarrow> sig_ok s = sig_ok t"
  by (auto simp: sig_ok_def layout_def)

lemma flipBitPos_range:
  assumes "0 \<le> b"
  shows "0 \<le> flipBitPos b" "flipBitPos b \<le> b + 7"
proof -
  obtain q where b: "b = int q" using assms nonneg_int_cases by blast
  have "flip q \<le> q + 7" unfolding flip_def by (rule order_trans [of _ "8 * (q div 8) + 7"]) simp_all
  then show "0 \<le> flipBitPos b" "flipBitPos b \<le> b + 7" by (simp_all add: b flipBitPos_flip)
qed

lemma updateMsbLsb_ok:
  assumes "sig_ok s"
  obtains t where "updateMsbLsb s = Some t" "wf_signal t" "layout t = layout s"
proof -
  have s: "0 \<le> start_bit s" "start_bit s < 2 ^ 16" "1 \<le> sg_size s" "sg_size s \<le> 64"
    using assms by (simp_all add: sig_ok_def)
  note f = flipBitPos_range [OF s(1)]
  have g: "0 \<le> flipBitPos (flipBitPos (start_bit s) + sg_size s - 1)"
    "flipBitPos (flipBitPos (start_bit s) + sg_size s - 1) \<le> flipBitPos (start_bit s) + sg_size s - 1 + 7"
    using f s by (intro flipBitPos_range; simp)+
  have "\<exists>t. updateMsbLsb s = Some t"
    using s f g by (simp add: updateMsbLsb_def Let_def int_range_def)
  then obtain t where t: "updateMsbLsb s = Some t" by blast
  have l: "layout t = layout s"
    using t by (auto simp: updateMsbLsb_def Let_def layout_def split: if_splits)
  have "wf_signal t"
    using s l updateMsbLsb_idem [OF t] by (simp add: wf_signal_def layout_def)
  with t l show ?thesis using that by blast
qed

lemma wf_signal_receiver: "wf_signal t \<Longrightarrow> wf_signal (t\<lparr>receiver_name := r\<rparr>)"
  using updateMsbLsb_receiver by (simp add: wf_signal_def)

lemma signal_update_ok:
  assumes "sig_ok s"
  obtains t where "signal_update s = Some t" "wf_signal t" "layout t = layout s" "sg_type t = sg_type s"
    "multiplex_value t = multiplex_value s"
proof -
  obtain t where t: "updateMsbLsb s = Some t" "wf_signal t" "layout t = layout s"
    using updateMsbLsb_ok [OF assms] by blast
  obtain u where u: "signal_update s = Some u"
    "u = t\<lparr>receiver_name := (if receiver_name t = [] then DEFAULT_NODE_NAME else receiver_name t)\<rparr>"
    using t(1) by (simp add: signal_update_def)
  show ?thesis
    using that [OF u(1)] t(2,3) signal_update_props(3,8) [OF u(1)]
    by (simp add: u(2) wf_signal_receiver layout_def)
qed

lemma fits_size_fits: "fits m s \<longleftrightarrow> fits_size (length m) s"
  by (simp add: fits_def fits_size_def)

lemma update_sigs_total:
  assumes "\<forall>s \<in> set ss. sig_ok s"
  shows "\<exists>ss' mux' m'. update_sigs i ss mux m = Some (ss', mux', m') \<and> map layout ss' = map layout ss
    \<and> (\<forall>s \<in> set ss'. wf_signal s)
    \<and> ((\<forall>s \<in> set ss. fits_size (length m) s) \<longrightarrow>
        (\<forall>q. payload_bit m' q \<longleftrightarrow> payload_bit m q \<or> (\<exists>s \<in> set ss. covers s q)))"
  using assms
proof (induction ss arbitrary: i mux m)
  case Nil
  then show ?case by simp
next
  case (Cons s ss)
  have ssok: "\<forall>s \<in> set ss. sig_ok s" using Cons.prems by simp
  obtain t where t: "signal_update s = Some t" "wf_signal t" "layout t = layout s"
    using signal_update_ok [of s] Cons.prems by auto
  have ends: "int (sig_bits t) = sg_size t" "sg_msb t sdiv 8 = int (sig_pos t (sig_bits t - 1) div 8)"
    using wf_signal_ends(3) [OF t(2)] msb_byte [OF t(2)] by blast+
  obtain m1 where m1: "mask_loop t (sg_msb t sdiv 8) (sg_size t) m = Some m1" "length m1 = length m"
    using mask_loop_marks [OF t(2) order_refl, of "sg_msb t sdiv 8" m] ends(2)
    unfolding ends(1) by blast
  obtain ss' mux' m' where r: "update_sigs (Suc i) ss (if sg_type s = Multiplexor then Some i else mux) m1
        = Some (ss', mux', m')" "map layout ss' = map layout ss" "\<forall>s \<in> set ss'. wf_signal s"
      "(\<forall>s \<in> set ss. fits_size (length m1) s) \<Longrightarrow>
         \<forall>q. payload_bit m' q \<longleftrightarrow> payload_bit m1 q \<or> (\<exists>s \<in> set ss. covers s q)"
    using Cons.IH [OF ssok, of "Suc i" "if sg_type s = Multiplexor then Some i else mux" m1] by blast
  have "payload_bit m' q \<longleftrightarrow> payload_bit m q \<or> (\<exists>s \<in> set (s # ss). covers s q)"
    if f: "\<forall>s \<in> set (s # ss). fits_size (length m) s" for q
  proof -
    have "fits m t" using f fits_size_cong [OF t(3)] by (simp add: fits_size_fits)
    then obtain m2 where "mask_loop t (sg_msb t sdiv 8) (sg_size t) m = Some m2"
      "\<And>q. payload_bit m2 q \<longleftrightarrow> payload_bit m q \<or> covers t q"
      using mask_loop_fits [OF t(2)] unfolding covers_def by blast
    then show ?thesis using r(4) f m1 covers_cong [OF t(3)] by auto
  qed
  then show ?case using t m1 r by (simp add: Let_def)
qed

lemma layout_link_sig [simp]: "layout (link_sig mux s) = layout s"
  by (simp add: link_sig_def layout_def Let_def)

lemma link_sig_update: "updateMsbLsb s = Some s \<Longrightarrow> updateMsbLsb (link_sig mux s) = Some (link_sig mux s)"
  by (cases "is_little_endian s") (simp_all add: updateMsbLsb_fix link_sig_def Let_def)

lemma wf_signal_link_sig: "wf_signal s \<Longrightarrow> wf_signal (link_sig mux s)"
proof -
  have "start_bit (link_sig mux s) = start_bit s" "sg_size (link_sig mux s) = sg_size s"
    by (simp_all add: link_sig_def Let_def)
  then show "wf_signal s \<Longrightarrow> wf_signal (link_sig mux s)"
    unfolding wf_signal_def using link_sig_update [of s mux] by simp
qed

lemma layout_covers:
  "map layout xs = map layout ys \<Longrightarrow> (\<exists>s \<in> set xs. covers s q) \<longleftrightarrow> (\<exists>s \<in> set ys. covers s q)"
proof (induction xs arbitrary: ys)
  case Nil
  then show ?case by simp
next
  case (Cons x xs)
  then obtain y zs where y: "ys = y # zs" "layout x = layout y" "map layout xs = map layout zs" by auto
  show ?case using Cons.IH [OF y(3)] covers_cong [OF y(2)] y(1) by simp
qed

lemma msg_update_ok:
  assumes "\<forall>s \<in> set (sigs m). sig_ok s"
  obtains m' where "msg_update m = Some m'" "mset (map layout (sigs m')) = mset (map layout (sigs m))"
    "\<forall>s \<in> set (sigs m'). wf_signal s" "m_address m' = m_address m" "m_name m' = m_name m" "m_size m' = m_size m"
    "(\<forall>s \<in> set (sigs m). fits_size (unat (m_size m)) s) \<Longrightarrow>
       \<forall>q. payload_bit (m_mask m') q \<longleftrightarrow> (\<exists>s \<in> set (sigs m'). covers s q)"
proof -
  have so: "\<forall>s \<in> set (sort_sigs (sigs m)). sig_ok s" using assms by (simp add: sort_sigs_def)
  obtain ss mux mk where u: "update_sigs 0 (sort_sigs (sigs m)) None (replicate (unat (m_size m)) 0)
        = Some (ss, mux, mk)" "map layout ss = map layout (sort_sigs (sigs m))" "\<forall>s \<in> set ss. wf_signal s"
      "(\<forall>s \<in> set (sort_sigs (sigs m)). fits_size (unat (m_size m)) s) \<Longrightarrow>
        \<forall>q. payload_bit mk q \<longleftrightarrow> payload_bit (replicate (unat (m_size m)) 0) q
              \<or> (\<exists>s \<in> set (sort_sigs (sigs m)). covers s q)"
    using update_sigs_total [OF so, of 0 None "replicate (unat (m_size m)) 0"]
    unfolding length_replicate by blast
  have z: "\<not> payload_bit (replicate (unat (m_size m)) 0) q" for q
    by (simp add: payload_bit_def)
  have cov: "(\<exists>s \<in> set (map (link_sig mux) ss). covers s q) \<longleftrightarrow> (\<exists>s \<in> set (sort_sigs (sigs m)). covers s q)" for q
    using layout_covers [OF u(2), of q] covers_cong [OF layout_link_sig, of mux] by simp
  have "mset (map layout ss) = mset (map layout (sort_sigs (sigs m)))" unfolding u(2) by (rule refl)
  also have "\<dots> = mset (map layout (sigs m))"
    by (simp only: mset_map) (simp only: sort_sigs_def mset_sort)
  finally have ml: "mset (map layout ss) = mset (map layout (sigs m))" .
  show ?thesis
    by (rule that [of "m\<lparr>transmitter := (if transmitter m = [] then DEFAULT_NODE_NAME else transmitter m),
                  sigs := map (link_sig mux) ss, m_mask := mk, m_multiplexor := mux\<rparr>"])
      (use u ml z cov in \<open>auto simp: msg_update_def wf_signal_link_sig comp_def sort_sigs_def\<close>)
qed

section \<open>What every update keeps\<close>

definition mux_count :: "msg \<Rightarrow> nat" where
  "mux_count m = length (filter (\<lambda>s. sg_type s = Multiplexor) (sigs m))"

lemma msg_update_cases:
  assumes "msg_update m = Some m'"
  obtains ss mux mk where
    "update_sigs 0 (sort_sigs (sigs m)) None (replicate (unat (m_size m)) 0) = Some (ss, mux, mk)"
    "m' = m\<lparr>transmitter := (if transmitter m = [] then DEFAULT_NODE_NAME else transmitter m),
                  sigs := map (link_sig mux) ss, m_mask := mk, m_multiplexor := mux\<rparr>"
  using assms by (auto simp: msg_update_def bind_eq_Some_conv)

lemma filter_map_types:
  "list_all2 (\<lambda>s s'. sg_type s' = sg_type s) ss ts \<Longrightarrow>
   length (filter (\<lambda>s. sg_type s = T) ts) = length (filter (\<lambda>s. sg_type s = T) ss)"
  by (induction rule: list_all2_induct) auto

lemma msg_update_keeps:
  assumes "msg_update m = Some m'"
  shows "mset (map sg_name (sigs m')) = mset (map sg_name (sigs m))" "mux_count m' = mux_count m"
    "m_address m' = m_address m" "m_name m' = m_name m" "m_size m' = m_size m" "m_comment m' = m_comment m"
proof -
  obtain ss mux mk where u: "update_sigs 0 (sort_sigs (sigs m)) None (replicate (unat (m_size m)) 0) = Some (ss, mux, mk)"
    and m': "m' = m\<lparr>transmitter := (if transmitter m = [] then DEFAULT_NODE_NAME else transmitter m),
                  sigs := map (link_sig mux) ss, m_mask := mk, m_multiplexor := mux\<rparr>"
    using msg_update_cases [OF assms] .
  have r: "list_all2 (\<lambda>s s'. signal_update s = Some s') (sort_sigs (sigs m)) ss"
    using update_sigs_props [OF u] by blast
  have n: "map sg_name ss = map sg_name (sort_sigs (sigs m))"
    using r signal_update_props(4) by (induction rule: list_all2_induct) auto
  have "sg_name (link_sig mux s) = sg_name s" for s by (simp add: link_sig_def Let_def)
  then have "mset (map sg_name (sigs m')) = mset (map sg_name (sort_sigs (sigs m)))"
    unfolding m' using n [symmetric] by (simp add: comp_def)
  also have "\<dots> = mset (map sg_name (sigs m))" by (simp only: mset_map) (simp only: sort_sigs_def mset_sort)
  finally show "mset (map sg_name (sigs m')) = mset (map sg_name (sigs m))" .
  have "list_all2 (\<lambda>s s'. sg_type s' = sg_type s) (sort_sigs (sigs m)) ss"
    by (rule list_all2_mono [OF r]) (use signal_update_props(3) in blast)
  from filter_map_types [OF this, of Multiplexor]
  have "length (filter (\<lambda>s. sg_type s = Multiplexor) ss) = length (filter (\<lambda>s. sg_type s = Multiplexor) (sort_sigs (sigs m)))" .
  also have "\<dots> = mux_count m"
    unfolding mux_count_def sort_sigs_def by (simp only: filter_sort length_sort)
  finally show "mux_count m' = mux_count m"
    by (simp add: mux_count_def m' filter_map comp_def link_sig_multiplexor)
  show "m_address m' = m_address m" "m_name m' = m_name m" "m_size m' = m_size m" "m_comment m' = m_comment m"
    by (simp_all add: m')
qed

text \<open>
  The content of a signal is all of its fields but the positions \<open>msb\<close> and \<open>lsb\<close>, which the others determine, and the link to the
  multiplexor. An update settles it: an empty receiver gets the default name, and without a multiplexor in the message a
  multiplexed signal becomes a normal one; only multiplexed signals have a multiplex value.
\<close>

definition sig_content :: "signal \<Rightarrow> signal" where
  "sig_content s = s\<lparr>sg_msb := 0, sg_lsb := 0, multiplexor := None\<rparr>"

definition settled :: "bool \<Rightarrow> signal \<Rightarrow> signal" where
  "settled has_mux s =
     (sig_content s)\<lparr>receiver_name := (if receiver_name s = [] then DEFAULT_NODE_NAME else receiver_name s),
        sg_type := (if sg_type s = Multiplexed \<and> \<not> has_mux then Normal else sg_type s),
        multiplex_value := (if sg_type s = Multiplexed \<and> has_mux then multiplex_value s else 0)\<rparr>"

definition has_multiplexor :: "msg \<Rightarrow> bool" where
  "has_multiplexor m \<longleftrightarrow> (\<exists>s \<in> set (sigs m). sg_type s = Multiplexor)"

lemma sig_content_updated:
  assumes "signal_update s = Some t"
  shows "sig_content (link_sig mux t) = settled (mux \<noteq> None) s"
proof -
  obtain u where u: "updateMsbLsb s = Some u"
      "t = u\<lparr>receiver_name := (if receiver_name u = [] then DEFAULT_NODE_NAME else receiver_name u)\<rparr>"
    using assms by (auto simp: signal_update_def bind_eq_Some_conv)
  obtain a b where "u = s\<lparr>sg_msb := a, sg_lsb := b\<rparr>"
    using u(1) by (cases s) (auto simp: updateMsbLsb_def Let_def split: if_splits)
  then show ?thesis
    unfolding u(2) by (cases s; cases mux; cases "sg_type s") (auto simp: link_sig_def sig_content_def settled_def Let_def)
qed

lemma msg_update_settled:
  assumes "msg_update m = Some m'"
  shows "mset (map sig_content (sigs m')) = mset (map (settled (has_multiplexor m)) (sigs m))"
    "transmitter m' = (if transmitter m = [] then DEFAULT_NODE_NAME else transmitter m)"
proof -
  obtain ss mux mk where u: "update_sigs 0 (sort_sigs (sigs m)) None (replicate (unat (m_size m)) 0) = Some (ss, mux, mk)"
    and m': "m' = m\<lparr>transmitter := (if transmitter m = [] then DEFAULT_NODE_NAME else transmitter m),
                  sigs := map (link_sig mux) ss, m_mask := mk, m_multiplexor := mux\<rparr>"
    using msg_update_cases [OF assms] .
  note p = update_sigs_props [OF u]
  have "mux \<noteq> None \<longleftrightarrow> (\<exists>s \<in> set (sort_sigs (sigs m)). sg_type s = Multiplexor)"
    using p by (metis nth_mem)
  then have mux: "(mux \<noteq> None) = has_multiplexor m" by (simp add: has_multiplexor_def sort_sigs_def)
  have "list_all2 (\<lambda>s s'. signal_update s = Some s') (sort_sigs (sigs m)) ss" using p by blast
  then have c: "map (\<lambda>s. sig_content (link_sig mux s)) ss = map (settled (mux \<noteq> None)) (sort_sigs (sigs m))"
    by (induction rule: list_all2_induct) (simp_all add: sig_content_updated)
  have "map sig_content (sigs m') = map (settled (has_multiplexor m)) (sort_sigs (sigs m))"
    using c [unfolded mux] by (simp add: m' comp_def)
  then have "mset (map sig_content (sigs m')) = mset (map (settled (has_multiplexor m)) (sort_sigs (sigs m)))"
    by (simp only:)
  also have "\<dots> = mset (map (settled (has_multiplexor m)) (sigs m))" by (simp only: mset_map) (simp only: sort_sigs_def mset_sort)
  finally show "mset (map sig_content (sigs m')) = mset (map (settled (has_multiplexor m)) (sigs m))" .
  show "transmitter m' = (if transmitter m = [] then DEFAULT_NODE_NAME else transmitter m)" by (simp add: m')
qed

lemma linked_settled: "linked mux s \<Longrightarrow> mux \<noteq> None \<longrightarrow> h \<Longrightarrow> settled h s = sig_content s"
  by (cases s) (auto simp: linked_def settled_def sig_content_def)

text \<open>A message that was updated is settled.\<close>

lemma msg_inv_settled:
  assumes "msg_inv m"
  shows "map (settled (has_multiplexor m)) (sigs m) = map sig_content (sigs m)"
proof (rule map_cong [OF refl])
  fix s assume "s \<in> set (sigs m)"
  then have "linked (m_multiplexor m) s" using assms by (simp add: msg_inv_def)
  moreover have "m_multiplexor m \<noteq> None \<longrightarrow> has_multiplexor m"
    using assms by (fastforce simp: msg_inv_def has_multiplexor_def)
  ultimately show "settled (has_multiplexor m) s = sig_content s" by (rule linked_settled)
qed

section \<open>Editing the signals\<close>

lemma msg_sig_None: "msg_sig m n = None \<longleftrightarrow> n \<notin> sg_name ` set (sigs m)"
  by (auto simp: msg_sig_def find_index_None)

lemma msg_sig_Some:
  "msg_sig m n = Some i \<Longrightarrow> i < length (sigs m) \<and> sg_name (sigs m ! i) = n"
  by (simp add: msg_sig_def find_index_Some)

lemma addSignal_names:
  "addSignal m s = Some m' \<Longrightarrow> msg_inv m' \<and> mset (map sg_name (sigs m')) = add_mset (sg_name s) (mset (map sg_name (sigs m)))"
  unfolding addSignal_def using msg_update_inv msg_update_keeps(1) by fastforce

lemma removeSignal_names:
  assumes "removeSignal m n = Some m'" "msg_inv m"
  shows "msg_inv m' \<and> mset (map sg_name (sigs m')) = mset (map sg_name (sigs m)) - {#n#}"
proof (cases "msg_sig m n")
  case None
  then have "n \<notin># mset (map sg_name (sigs m))" by (simp add: msg_sig_None)
  then show ?thesis using assms None by (simp add: removeSignal_def diff_single_trivial)
next
  case (Some i)
  note i = msg_sig_Some [OF Some]
  have u: "msg_update (m\<lparr>sigs := take i (sigs m) @ drop (Suc i) (sigs m)\<rparr>) = Some m'"
    using assms(1) Some by (simp add: removeSignal_def)
  have "sigs m = take i (sigs m) @ sigs m ! i # drop (Suc i) (sigs m)"
    using i by (simp add: id_take_nth_drop [symmetric])
  then have "mset (map sg_name (sigs m)) = add_mset n (mset (map sg_name (take i (sigs m) @ drop (Suc i) (sigs m))))"
    using i by (metis (no_types, lifting) list.simps(9) map_append mset.simps(2) mset_append union_mset_add_mset_right)
  then show ?thesis using msg_update_keeps(1) [OF u] msg_update_inv [OF u] by simp
qed

lemma updateSignal_names:
  assumes "updateSignal m n s = Some m'" "msg_inv m"
  shows "msg_inv m' \<and> mset (map sg_name (sigs m')) =
    (if n \<in> sg_name ` set (sigs m) then add_mset (sg_name s) (mset (map sg_name (sigs m)) - {#n#})
     else mset (map sg_name (sigs m)))"
proof (cases "msg_sig m n")
  case None
  then have "n \<notin> sg_name ` set (sigs m)" "m' = m"
    using assms(1) by (simp_all add: updateSignal_def flip: msg_sig_None)
  then show ?thesis using assms(2) by simp
next
  case (Some i)
  note i = msg_sig_Some [OF Some]
  have u: "msg_update (m\<lparr>sigs := (sigs m)[i := s]\<rparr>) = Some m'"
    using assms(1) Some by (simp add: updateSignal_def)
  have "n \<in> sg_name ` set (sigs m)" using Some msg_sig_None [of m n] by auto
  moreover have "mset (map sg_name ((sigs m)[i := s])) = add_mset (sg_name s) (mset (map sg_name (sigs m)) - {#n#})"
    using i by (simp add: map_update mset_update)
  ultimately show ?thesis using msg_update_keeps(1) [OF u] msg_update_inv [OF u] by simp
qed

section \<open>Fresh names\<close>

lemma new_name_loop_fresh:
  assumes "card (sg_name ` set (sigs m) \<inter> {n. \<exists>j \<ge> i. n = ''NEW_SIGNAL_'' @ nat_str j}) < fuel"
  shows "\<exists>k \<ge> i. new_name_loop fuel m i = Some (''NEW_SIGNAL_'' @ nat_str k) \<and> msg_sig m (''NEW_SIGNAL_'' @ nat_str k) = None
    \<and> (\<forall>j. i \<le> j \<and> j < k \<longrightarrow> msg_sig m (''NEW_SIGNAL_'' @ nat_str j) \<noteq> None)"
  using assms
proof (induction fuel arbitrary: i)
  case 0
  then show ?case by simp
next
  case (Suc fuel)
  let ?n = "\<lambda>j. ''NEW_SIGNAL_'' @ nat_str j"
  let ?S = "\<lambda>i. sg_name ` set (sigs m) \<inter> {n. \<exists>j \<ge> i. n = ?n j}"
  show ?case
  proof (cases "msg_sig m (?n i) = None")
    case True
    then show ?thesis by (intro exI [of _ i]) (auto simp: Let_def)
  next
    case False
    then have i: "?n i \<in> ?S i" using msg_sig_None [of m "?n i"] by auto
    have "?n i \<notin> ?S (Suc i)" by (auto simp: nat_str_inj)
    moreover have "?S (Suc i) \<subseteq> ?S i" by (auto dest: Suc_leD)
    ultimately have "?S (Suc i) \<subset> ?S i" using i by blast
    then have "card (?S (Suc i)) < card (?S i)" by (intro psubset_card_mono) auto
    then have "card (?S (Suc i)) < fuel" using Suc.prems by simp
    from Suc.IH [OF this] obtain k where k: "Suc i \<le> k" "new_name_loop fuel m (Suc i) = Some (?n k)"
        "msg_sig m (?n k) = None" "\<forall>j. Suc i \<le> j \<and> j < k \<longrightarrow> msg_sig m (?n j) \<noteq> None" by blast
    have "\<forall>j. i \<le> j \<and> j < k \<longrightarrow> msg_sig m (?n j) \<noteq> None"
      using k(4) False by (metis Suc_leI le_neq_implies_less)
    then show ?thesis using k False by (intro exI [of _ k]) (auto simp: Let_def)
  qed
qed

lemma newSignalName_least:
  "\<exists>k \<ge> 1. newSignalName m = Some (''NEW_SIGNAL_'' @ nat_str k) \<and> msg_sig m (''NEW_SIGNAL_'' @ nat_str k) = None
    \<and> (\<forall>j. 1 \<le> j \<and> j < k \<longrightarrow> msg_sig m (''NEW_SIGNAL_'' @ nat_str j) \<noteq> None)"
proof -
  have "card (sg_name ` set (sigs m) \<inter> {n. \<exists>j \<ge> 1. n = ''NEW_SIGNAL_'' @ nat_str j}) \<le> card (sg_name ` set (sigs m))"
    by (intro card_mono) auto
  also have "\<dots> \<le> length (sigs m)" by (meson List.finite_set card_image_le card_length le_trans)
  finally show ?thesis unfolding newSignalName_def by (intro new_name_loop_fresh) simp
qed

section \<open>Multiplexed reads\<close>

lemma getValue_plain:
  "multiplexor s = None \<Longrightarrow> getValue m data s = map_option Some (get_raw_value data s)"
  by (cases "get_raw_value data s") (simp_all add: getValue_def mux_selects_def)

lemma getValue_mux:
  assumes "multiplexor s = Some j" "get_raw_value data (sigs m ! j) = Some v"
  shows "getValue m data s =
    (if f_eq v (f_of_int (multiplex_value s)) then map_option Some (get_raw_value data s) else Some None)"
  using assms by (cases "get_raw_value data s") (simp_all add: getValue_def mux_selects_def)

lemma getRawBits_mux:
  assumes "multiplexor s = Some j" "get_raw_value data (sigs m ! j) = Some v"
  shows "getRawBits m data s =
    (if f_eq v (f_of_int (multiplex_value s)) then map_option Some (get_raw_bits data s) else Some None)"
  using assms by (cases "get_raw_bits data s") (simp_all add: getRawBits_def mux_selects_def)

lemma getRawBits_plain:
  "multiplexor s = None \<Longrightarrow> getRawBits m data s = map_option Some (get_raw_bits data s)"
  by (cases "get_raw_bits data s") (simp_all add: getRawBits_def mux_selects_def)

end
