(* ===== verification/LineRegex.thy ===== *)
theory LineRegex
  imports CStrings
begin

text \<open>
  The fragment of ECMAScript regular expressions that \<open>bridge/dbc/dbcfile.cc\<close> uses with
  \<open>std::regex_match\<close>: a sequence of items, each a character class with a repetition, each
  possibly a capture group. Matching is greedy with backtracking and must consume the
  whole string; the result is the list of captured texts.
\<close>

section \<open>Items and matching\<close>

datatype re_item = RE (re_cls: "char \<Rightarrow> bool") (re_lo: nat) (re_hi: "nat option") (re_cap: bool)

fun first_some :: "('a \<Rightarrow> 'b option) \<Rightarrow> 'a list \<Rightarrow> 'b option" where
  "first_some f [] = None"
| "first_some f (x # xs) = (case f x of None \<Rightarrow> first_some f xs | Some y \<Rightarrow> Some y)"

definition re_max :: "(char \<Rightarrow> bool) \<Rightarrow> nat option \<Rightarrow> string \<Rightarrow> nat" where
  "re_max c hi s =
     (let n = length (takeWhile c s) in case hi of None \<Rightarrow> n | Some h \<Rightarrow> min h n)"

fun re_run :: "re_item list \<Rightarrow> string \<Rightarrow> string list option" where
  "re_run [] s = (if s = [] then Some [] else None)"
| "re_run (RE c lo hi cap # its) s =
     first_some (\<lambda>k. map_option (\<lambda>gs. if cap then take k s # gs else gs) (re_run its (drop k s)))
       (rev [lo..<Suc (re_max c hi s)])"

declare re_run.simps(2) [simp del]

text \<open>Literal text, \<open>(\w+)\<close>, \<open>(\d+)\<close>, \<open>\s*\<close>, \<open>\<close> blank-star, the sign class, the number class
  and \<open>(.*)\<close>.\<close>

definition lit :: "string \<Rightarrow> re_item list" where
  "lit p = map (\<lambda>c. RE (\<lambda>d. d = c) 1 (Some 1) False) p"

definition isword :: "char \<Rightarrow> bool" where
  "isword c \<longleftrightarrow> isdigit c \<or> (65 \<le> (of_char c :: nat) \<and> (of_char c :: nat) \<le> 90)
     \<or> (97 \<le> (of_char c :: nat) \<and> (of_char c :: nat) \<le> 122) \<or> c = CHR ''_''"

definition isnum :: "char \<Rightarrow> bool" where
  "isnum c \<longleftrightarrow> isdigit c \<or> c \<in> {CHR ''.'', CHR ''+'', CHR ''-'', CHR ''e'', CHR ''E''}"

definition issign :: "char \<Rightarrow> bool" where
  "issign c \<longleftrightarrow> c \<in> {CHR ''+'', CHR ''|'', CHR ''-''}"

definition isany :: "char \<Rightarrow> bool" where
  "isany c \<longleftrightarrow> c \<noteq> CHR 0x0A \<and> c \<noteq> CHR 0x0D"

definition word_grp :: re_item where "word_grp = RE isword 1 None True"
definition dig_grp :: re_item where "dig_grp = RE isdigit 1 None True"
definition num_grp :: re_item where "num_grp = RE isnum 1 None True"
definition any_grp :: re_item where "any_grp = RE isany 0 None True"
definition sign_grp :: re_item where "sign_grp = RE issign 1 (Some 1) True"
definition spaces :: re_item where "spaces = RE isspace 0 None False"
definition blank_star :: re_item where "blank_star = RE (\<lambda>c. c = CHR '' '') 0 None False"

definition bo_regexp :: "re_item list" where
  "bo_regexp = lit ''BO_ '' @ word_grp # lit '' '' @ word_grp # spaces # lit '':'' @ spaces # word_grp
     # lit '' '' @ [word_grp]"

text \<open>The common tail of the two signal expressions, and the expressions.\<close>

definition sg_tail :: "re_item list" where
  "sg_tail = blank_star # lit '': '' @ dig_grp # lit ''|'' @ dig_grp # lit ''@'' @ dig_grp # sign_grp
     # lit '' ('' @ num_grp # lit '','' @ num_grp # lit '') ['' @ num_grp # lit ''|'' @ num_grp
     # lit ''] \"'' @ any_grp # lit ''\" '' @ [any_grp]"

definition sg_regexp :: "re_item list" where
  "sg_regexp = lit ''SG_ '' @ word_grp # sg_tail"

definition sgm_regexp :: "re_item list" where
  "sgm_regexp = lit ''SG_ '' @ word_grp # lit '' '' @ word_grp # sg_tail"

section \<open>Deterministic steps\<close>

lemma first_some_rev:
  assumes "f k = Some y" "lo \<le> k" "k \<le> n" "\<And>j. k < j \<Longrightarrow> j \<le> n \<Longrightarrow> f j = None"
  shows "first_some f (rev [lo..<Suc n]) = Some y"
  using assms(3,4)
proof (induction n)
  case 0
  then show ?case using assms(1,2) by simp
next
  case (Suc n)
  show ?case
  proof (cases "k = Suc n")
    case True
    then show ?thesis using assms(1,2) by simp
  next
    case False
    then have "k \<le> n" using Suc.prems by simp
    moreover have "f (Suc n) = None" using Suc.prems False by simp
    ultimately show ?thesis using Suc assms(2) by simp
  qed
qed

lemma first_some_None: "first_some f xs = None \<longleftrightarrow> (\<forall>x \<in> set xs. f x = None)"
  by (induction xs) (auto split: option.splits)

lemma takeWhile_stop: "\<forall>c \<in> set w. P c \<Longrightarrow> r = [] \<or> \<not> P (hd r) \<Longrightarrow> takeWhile P (w @ r) = w"
  by (induction w) (cases r; simp)+

lemma re_star:
  assumes "\<forall>c \<in> set w. P c" "r = [] \<or> \<not> P (hd r)" "lo \<le> length w" "re_run its r = Some gs"
  shows "re_run (RE P lo None cap # its) (w @ r) = Some (if cap then w # gs else gs)"
proof -
  have "re_max P None (w @ r) = length w" unfolding re_max_def takeWhile_stop [OF assms(1,2)] by simp
  then show ?thesis
    unfolding re_run.simps by (intro first_some_rev [of _ "length w"]) (use assms in simp_all)
qed

lemma re_one:
  assumes "P c" "re_run its r = Some gs"
  shows "re_run (RE P 1 (Some 1) cap # its) (c # r) = Some (if cap then [c] # gs else gs)"
  unfolding re_run.simps
  by (rule first_some_rev [of _ 1]) (use assms in \<open>simp_all add: re_max_def\<close>)

lemma re_lit_eq: "re_run (lit p @ its) (p @ r) = re_run its r"
proof (induction p)
  case (Cons c p)
  have "re_max (\<lambda>d. d = c) (Some 1) (c # p @ r) = 1" by (simp add: re_max_def)
  then have "re_run (RE (\<lambda>d. d = c) 1 (Some 1) False # lit p @ its) (c # p @ r) = re_run (lit p @ its) (p @ r)"
    by (simp add: re_run.simps(2) option.map_ident split: option.split)
  with Cons show ?case by (simp add: lit_def)
qed (simp add: lit_def)

lemma re_lit: "re_run its r = Some gs \<Longrightarrow> re_run (lit p @ its) (p @ r) = Some gs"
  by (simp only: re_lit_eq)

lemma re_lit_fail: "s = [] \<or> hd s \<noteq> c \<Longrightarrow> re_run (lit (c # p) @ its) s = None"
  by (cases s) (auto simp: lit_def re_run.simps re_max_def first_some_None)

lemma re_any:
  assumes "\<forall>c \<in> set (u @ p # v). isany c" "p \<notin> set v" "re_run its (p # v) = Some gs"
    and "\<And>s. s = [] \<or> hd s \<noteq> p \<Longrightarrow> re_run its s = None"
  shows "re_run (any_grp # its) (u @ p # v) = Some (u # gs)"
proof -
  have tw: "takeWhile isany (u @ p # v) = u @ p # v"
    using assms(1) by (simp only: takeWhile_eq_all_conv)
  then have mx: "length u \<le> re_max isany None (u @ p # v)" by (simp add: re_max_def)
  have later: "re_run its (drop j (u @ p # v)) = None" if j: "length u < j" for j
  proof -
    obtain i where i: "j = length u + Suc i" using j less_imp_Suc_add by auto
    have "drop j (u @ p # v) = drop i v" by (simp add: i)
    moreover have "drop i v = [] \<or> hd (drop i v) \<noteq> p"
      using assms(2) by (metis hd_in_set in_set_dropD)
    ultimately show ?thesis using assms(4) by simp
  qed
  show ?thesis
    unfolding any_grp_def re_run.simps
    by (rule first_some_rev [of _ "length u"]) (use assms(3) mx later in simp_all)
qed

text \<open>The groups.\<close>

definition is_ident :: "string \<Rightarrow> bool" where
  "is_ident n \<longleftrightarrow> n \<noteq> [] \<and> (\<forall>c \<in> set n. isword c)"

definition is_numtext :: "string \<Rightarrow> bool" where
  "is_numtext n \<longleftrightarrow> n \<noteq> [] \<and> (\<forall>c \<in> set n. isnum c)"

lemma nat_str_isdigit: "\<forall>c \<in> set (nat_str n). isdigit c"
proof
  fix c assume "c \<in> set (nat_str n)"
  then have "digit_val c < 10" using nat_str_digits(2) [of n] by blast
  then show "isdigit c" by (auto simp: digit_val_def isdigit_def Let_def split: if_splits)
qed

lemma isword_not_space: "isword c \<Longrightarrow> \<not> isspace c"
  by (auto simp: isword_def isdigit_def isspace_def)

lemma isword_digit: "isdigit c \<Longrightarrow> isword c"
  by (simp add: isword_def)

lemma is_ident_nat_str: "is_ident (nat_str n)"
  using nat_str_isdigit [of n] nat_str_digits(1) [of n] by (simp add: is_ident_def isword_digit)

lemma re_nat_str:
  assumes "r = [] \<or> \<not> isdigit (hd r)" "re_run its r = Some gs"
  shows "re_run (dig_grp # its) (nat_str n @ r) = Some (nat_str n # gs)"
  unfolding dig_grp_def using re_star [OF nat_str_isdigit assms(1) _ assms(2), of 1 n True] nat_str_digits(1) [of n]
  by (simp add: Suc_le_eq)

lemma re_num:
  assumes "is_numtext w" "r = [] \<or> \<not> isnum (hd r)" "re_run its r = Some gs"
  shows "re_run (num_grp # its) (w @ r) = Some (w # gs)"
  unfolding num_grp_def using re_star [of w isnum r 1 its gs True] assms by (simp add: is_numtext_def Suc_le_eq)

lemma re_word:
  assumes "is_ident w" "r = [] \<or> \<not> isword (hd r)" "re_run its r = Some gs"
  shows "re_run (word_grp # its) (w @ r) = Some (w # gs)"
  unfolding word_grp_def using re_star [of w isword r 1 its gs True] assms by (simp add: is_ident_def Suc_le_eq)

lemma re_word_end: "is_ident w \<Longrightarrow> re_run [word_grp] w = Some [w]"
  using re_word [of w "[]" "[]" "[]"] by simp

lemma re_sign:
  "issign c \<Longrightarrow> re_run its r = Some gs \<Longrightarrow> re_run (sign_grp # its) (c # r) = Some ([c] # gs)"
  unfolding sign_grp_def using re_one [of issign c its r gs True] by simp

lemma re_blank:
  "r \<noteq> [] \<Longrightarrow> hd r \<noteq> CHR '' '' \<Longrightarrow> re_run its r = Some gs \<Longrightarrow> re_run (blank_star # its) ('' '' @ r) = Some gs"
  unfolding blank_star_def using re_star [of "'' ''" "\<lambda>c. c = CHR '' ''" r 0 its gs False] by simp

lemma re_spaces:
  "\<forall>c \<in> set w. isspace c \<Longrightarrow> r = [] \<or> \<not> isspace (hd r) \<Longrightarrow> re_run its r = Some gs \<Longrightarrow>
   re_run (spaces # its) (w @ r) = Some gs"
  unfolding spaces_def using re_star [of w isspace r 0 its gs False] by simp

lemma re_spaces_none:
  "r = [] \<or> \<not> isspace (hd r) \<Longrightarrow> re_run its r = Some gs \<Longrightarrow> re_run (spaces # its) r = Some gs"
  using re_spaces [of "[]" r its gs] by simp

lemma re_spaces_one:
  "r = [] \<or> \<not> isspace (hd r) \<Longrightarrow> re_run its r = Some gs \<Longrightarrow> re_run (spaces # its) ('' '' @ r) = Some gs"
  using re_spaces [of "'' ''" r its gs] by (simp add: isspace_def)

lemma re_any_end: "\<forall>c \<in> set w. isany c \<Longrightarrow> re_run [any_grp] w = Some [w]"
  unfolding any_grp_def using re_star [of w isany "[]" 0 "[]" "[]" True] by simp

lemma re_unit:
  assumes "\<forall>c \<in> set u. isany c" "\<forall>c \<in> set v. isany c \<and> c \<noteq> CHR ''\"''"
  shows "re_run (any_grp # lit ''\" '' @ [any_grp]) (u @ ''\" '' @ v) = Some [u, v]"
proof -
  have "re_run (any_grp # lit ''\" '' @ [any_grp]) (u @ CHR ''\"'' # (CHR '' '' # v)) = Some (u # [v])"
  proof (rule re_any)
    show "re_run (lit ''\" '' @ [any_grp]) (CHR ''\"'' # CHR '' '' # v) = Some [v]"
      using re_lit [OF re_any_end [of v], of "''\" ''"] assms(2) by simp
    show "re_run (lit ''\" '' @ [any_grp]) s = None" if "s = [] \<or> hd s \<noteq> CHR ''\"''" for s
      using re_lit_fail [OF that] by simp
  qed (use assms in \<open>auto simp: isany_def\<close>)
  then show ?thesis by simp
qed

text \<open>A word group fails when what follows the word neither is nor starts like the next text.\<close>

lemma re_word_fail:
  assumes "is_ident w" "r \<noteq> []" "\<not> isword (hd r)" "re_run its r = None"
    and "\<And>s. s \<noteq> [] \<Longrightarrow> isword (hd s) \<Longrightarrow> re_run its s = None"
  shows "re_run (word_grp # its) (w @ r) = None"
proof -
  have "re_max isword None (w @ r) = length w"
    using takeWhile_stop [of w isword r] assms(1,3) by (simp add: re_max_def is_ident_def)
  moreover have "re_run its (drop k (w @ r)) = None" if "k \<le> length w" for k
  proof (cases "k = length w")
    case True
    then show ?thesis using assms(4) by simp
  next
    case False
    then have k: "k < length w" using that by simp
    then have "hd (drop k (w @ r)) = w ! k" "drop k (w @ r) \<noteq> []"
      by (simp_all add: hd_append hd_drop_conv_nth)
    then show ?thesis using assms(1,5) k by (simp add: is_ident_def)
  qed
  ultimately show ?thesis
    unfolding word_grp_def re_run.simps first_some_None using assms(4) by (auto simp: less_Suc_eq_le)
qed

text \<open>Blanks that no text of the given first character follows.\<close>

lemma re_blank_fail:
  assumes "dropWhile (\<lambda>c. c = CHR '' '') s = [] \<or> hd (dropWhile (\<lambda>c. c = CHR '' '') s) \<noteq> d" "d \<noteq> CHR '' ''"
  shows "re_run (blank_star # lit (d # p) @ its) s = None"
proof -
  let ?P = "\<lambda>c. c = CHR '' ''"
  have "re_run (lit (d # p) @ its) (drop k s) = None" if k: "k \<le> length (takeWhile ?P s)" for k
  proof (rule re_lit_fail)
    have e: "drop k s = drop k (takeWhile ?P s) @ dropWhile ?P s"
      using k by (metis drop_append diff_is_0_eq drop_0 takeWhile_dropWhile_id)
    show "drop k s = [] \<or> hd (drop k s) \<noteq> d"
    proof (cases "k = length (takeWhile ?P s)")
      case True
      then show ?thesis using assms(1) e by simp
    next
      case False
      then have "drop k (takeWhile ?P s) \<noteq> []" using k by simp
      then have "hd (drop k s) \<in> set (drop k (takeWhile ?P s))" unfolding e by simp
      then have "hd (drop k s) \<in> set (takeWhile ?P s)" by (rule in_set_dropD)
      then have "hd (drop k s) = CHR '' ''" by (rule set_takeWhileD [THEN conjunct2])
      then show ?thesis using assms(2) by simp
    qed
  qed
  then show ?thesis
    unfolding blank_star_def re_run.simps first_some_None by (auto simp: re_max_def less_Suc_eq_le)
qed

text \<open>Every captured text is over its group's class and long enough.\<close>

lemma first_some_Some: "first_some f xs = Some y \<Longrightarrow> \<exists>x \<in> set xs. f x = Some y"
  by (induction xs) (auto split: option.splits)

lemma re_max_class: "k \<le> re_max c hi s \<Longrightarrow> \<forall>x \<in> set (take k s). c x"
proof -
  assume "k \<le> re_max c hi s"
  then have "k \<le> length (takeWhile c s)" by (auto simp: re_max_def Let_def split: option.splits)
  then have "take k s = take k (takeWhile c s)" by (metis takeWhile_eq_take take_take min.absorb1)
  then show ?thesis by (metis in_set_takeD set_takeWhileD)
qed

lemma re_max_length: "re_max c hi s \<le> length s"
  using length_takeWhile_le [of c s] by (auto simp: re_max_def Let_def split: option.splits)

lemma re_groups:
  "re_run its s = Some gs \<Longrightarrow>
   list_all2 (\<lambda>it g. re_lo it \<le> length g \<and> (\<forall>c \<in> set g. re_cls it c)) (filter re_cap its) gs"
proof (induction its arbitrary: s gs)
  case Nil
  then show ?case by (simp split: if_splits)
next
  case (Cons it its)
  obtain c lo hi cap where it: "it = RE c lo hi cap" by (cases it)
  obtain k g where k: "lo \<le> k" "k \<le> re_max c hi s" "re_run its (drop k s) = Some g"
    and gs: "gs = (if cap then take k s # g else g)"
    using first_some_Some [OF Cons.prems [unfolded it re_run.simps]] by (auto simp: less_Suc_eq_le)
  have "lo \<le> length (take k s)" using k(1,2) re_max_length [of c hi s] by simp
  then show ?case using Cons.IH [OF k(3)] re_max_class [OF k(2)] by (simp add: it gs)
qed

end
