(* ===== verification/DbcFile.thy ===== *)
theory DbcFile
  imports DbcMsg LineRegex
begin

text \<open>
  DBC files, from \<open>bridge/dbc/dbcfile.h\<close> and \<open>bridge/dbc/dbcfile.cc\<close>: the line-based parser
  (\<open>parse\<close>, \<open>parseBO\<close>, \<open>parseSG\<close>), the two constructors, the lookups and the two edits
  of \<open>DBCFile\<close>, and the text form of \<open>MessageId\<close> (\<open>bridge/dbc/dbc.h\<close>).

  The map of messages is a sorted association list. The parser's pointer to the current
  message is the address under which the message is stored. A failing parse is a value
  that carries the file name, the line number, the exception and the line, the parts of
  the \<open>what\<close> text that the code builds.
\<close>

section \<open>The text form of a message identifier\<close>

definition mid_toString :: "message_id \<Rightarrow> string" where
  "mid_toString i = nat_str (unat (mid_source i)) @ '':'' @ hex_str (unat (mid_address i))"

definition mid_fromString :: "data_model \<Rightarrow> string \<Rightarrow> message_id" where
  "mid_fromString dm s =
     (case find_char CHR '':'' s of
        None \<Rightarrow> MessageId 0 0
      | Some pos \<Rightarrow>
          (case bindE (stoul dm 10 (take pos s)) (\<lambda>src.
                bindE (stoul dm 16 (drop (pos + 1) s)) (\<lambda>addr.
                  if 255 < src then Inr (MessageId 0 0)
                  else Inr (MessageId (ucast src) (ucast addr)))) of
             Inl e \<Rightarrow> MessageId 0 0
           | Inr i \<Rightarrow> i))"

section \<open>State\<close>

record dbc_file =
  filename :: string
  header :: string
  msgs :: "(u32 \<times> msg) list"
  db_name :: string

datatype parse_error = Parse_error (pe_file: string) (pe_line: nat) (pe_what: exn) (pe_text: string)

record parse_state =
  p_header :: string
  p_msgs :: "(u32 \<times> msg) list"
  current_msg :: "u32 option"
  multiplexor_cnt :: nat
  seen_first :: bool

section \<open>The parser\<close>

text \<open>\<open>parseBO\<close>: \<open>None\<close> stands for \<open>nullptr\<close>, a line of another form.\<close>

definition match_bo :: "string \<Rightarrow> (string \<times> string \<times> string \<times> string) option" where
  "match_bo line =
     (case re_run bo_regexp line of Some [g1, g2, g3, g4] \<Rightarrow> Some (g1, g2, g3, g4) | _ \<Rightarrow> None)"

definition parseBO :: "data_model \<Rightarrow> string \<Rightarrow> (u32 \<times> msg) list \<Rightarrow> ((u32 \<times> msg) list \<times> u32 option) result" where
  "parseBO dm line ms =
     (case match_bo line of
        None \<Rightarrow> Inr (ms, None)
      | Some (g1, g2, g3, g4) \<Rightarrow>
          bindE (stoul dm 0 g1) (\<lambda>a.
            let address = ucast a
            in if map_of ms address \<noteq> None
               then Inl (Runtime_error (''Duplicate message address: '' @ nat_str (unat address)))
               else bindE (stoul dm 0 g3) (\<lambda>sz.
                 Inr (ins_key address (msg_init\<lparr>m_address := address, m_name := g2,
                        m_size := ucast sz, transmitter := trim g4\<rparr>) ms, Some address))))"

text \<open>The match of \<open>parseSG\<close>, as the signal name, the multiplex indicator and the rest.\<close>

definition match_sg :: "string \<Rightarrow> (string \<times> string option \<times> string list) option" where
  "match_sg line =
     (case re_run sg_regexp line of
        Some (g # gs) \<Rightarrow> Some (g, None, gs)
      | _ \<Rightarrow> (case re_run sgm_regexp line of
                Some (g # i # gs) \<Rightarrow> Some (g, Some i, gs)
              | _ \<Rightarrow> None))"

text \<open>The indicator \<open>M\<close> or \<open>m<n>\<close>; the counter is the number of switches seen in the message.\<close>

definition parse_mux :: "string option \<Rightarrow> nat \<Rightarrow> (nat \<times> sig_type \<times> int) result" where
  "parse_mux ind cnt =
     (case ind of
        None \<Rightarrow> Inr (cnt, Normal, 0)
      | Some i \<Rightarrow>
          if i = ''M'' then
            (if 2 \<le> Suc cnt then Inl (Runtime_error ''Multiple multiplexor'')
             else Inr (Suc cnt, Multiplexor, 0))
          else bindE (stoi (drop 1 i)) (\<lambda>v. Inr (cnt, Multiplexed, v)))"

definition parse_fields :: "string \<Rightarrow> sig_type \<Rightarrow> int \<Rightarrow> string list \<Rightarrow> signal result" where
  "parse_fields name ty mv gs =
     bindE (stoi (gs ! 0)) (\<lambda>sb.
     bindE (stoi (gs ! 1)) (\<lambda>sz.
     bindE (stoi (gs ! 2)) (\<lambda>le.
     bindE (stod (gs ! 4)) (\<lambda>f.
     bindE (stod (gs ! 5)) (\<lambda>off.
     bindE (stod (gs ! 6)) (\<lambda>mn.
     bindE (stod (gs ! 7)) (\<lambda>mx.
       Inr (signal_init\<lparr>sg_type := ty, multiplex_value := mv, sg_name := name, start_bit := sb,
              sg_size := sz, is_little_endian := (le = 1), is_signed := (gs ! 3 = ''-''),
              factor := f, offset := off, sg_min := mn, sg_max := mx, sg_unit := gs ! 8,
              receiver_name := trim (gs ! 9)\<rparr>))))))))"

definition parseSG :: "string \<Rightarrow> (u32 \<times> msg) list \<Rightarrow> u32 option \<Rightarrow> nat \<Rightarrow> ((u32 \<times> msg) list \<times> nat) result" where
  "parseSG line ms cur cnt =
     (case cur of
        None \<Rightarrow> Inl (Runtime_error ''No Message'')
      | Some a \<Rightarrow>
          (case match_sg line of
             None \<Rightarrow> Inl (Runtime_error ''Invalid SG_ line format'')
           | Some (name, ind, gs) \<Rightarrow>
               (let m = the (map_of ms a)
                in if msg_sig m name \<noteq> None then Inl (Runtime_error ''Duplicate signal name'')
                   else bindE (parse_mux ind cnt) (\<lambda>(cnt, ty, mv).
                        bindE (parse_fields name ty mv gs) (\<lambda>s.
                          Inr (ins_key a (m\<lparr>sigs := sigs m @ [s]\<rparr>) ms, cnt))))))"

text \<open>One line of the loop of \<open>parse\<close>, and the loop; lines are counted from 1.\<close>

definition parse_line :: "data_model \<Rightarrow> string \<Rightarrow> parse_state \<Rightarrow> parse_state result" where
  "parse_line dm raw st =
     (let line = trim_line raw
      in if startsWith line ''BO_ '' then
           bindE (parseBO dm line (p_msgs st)) (\<lambda>(ms, cur).
             Inr (st\<lparr>p_msgs := ms, current_msg := cur, multiplexor_cnt := 0, seen_first := True\<rparr>))
         else if startsWith line ''SG_ '' then
           bindE (parseSG line (p_msgs st) (current_msg st) (multiplexor_cnt st)) (\<lambda>(ms, cnt).
             Inr (st\<lparr>p_msgs := ms, multiplexor_cnt := cnt, seen_first := True\<rparr>))
         else if seen_first st then Inr st
         else Inr (st\<lparr>p_header := p_header st @ raw @ [CHR 0x0A]\<rparr>))"

fun parse_lines :: "data_model \<Rightarrow> string \<Rightarrow> nat \<Rightarrow> string list \<Rightarrow> parse_state \<Rightarrow> parse_error + parse_state" where
  "parse_lines dm f n [] st = Inr st"
| "parse_lines dm f n (l # ls) st =
     (case parse_line dm l st of
        Inl e \<Rightarrow> Inl (Parse_error f (Suc n) e (trim_line l))
      | Inr st \<Rightarrow> parse_lines dm f (Suc n) ls st)"

fun update_all :: "('k \<times> msg) list \<Rightarrow> ('k \<times> msg) list option" where
  "update_all [] = Some []"
| "update_all ((a, m) # ms) =
     do { m \<leftarrow> msg_update m; ms \<leftarrow> update_all ms; Some ((a, m) # ms) }"

definition parse_init :: "string \<Rightarrow> parse_state" where
  "parse_init h = \<lparr>p_header = h, p_msgs = [], current_msg = None, multiplexor_cnt = 0, seen_first = False\<rparr>"

text \<open>The outer option is undefined behaviour in one of the final updates, the sum the exception.\<close>

definition parse :: "data_model \<Rightarrow> string \<Rightarrow> dbc_file \<Rightarrow> (parse_error + dbc_file) option" where
  "parse dm content d =
     (case parse_lines dm (filename d) 0 (getlines CHR 0x0A content) (parse_init (header d)) of
        Inl e \<Rightarrow> Some (Inl e)
      | Inr st \<Rightarrow>
          do { ms \<leftarrow> update_all (p_msgs st); Some (Inr (d\<lparr>header := p_header st, msgs := ms\<rparr>)) })"

section \<open>Constructors, lookups and edits\<close>

definition dbc_from_content :: "data_model \<Rightarrow> string \<Rightarrow> string \<Rightarrow> (parse_error + dbc_file) option" where
  "dbc_from_content dm name content =
     parse dm content \<lparr>filename = [], header = [], msgs = [], db_name = name\<rparr>"

text \<open>\<open>path(..).stem()\<close>, and the constructor that reads a file; opening and reading it is the
  parameter \<open>read_file\<close>.\<close>

definition path_stem :: "string \<Rightarrow> string" where
  "path_stem p =
     (let f = (case rfind_char CHR ''/'' p of None \<Rightarrow> p | Some i \<Rightarrow> drop (i + 1) p)
      in case rfind_char CHR ''.'' f of
           None \<Rightarrow> f
         | Some i \<Rightarrow> if i = 0 \<or> f = ''..'' then f else take i f)"

definition dbc_from_file :: "data_model \<Rightarrow> (string \<Rightarrow> string option) \<Rightarrow> string \<Rightarrow> (exn + parse_error + dbc_file) option" where
  "dbc_from_file dm read_file f =
     (case read_file f of
        None \<Rightarrow> Some (Inl (Runtime_error (''Failed to open file: '' @ f)))
      | Some content \<Rightarrow>
          map_option Inr (parse dm content \<lparr>filename = f, header = [], msgs = [], db_name = path_stem f\<rparr>))"

definition dbc_updateMsg :: "message_id \<Rightarrow> string \<Rightarrow> u32 \<Rightarrow> string \<Rightarrow> string \<Rightarrow> dbc_file \<Rightarrow> dbc_file" where
  "dbc_updateMsg i name sz node comment d =
     (let m = (case map_of (msgs d) (mid_address i) of None \<Rightarrow> msg_init | Some m \<Rightarrow> m);
          m = m\<lparr>m_address := mid_address i, m_name := name, m_size := sz,
                transmitter := (if node = [] then DEFAULT_NODE_NAME else node), m_comment := comment\<rparr>
      in d\<lparr>msgs := ins_key (mid_address i) m (msgs d)\<rparr>)"

definition dbc_removeMsg :: "message_id \<Rightarrow> dbc_file \<Rightarrow> dbc_file" where
  "dbc_removeMsg i d = d\<lparr>msgs := del_key (mid_address i) (msgs d)\<rparr>"

definition dbc_getMessages :: "dbc_file \<Rightarrow> (u32 \<times> msg) list" where
  "dbc_getMessages d = msgs d"

text \<open>A pointer to a message is its address.\<close>

definition dbc_msg :: "dbc_file \<Rightarrow> u32 \<Rightarrow> u32 option" where
  "dbc_msg d a = (case map_of (msgs d) a of None \<Rightarrow> None | Some _ \<Rightarrow> Some a)"

definition dbc_msg_by_name :: "dbc_file \<Rightarrow> string \<Rightarrow> u32 option" where
  "dbc_msg_by_name d n = map_option fst (find (\<lambda>(a, m). m_name m = n) (msgs d))"

definition dbc_msg_by_id :: "dbc_file \<Rightarrow> message_id \<Rightarrow> u32 option" where
  "dbc_msg_by_id d i = dbc_msg d (mid_address i)"

definition dbc_signal :: "dbc_file \<Rightarrow> u32 \<Rightarrow> string \<Rightarrow> (u32 \<times> nat) option" where
  "dbc_signal d a n =
     do { a \<leftarrow> dbc_msg d a; m \<leftarrow> map_of (msgs d) a; i \<leftarrow> msg_sig m n; Some (a, i) }"

definition dbc_name :: "dbc_file \<Rightarrow> string" where
  "dbc_name d = (if db_name d = [] then ''untitled'' else db_name d)"

definition dbc_isEmpty :: "dbc_file \<Rightarrow> bool" where
  "dbc_isEmpty d \<longleftrightarrow> msgs d = [] \<and> db_name d = []"

section \<open>The identifier's text is read back\<close>

lemma find_char_append: "c \<notin> set a \<Longrightarrow> find_char c (a @ c # b) = Some (length a)"
  by (auto simp: find_char_def find_index_Some nth_append)

lemma nat_str_no_colon: "CHR '':'' \<notin> set (nat_str n)"
  using nat_str_digits(2) [of n] by (auto simp: digit_val_def)

lemma mid_fromString_toString: "mid_fromString dm (mid_toString i) = i"
proof -
  have s: "unat (mid_source i) < 256" using unsigned_less [of "mid_source i"] by simp
  have a: "unat (mid_address i) < 2 ^ 32" using unsigned_less [of "mid_address i"] by simp
  have "mid_toString i = nat_str (unat (mid_source i)) @ CHR '':'' # hex_str (unat (mid_address i))"
    by (simp add: mid_toString_def)
  moreover have "\<not> (255 :: u64) < word_of_nat (unat (mid_source i))"
    using s by (simp add: word_less_nat_alt unat_of_nat del: of_nat_unat word_of_nat_eq_0_iff)
  moreover have "ucast (word_of_nat (unat (mid_source i)) :: u64) = mid_source i"
    "ucast (word_of_nat (unat (mid_address i)) :: u64) = mid_address i"
    by (auto intro!: bit_word_eqI simp: bit_simps)
  ultimately show ?thesis
    using s a by (simp add: mid_fromString_def find_char_append nat_str_no_colon stoul_nat_str
        stoul_hex_str del: of_nat_unat)
qed

section \<open>The parser's invariant\<close>

text \<open>A parsed message: stored under its own address, with a word as its name, distinct signal names and at most
  one multiplexor switch.\<close>

definition msg_ok :: "u32 \<Rightarrow> msg \<Rightarrow> bool" where
  "msg_ok a m \<longleftrightarrow> m_address m = a \<and> is_ident (m_name m) \<and> distinct (map sg_name (sigs m)) \<and> mux_count m \<le> 1"

definition msgs_ok :: "(u32 \<times> msg) list \<Rightarrow> bool" where
  "msgs_ok ms \<longleftrightarrow> key_sorted ms \<and> (\<forall>a m. map_of ms a = Some m \<longrightarrow> msg_ok a m)"

definition parse_inv :: "parse_state \<Rightarrow> bool" where
  "parse_inv st \<longleftrightarrow> msgs_ok (p_msgs st)
     \<and> (\<forall>a. current_msg st = Some a \<longrightarrow>
          (\<exists>m. map_of (p_msgs st) a = Some m \<and> mux_count m = multiplexor_cnt st))"

lemma msgs_ok_ins: "msgs_ok ms \<Longrightarrow> msg_ok a m \<Longrightarrow> msgs_ok (ins_key a m ms)"
  by (auto simp: msgs_ok_def smap.invar_insert)

lemma parse_init_inv: "parse_inv (parse_init h)"
  by (simp add: parse_inv_def parse_init_def msgs_ok_def)

lemma match_bo_ident: "match_bo l = Some (g1, g2, g3, g4) \<Longrightarrow> is_ident g2 \<and> is_ident g4"
proof -
  assume "match_bo l = Some (g1, g2, g3, g4)"
  then have "re_run bo_regexp l = Some [g1, g2, g3, g4]"
    by (auto simp: match_bo_def split: option.splits list.splits)
  moreover have "filter re_cap bo_regexp = [word_grp, word_grp, word_grp, word_grp]"
    by (simp add: bo_regexp_def lit_def word_grp_def spaces_def)
  ultimately show ?thesis
    using re_groups [of bo_regexp l] by (fastforce simp: word_grp_def is_ident_def Suc_le_eq)
qed

lemma parseBO_cases:
  assumes "parseBO dm l ms = Inr (ms', cur)"
  obtains "ms' = ms" "cur = None"
  | a sz n tr where "map_of ms a = None" "cur = Some a" "is_ident n"
      "ms' = ins_key a (msg_init\<lparr>m_address := a, m_name := n, m_size := sz, transmitter := tr\<rparr>) ms"
proof (cases "match_bo l")
  case None
  then show ?thesis using assms that(1) by (simp add: parseBO_def)
next
  case (Some g)
  obtain g1 g2 g3 g4 where g: "match_bo l = Some (g1, g2, g3, g4)" using Some by (cases g) auto
  obtain x where x: "stoul dm 0 g1 = Inr x" using assms by (cases "stoul dm 0 g1") (auto simp: parseBO_def g)
  have n: "map_of ms (ucast x) = None"
    using assms by (cases "map_of ms (ucast x :: u32)") (auto simp: parseBO_def g x Let_def)
  obtain y where y: "stoul dm 0 g3 = Inr y"
    using assms by (cases "stoul dm 0 g3") (auto simp: parseBO_def g x n Let_def)
  show ?thesis
    using assms match_bo_ident [OF g] by (intro that(2) [where a = "ucast x" and sz = "ucast y" and n = g2 and tr = "trim g4"]) (auto simp: parseBO_def g x n y Let_def)
qed

lemma parseSG_cases:
  assumes "parseSG l ms cur cnt = Inr (ms', cnt')"
  obtains a s where "cur = Some a"
    "sg_name s \<notin> sg_name ` set (sigs (the (map_of ms a)))"
    "ms' = ins_key a ((the (map_of ms a))\<lparr>sigs := sigs (the (map_of ms a)) @ [s]\<rparr>) ms"
    "if sg_type s = Multiplexor then cnt = 0 \<and> cnt' = 1 else cnt' = cnt"
proof -
  obtain a name ind gs where c: "cur = Some a" and m: "match_sg l = Some (name, ind, gs)"
    using assms by (auto simp: parseSG_def split: option.splits)
  obtain ty mv s where n: "msg_sig (the (map_of ms a)) name = None"
    and x: "parse_mux ind cnt = Inr (cnt', ty, mv)" and f: "parse_fields name ty mv gs = Inr s"
    and ms': "ms' = ins_key a ((the (map_of ms a))\<lparr>sigs := sigs (the (map_of ms a)) @ [s]\<rparr>) ms"
    using assms by (auto simp: parseSG_def c m Let_def bindE_Inr split: if_splits)
  have s: "sg_name s = name" "sg_type s = ty" using f by (auto simp: parse_fields_def bindE_Inr)
  have "if ty = Multiplexor then cnt = 0 \<and> cnt' = 1 else cnt' = cnt"
    using x by (auto simp: parse_mux_def bindE_Inr split: option.splits if_splits)
  then show ?thesis using that [OF c _ ms'] n s by (simp add: msg_sig_None)
qed

lemma parse_line_cases:
  assumes "parse_line dm l st = Inr st'"
  obtains (bo) ms cur where "parseBO dm (trim_line l) (p_msgs st) = Inr (ms, cur)"
      "st' = st\<lparr>p_msgs := ms, current_msg := cur, multiplexor_cnt := 0, seen_first := True\<rparr>"
    | (sg) ms cnt where "parseSG (trim_line l) (p_msgs st) (current_msg st) (multiplexor_cnt st) = Inr (ms, cnt)"
      "st' = st\<lparr>p_msgs := ms, multiplexor_cnt := cnt, seen_first := True\<rparr>"
    | (other) "p_msgs st' = p_msgs st" "current_msg st' = current_msg st" "multiplexor_cnt st' = multiplexor_cnt st"
proof (cases "startsWith (trim_line l) ''BO_ ''")
  case True
  then show ?thesis
    using assms by (cases "parseBO dm (trim_line l) (p_msgs st)") (auto simp: parse_line_def Let_def intro: bo)
next
  case b: False
  show ?thesis
  proof (cases "startsWith (trim_line l) ''SG_ ''")
    case True
    then show ?thesis
      using assms b by (cases "parseSG (trim_line l) (p_msgs st) (current_msg st) (multiplexor_cnt st)")
        (auto simp: parse_line_def Let_def intro: sg)
  next
    case False
    then show ?thesis
      using assms b by (cases "seen_first st") (auto simp: parse_line_def Let_def intro: other)
  qed
qed

lemma parse_line_inv:
  assumes "parse_inv st" "parse_line dm l st = Inr st'"
  shows "parse_inv st'"
proof -
  have inv: "msgs_ok (p_msgs st)" using assms(1) by (simp add: parse_inv_def)
  consider (bo) ms cur where "parseBO dm (trim_line l) (p_msgs st) = Inr (ms, cur)"
      "st' = st\<lparr>p_msgs := ms, current_msg := cur, multiplexor_cnt := 0, seen_first := True\<rparr>"
    | (sg) ms cnt where "parseSG (trim_line l) (p_msgs st) (current_msg st) (multiplexor_cnt st) = Inr (ms, cnt)"
      "st' = st\<lparr>p_msgs := ms, multiplexor_cnt := cnt, seen_first := True\<rparr>"
    | (other) "p_msgs st' = p_msgs st" "current_msg st' = current_msg st" "multiplexor_cnt st' = multiplexor_cnt st"
    using parse_line_cases [OF assms(2)] .
  then show ?thesis
  proof cases
    case bo
    from bo(1) show ?thesis
    proof (cases rule: parseBO_cases)
      case 1
      then show ?thesis using inv bo(2) by (simp add: parse_inv_def)
    next
      case (2 a sz n tr)
      define m where "m = msg_init\<lparr>m_address := a, m_name := n, m_size := sz, transmitter := tr\<rparr>"
      have m: "msg_ok a m" "mux_count m = 0" using 2(3) by (simp_all add: m_def msg_ok_def mux_count_def msg_init_def)
      have "ms = ins_key a m (p_msgs st)" using 2 by (simp add: m_def)
      then show ?thesis
        using msgs_ok_ins [OF inv m(1)] m(2) 2(2) bo(2) by (simp add: parse_inv_def)
    qed
  next
    case sg
    from sg(1) show ?thesis
    proof (cases rule: parseSG_cases)
      case (1 a s)
      then obtain m where m: "map_of (p_msgs st) a = Some m" "mux_count m = multiplexor_cnt st"
        using assms(1) by (auto simp: parse_inv_def)
      then have "msg_ok a m" using inv by (simp add: msgs_ok_def)
      then have "msg_ok a (m\<lparr>sigs := sigs m @ [s]\<rparr>)" "mux_count (m\<lparr>sigs := sigs m @ [s]\<rparr>) = cnt"
        using 1 m by (auto simp: msg_ok_def mux_count_def split: if_splits)
      then show ?thesis using msgs_ok_ins [OF inv] 1 m sg(2) by (simp add: parse_inv_def)
    qed
  next
    case other
    then show ?thesis using assms(1) by (simp add: parse_inv_def)
  qed
qed

lemma parse_lines_inv: "parse_inv st \<Longrightarrow> parse_lines dm f n ls st = Inr st' \<Longrightarrow> parse_inv st'"
  by (induction dm f n ls st rule: parse_lines.induct) (auto split: sum.splits dest: parse_line_inv)

lemma update_all_props:
  assumes "update_all ms = Some ms'"
  shows "map fst ms' = map fst ms \<and>
    (\<forall>a. map_of ms' a = (case map_of ms a of None \<Rightarrow> None | Some m \<Rightarrow> msg_update m))
    \<and> (\<forall>a m. map_of ms a = Some m \<longrightarrow> msg_update m \<noteq> None)"
  using assms
proof (induction ms arbitrary: ms' rule: update_all.induct)
  case 1
  then show ?case by simp
next
  case (2 a m ms)
  then obtain m1 ms1 where "msg_update m = Some m1" "update_all ms = Some ms1" "ms' = (a, m1) # ms1"
    by (auto simp: bind_eq_Some_conv)
  with 2 show ?case by auto
qed

lemma update_all_total: "\<forall>a m. (a, m) \<in> set ms \<longrightarrow> msg_update m \<noteq> None \<Longrightarrow> update_all ms \<noteq> None"
  by (induction ms rule: update_all.induct) fastforce+

text \<open>What \<open>parse\<close> leaves: the invariant of the parser and of every message's update.\<close>

definition dbc_ok :: "dbc_file \<Rightarrow> bool" where
  "dbc_ok d \<longleftrightarrow> msgs_ok (msgs d) \<and> (\<forall>a m. map_of (msgs d) a = Some m \<longrightarrow> msg_inv m)"

lemma msg_ok_update:
  assumes "msg_ok a m" "msg_update m = Some m'"
  shows "msg_ok a m'"
proof -
  note k = msg_update_keeps [OF assms(2)]
  have "distinct (map sg_name (sigs m'))"
    using assms(1) k(1) unfolding msg_ok_def by (metis mset_eq_imp_distinct_iff)
  then show ?thesis using assms(1) k(2,3,4) by (simp add: msg_ok_def)
qed

lemma parse_dbc_ok:
  assumes "parse dm content d = Some (Inr d')"
  shows "dbc_ok d'" "filename d' = filename d" "db_name d' = db_name d"
proof -
  obtain st ms where p: "parse_lines dm (filename d) 0 (getlines CHR 0x0A content) (parse_init (header d)) = Inr st"
    and u: "update_all (p_msgs st) = Some ms" and d': "d' = d\<lparr>header := p_header st, msgs := ms\<rparr>"
    using assms by (auto simp: parse_def bind_eq_Some_conv split: sum.splits)
  have inv: "msgs_ok (p_msgs st)"
    using parse_lines_inv [OF parse_init_inv p] by (simp add: parse_inv_def)
  note up = update_all_props [OF u]
  have "key_sorted ms" using inv up by (simp add: msgs_ok_def key_sorted_def)
  moreover have "msg_ok a m' \<and> msg_inv m'" if h: "map_of ms a = Some m'" for a m'
  proof -
    obtain m where "map_of (p_msgs st) a = Some m" "msg_update m = Some m'"
      using conjunct1 [OF conjunct2 [OF up], THEN spec, of a] h
      by (cases "map_of (p_msgs st) a") simp_all
    then show ?thesis using inv msg_ok_update msg_update_inv unfolding msgs_ok_def by blast
  qed
  ultimately show "dbc_ok d'" by (simp add: dbc_ok_def msgs_ok_def d')
  show "filename d' = filename d" "db_name d' = db_name d" by (simp_all add: d')
qed

text \<open>A failing parse names the first line that fails.\<close>

lemma parse_lines_error:
  "parse_lines dm f n ls st = Inl e \<longleftrightarrow>
     (\<exists>pre l post st' x. ls = pre @ l # post \<and> parse_lines dm f n pre st = Inr st'
        \<and> parse_line dm l st' = Inl x \<and> e = Parse_error f (n + length pre + 1) x (trim_line l))"
proof (induction dm f n ls st rule: parse_lines.induct)
  case (1 dm f n st)
  then show ?case by simp
next
  case (2 dm f n l ls st)
  show ?case
  proof (cases "parse_line dm l st")
    case (Inl x)
    show ?thesis (is "?L \<longleftrightarrow> ?R")
    proof
      assume ?L
      then show ?R using Inl by (intro exI [of _ "[]"] exI [of _ l] exI [of _ ls]) auto
    next
      assume ?R
      then obtain pre l' post st' y where r: "l # ls = pre @ l' # post" "parse_lines dm f n pre st = Inr st'"
        "parse_line dm l' st' = Inl y" "e = Parse_error f (n + length pre + 1) y (trim_line l')" by blast
      then show ?L using Inl by (cases pre) auto
    qed
  next
    case (Inr st1)
    show ?thesis (is "?L \<longleftrightarrow> ?R")
    proof
      assume ?L
      then have "parse_lines dm f (Suc n) ls st1 = Inl e" using Inr by simp
      then obtain pre l' post st' x where "ls = pre @ l' # post" "parse_lines dm f (Suc n) pre st1 = Inr st'"
        "parse_line dm l' st' = Inl x" "e = Parse_error f (Suc n + length pre + 1) x (trim_line l')"
        using 2 [OF Inr] by blast
      then show ?R using Inr by (intro exI [of _ "l # pre"] exI [of _ l'] exI [of _ post]) auto
    next
      assume ?R
      then obtain pre l' post st' y where r: "l # ls = pre @ l' # post" "parse_lines dm f n pre st = Inr st'"
        "parse_line dm l' st' = Inl y" "e = Parse_error f (n + length pre + 1) y (trim_line l')" by blast
      then obtain pre' where "pre = l # pre'" using Inr by (cases pre) auto
      then show ?L using r Inr 2 [OF Inr] by auto
    qed
  qed
qed

section \<open>Lines in the usual layout are read back\<close>

definition bo_line :: "nat \<Rightarrow> string \<Rightarrow> nat \<Rightarrow> string \<Rightarrow> string" where
  "bo_line a n sz tr = ''BO_ '' @ nat_str a @ '' '' @ n @ '':'' @ '' '' @ nat_str sz @ '' '' @ tr"

text \<open>
  The fields of a signal line; the numbers are decimal texts. The multiplexing of a signal is none, \<open>M\<close> for the switch, or \<open>m\<close>
  and the value of the switch that selects the signal.
\<close>

datatype mux_text = Plain | Switch | Selected_by nat

fun mux_str :: "mux_text \<Rightarrow> string option" where
  "mux_str Plain = None"
| "mux_str Switch = Some ''M''"
| "mux_str (Selected_by n) = Some (CHR ''m'' # nat_str n)"

record sg_text =
  t_name :: string
  t_mux :: mux_text
  t_start :: nat
  t_size :: nat
  t_order :: nat
  t_sign :: char
  t_factor :: string
  t_offset :: string
  t_min :: string
  t_max :: string
  t_unit :: string
  t_recv :: string

definition sg_line_tail :: "sg_text \<Rightarrow> string" where
  "sg_line_tail t = '' '' @ '': '' @ nat_str (t_start t) @ ''|'' @ nat_str (t_size t) @ ''@'' @ nat_str (t_order t)
     @ (t_sign t # '' ('' @ t_factor t @ '','' @ t_offset t @ '') ['' @ t_min t @ ''|'' @ t_max t
     @ ''] \"'' @ t_unit t @ ''\" '' @ t_recv t)"

definition sg_line :: "sg_text \<Rightarrow> string" where
  "sg_line t = ''SG_ '' @ t_name t
     @ (case mux_str (t_mux t) of None \<Rightarrow> [] | Some i \<Rightarrow> '' '' @ i) @ sg_line_tail t"

definition sg_text_ok :: "sg_text \<Rightarrow> bool" where
  "sg_text_ok t \<longleftrightarrow> is_ident (t_name t) \<and> (\<forall>n. t_mux t = Selected_by n \<longrightarrow> n < 2 ^ 31) \<and> issign (t_sign t)
     \<and> is_numtext (t_factor t) \<and> is_numtext (t_offset t) \<and> is_numtext (t_min t) \<and> is_numtext (t_max t)
     \<and> (\<forall>c \<in> set (t_unit t). isany c) \<and> (\<forall>c \<in> set (t_recv t). isany c \<and> c \<noteq> CHR ''\"'')"

definition sg_groups :: "sg_text \<Rightarrow> string list" where
  "sg_groups t = [nat_str (t_start t), nat_str (t_size t), nat_str (t_order t), [t_sign t],
     t_factor t, t_offset t, t_min t, t_max t, t_unit t, t_recv t]"

lemma re_sg_tail:
  assumes "sg_text_ok t"
  shows "re_run sg_tail (sg_line_tail t) = Some (sg_groups t)"
  unfolding sg_tail_def sg_line_tail_def sg_groups_def
  by (intro re_blank re_lit re_nat_str re_sign re_num re_unit)
    (use assms in \<open>auto simp: sg_text_ok_def isdigit_def isnum_def issign_def\<close>)

lemma match_bo_line:
  assumes "is_ident n" "is_ident tr"
  shows "match_bo (bo_line a n sz tr) = Some (nat_str a, n, nat_str sz, tr)"
proof -
  have "re_run bo_regexp (bo_line a n sz tr) = Some [nat_str a, n, nat_str sz, tr]"
    unfolding bo_regexp_def bo_line_def
  proof (intro re_lit re_word is_ident_nat_str assms)
    have "re_run (word_grp # lit '' '' @ [word_grp]) (nat_str sz @ '' '' @ tr) = Some [nat_str sz, tr]"
      by (intro re_lit re_word re_word_end is_ident_nat_str assms) (simp add: isword_def isdigit_def)
    moreover have "\<not> isspace (hd (nat_str sz @ '' '' @ tr))"
      using is_ident_nat_str [of sz] isword_not_space by (cases "nat_str sz") (auto simp: is_ident_def)
    ultimately show "re_run (spaces # lit '':'' @ spaces # word_grp # lit '' '' @ [word_grp])
        ('':'' @ '' '' @ nat_str sz @ '' '' @ tr) = Some [nat_str sz, tr]"
      by (intro re_spaces_none re_lit re_spaces_one) (simp_all add: isspace_def)
  qed (simp_all add: isword_def isdigit_def)
  then show ?thesis by (simp add: match_bo_def)
qed

lemma sg_line_tail_hd: "sg_line_tail t \<noteq> []" "hd (sg_line_tail t) = CHR '' ''"
  by (simp_all add: sg_line_tail_def)

lemma is_ident_mux_str: "mux_str x = Some i \<Longrightarrow> is_ident i"
proof -
  have "isword CHR ''M''" "isword CHR ''m''" by code_simp+
  moreover have "isword c" if "c \<in> set (nat_str n)" for c n using is_ident_nat_str that by (simp add: is_ident_def)
  ultimately show "mux_str x = Some i \<Longrightarrow> is_ident i" by (cases x) (auto simp: is_ident_def)
qed

lemma match_sg_line:
  assumes "sg_text_ok t"
  shows "match_sg (sg_line t) = Some (t_name t, mux_str (t_mux t), sg_groups t)"
proof (cases "mux_str (t_mux t)")
  case None
  have "re_run sg_regexp (sg_line t) = Some (t_name t # sg_groups t)"
    unfolding sg_regexp_def sg_line_def None option.case append_Nil
    by (intro re_lit re_word re_sg_tail assms)
      (use assms sg_line_tail_hd(2) [of t] in \<open>simp_all add: sg_text_ok_def isword_def isdigit_def\<close>)
  then show ?thesis using None by (simp add: match_sg_def)
next
  case (Some i)
  have i: "is_ident i" "is_ident (t_name t)" using assms Some is_ident_mux_str by (simp_all add: sg_text_ok_def)
  then obtain c r where c: "i = c # r" "isword c" by (cases i) (auto simp: is_ident_def)
  have line: "sg_line t = ''SG_ '' @ t_name t @ '' '' @ i @ sg_line_tail t"
    by (simp add: sg_line_def Some)
  have blank: "c \<noteq> CHR '' ''" "c \<noteq> CHR '':''" using c(2) by (auto simp: isword_def isdigit_def)
  have "re_run sg_regexp (sg_line t) = None"
    unfolding sg_regexp_def line re_lit_eq
  proof (rule re_word_fail [OF i(2)])
    show "re_run sg_tail ('' '' @ i @ sg_line_tail t) = None"
      unfolding sg_tail_def by (rule re_blank_fail) (use blank c in simp_all)
    show "re_run sg_tail s = None" if "s \<noteq> []" "isword (hd s)" for s
    proof -
      have "dropWhile (\<lambda>c. c = CHR '' '') s = s" "hd s \<noteq> CHR '':''"
        using that by (cases s; auto simp: isword_def isdigit_def)+
      then show ?thesis unfolding sg_tail_def by (intro re_blank_fail) simp_all
    qed
  qed (simp_all add: isword_def isdigit_def)
  moreover have "re_run sgm_regexp (sg_line t) = Some (t_name t # i # sg_groups t)"
    unfolding sgm_regexp_def line
    by (intro re_lit re_word re_sg_tail assms i)
      (use sg_line_tail_hd(2) [of t] in \<open>simp_all add: isword_def isdigit_def\<close>)
  ultimately show ?thesis using Some by (simp add: match_sg_def)
qed

definition text_signal :: "sg_text \<Rightarrow> f64 \<Rightarrow> f64 \<Rightarrow> f64 \<Rightarrow> f64 \<Rightarrow> signal" where
  "text_signal t f off mn mx =
     signal_init\<lparr>sg_type := (case t_mux t of Plain \<Rightarrow> Normal | Switch \<Rightarrow> Multiplexor | Selected_by n \<Rightarrow> Multiplexed),
       multiplex_value := (case t_mux t of Selected_by n \<Rightarrow> int n | _ \<Rightarrow> 0),
       sg_name := t_name t, start_bit := int (t_start t),
       sg_size := int (t_size t), is_little_endian := (t_order t = 1), is_signed := (t_sign t = CHR ''-''),
       factor := f, offset := off, sg_min := mn, sg_max := mx, sg_unit := t_unit t,
       receiver_name := trim (t_recv t)\<rparr>"

lemma stoi_nat_str: "n < 2 ^ 31 \<Longrightarrow> stoi (nat_str n) = Inr (int n)"
  by (simp add: stoi_def scan_nat_str Let_def int_range_def)

lemma parse_mux_str:
  assumes "\<forall>n. x = Selected_by n \<longrightarrow> n < 2 ^ 31"
  shows "parse_mux (mux_str x) cnt =
    (if x = Switch \<and> cnt \<noteq> 0 then Inl (Runtime_error ''Multiple multiplexor'')
     else Inr (if x = Switch then Suc cnt else cnt,
       case x of Plain \<Rightarrow> Normal | Switch \<Rightarrow> Multiplexor | Selected_by n \<Rightarrow> Multiplexed,
       case x of Selected_by n \<Rightarrow> int n | _ \<Rightarrow> 0))"
  using assms by (cases x) (auto simp: parse_mux_def stoi_nat_str)

lemma parseSG_line:
  assumes "sg_text_ok t" "t_start t < 2 ^ 31" "t_size t < 2 ^ 31" "t_order t < 2 ^ 31"
    and "stod (t_factor t) = Inr f" "stod (t_offset t) = Inr off" "stod (t_min t) = Inr mn" "stod (t_max t) = Inr mx"
    and "map_of ms a = Some m" "t_name t \<notin> sg_name ` set (sigs m)"
  shows "parseSG (sg_line t) ms (Some a) cnt =
    (if t_mux t = Switch \<and> cnt \<noteq> 0 then Inl (Runtime_error ''Multiple multiplexor'')
     else Inr (ins_key a (m\<lparr>sigs := sigs m @ [text_signal t f off mn mx]\<rparr>) ms, if t_mux t = Switch then Suc cnt else cnt))"
proof -
  have "msg_sig m (t_name t) = None" using assms(10) by (simp add: msg_sig_None)
  moreover have "parse_fields (t_name t) (case t_mux t of Plain \<Rightarrow> Normal | Switch \<Rightarrow> Multiplexor | Selected_by n \<Rightarrow> Multiplexed)
      (case t_mux t of Selected_by n \<Rightarrow> int n | _ \<Rightarrow> 0) (sg_groups t) = Inr (text_signal t f off mn mx)"
    using assms(2-8) by (simp add: parse_fields_def sg_groups_def stoi_nat_str text_signal_def)
  moreover have "\<forall>n. t_mux t = Selected_by n \<longrightarrow> n < 2 ^ 31" using assms(1) by (simp add: sg_text_ok_def)
  ultimately show ?thesis
    using assms(9) by (simp add: parseSG_def match_sg_line [OF assms(1)] parse_mux_str Let_def)
qed

lemma parseBO_line:
  assumes "is_ident n" "is_ident tr" "a < 2 ^ 32" "sz < 2 ^ 32" "map_of ms (word_of_nat a) = None"
  shows "parseBO dm (bo_line a n sz tr) ms =
    Inr (ins_key (word_of_nat a) (msg_init\<lparr>m_address := word_of_nat a, m_name := n, m_size := word_of_nat sz,
           transmitter := tr\<rparr>) ms, Some (word_of_nat a))"
proof -
  have u: "ucast (word_of_nat k :: u64) = (word_of_nat k :: u32)" for k
    by (rule bit_word_eqI) (simp add: bit_simps)
  have "trim tr = tr"
  proof -
    have "\<forall>c \<in> set tr. c \<notin> set blanks"
      using assms(2) isword_not_space by (fastforce simp: is_ident_def blanks_def isspace_def)
    then show ?thesis unfolding trim_strip using assms(2)
      by (intro strip_id) (simp add: is_ident_def)
  qed
  then show ?thesis
    using assms(3-5) by (simp add: parseBO_def match_bo_line [OF assms(1,2)] stoul_nat_str_0 u Let_def)
qed

end
