(* ===== verification/CanParsers.thy ===== *)
theory CanParsers
  imports DbcFile
begin

text \<open>
  \<open>CANParsers\<close>, from \<open>bridge/car/can_parsers.h\<close>: the DBC files per bus, the latest frame per
  bus and address, the cache of resolved signals, and the reads \<open>get\<close> and \<open>getRaw\<close>.

  \<open>dbcs\<close> is the heap of DBC objects that were allocated; \<open>busDbcFiles\<close> holds pointers
  (indices) into it, and a cached signal points to a signal of a message of one of them.
  No object is freed before the destructor, and a DBC object does not change after its
  construction. A result \<open>None\<close> is undefined behaviour in the signal's extraction.
\<close>

section \<open>State\<close>

record cached_signal =
  cs_address :: u32
  cs_dbc :: nat
  cs_msg :: u32
  cs_sig :: nat

record can_parsers =
  dbcs :: "dbc_file list"
  busDbcFiles :: "(int \<times> nat) list"
  latestFrames :: "(u64 \<times> bytes) list"
  busSignalCache :: "(int \<times> (string \<rightharpoonup> cached_signal)) list"

definition parsers_init :: can_parsers where
  "parsers_init = \<lparr>dbcs = [], busDbcFiles = [], latestFrames = [], busSignalCache = []\<rparr>"

section \<open>Operations\<close>

definition addBus :: "data_model \<Rightarrow> int \<Rightarrow> string \<Rightarrow> can_parsers \<Rightarrow> (parse_error + can_parsers) option" where
  "addBus dm bus content p =
     do { r \<leftarrow> dbc_from_content dm (''bus_'' @ int_str bus) content;
          Some (case r of
            Inl e \<Rightarrow> Inl e
          | Inr d \<Rightarrow> Inr (p\<lparr>dbcs := dbcs p @ [d], busDbcFiles := ins_key bus (length (dbcs p)) (busDbcFiles p)\<rparr>)) }"

definition signal_key :: "string \<Rightarrow> string \<Rightarrow> string" where
  "signal_key m s = m @ ''::'' @ s"

text \<open>The three nested loops of \<open>buildCache\<close>: signals of a message, messages of a file, files.\<close>

definition cache_msg :: "nat \<Rightarrow> u32 \<times> msg \<Rightarrow> (string \<rightharpoonup> cached_signal) \<Rightarrow> (string \<rightharpoonup> cached_signal)" where
  "cache_msg h am c =
     fold (\<lambda>i c. c(signal_key (m_name (snd am)) (sg_name (sigs (snd am) ! i)) \<mapsto>
              \<lparr>cs_address = m_address (snd am), cs_dbc = h, cs_msg = fst am, cs_sig = i\<rparr>))
       [0..<length (sigs (snd am))] c"

definition cache_dbc :: "nat \<Rightarrow> dbc_file \<Rightarrow> (string \<rightharpoonup> cached_signal) \<Rightarrow> (string \<rightharpoonup> cached_signal)" where
  "cache_dbc h d c = fold (cache_msg h) (dbc_getMessages d) c"

definition buildCache :: "can_parsers \<Rightarrow> can_parsers" where
  "buildCache p =
     p\<lparr>busSignalCache :=
        fold (\<lambda>(bus, h) bc.
            let c = (case map_of bc (bus AND 3) of None \<Rightarrow> Map.empty | Some c \<Rightarrow> c)
            in ins_key (bus AND 3) (cache_dbc h (dbcs p ! h) c) bc)
          (busDbcFiles p) []\<rparr>"

definition frameKey :: "int \<Rightarrow> u32 \<Rightarrow> u64" where
  "frameKey bus address = push_bit 32 (word_of_int (bus AND 3)) OR ucast address"

definition updateFrame :: "int \<Rightarrow> u32 \<Rightarrow> bytes \<Rightarrow> can_parsers \<Rightarrow> can_parsers" where
  "updateFrame bus address data p =
     p\<lparr>latestFrames := ins_key (frameKey bus address) data (latestFrames p)\<rparr>"

text \<open>The message and the signal that a cached pointer denotes.\<close>

definition deref_msg :: "can_parsers \<Rightarrow> cached_signal \<Rightarrow> msg" where
  "deref_msg p c = the (map_of (msgs (dbcs p ! cs_dbc c)) (cs_msg c))"

definition deref_sig :: "can_parsers \<Rightarrow> cached_signal \<Rightarrow> signal" where
  "deref_sig p c = sigs (deref_msg p c) ! cs_sig c"

text \<open>The lookups that \<open>get\<close> and \<open>getRaw\<close> share.\<close>

definition find_cached :: "can_parsers \<Rightarrow> int \<Rightarrow> string \<Rightarrow> string \<Rightarrow> (cached_signal \<times> bytes) option" where
  "find_cached p bus msgName sigName =
     (let maskedBus = bus AND 3
      in do { cache \<leftarrow> map_of (busSignalCache p) maskedBus;
              c \<leftarrow> cache (signal_key msgName sigName);
              frame \<leftarrow> map_of (latestFrames p) (frameKey maskedBus (cs_address c));
              Some (c, frame) })"

definition cp_get :: "can_parsers \<Rightarrow> int \<Rightarrow> string \<Rightarrow> string \<Rightarrow> f64 option" where
  "cp_get p bus msgName sigName =
     (case find_cached p bus msgName sigName of
        None \<Rightarrow> Some f_zero
      | Some (c, frame) \<Rightarrow>
          do { r \<leftarrow> getValue (deref_msg p c) frame (deref_sig p c);
               Some (case r of None \<Rightarrow> f_zero | Some v \<Rightarrow> v) })"

text \<open>\<open>Some None\<close> is the return value \<open>false\<close>.\<close>

definition cp_getRaw :: "can_parsers \<Rightarrow> int \<Rightarrow> string \<Rightarrow> string \<Rightarrow> u64 option option" where
  "cp_getRaw p bus msgName sigName =
     (case find_cached p bus msgName sigName of
        None \<Rightarrow> Some None
      | Some (c, frame) \<Rightarrow> getRawBits (deref_msg p c) frame (deref_sig p c))"

text \<open>The destructor deletes what \<open>busDbcFiles\<close> points to; the rest is never freed.\<close>

definition freed :: "can_parsers \<Rightarrow> nat set" where
  "freed p = snd ` set (busDbcFiles p)"

section \<open>Frame keys\<close>

lemma int_and_3: "(i :: int) AND 3 = i mod 4"
proof -
  have "(3 :: int) = mask 2" by (simp add: mask_eq_exp_minus_1)
  then show ?thesis by (simp only: take_bit_eq_mask [symmetric]) (simp add: take_bit_eq_mod)
qed

lemma and_3_idem [simp]: "((i :: int) AND 3) AND 3 = i AND 3"
  by (simp add: int_and_3)

lemma frameKey_masked [simp]: "frameKey (bus AND 3) a = frameKey bus a"
  by (simp add: frameKey_def)

lemma frameKey_address: "ucast (frameKey bus a) = a"
  by (rule bit_word_eqI) (auto simp: frameKey_def bit_simps)

lemma frameKey_bus: "uint (drop_bit 32 (frameKey bus a)) = bus AND 3"
proof -
  have "drop_bit 32 (frameKey bus a) = take_bit 32 (word_of_int (bus AND 3))"
    by (rule bit_word_eqI) (auto simp: frameKey_def bit_simps dest: bit_imp_le_length)
  moreover have "0 \<le> bus AND 3" "bus AND 3 < 4" by (simp_all add: int_and_3)
  ultimately show ?thesis
    by (simp only: unsigned_take_bit_eq uint_word_of_int) (simp add: take_bit_eq_mod)
qed

lemma frameKey_inj: "frameKey b a = frameKey b' a' \<longleftrightarrow> b AND 3 = b' AND 3 \<and> a = a'"
  by (metis frameKey_address frameKey_bus frameKey_def)

section \<open>What the cache resolves\<close>

text \<open>The reference: the last message in address order that has the name and the signal, and
  the last bus, in ascending order, among those that share the two low bits.\<close>

definition resolve :: "nat \<Rightarrow> dbc_file \<Rightarrow> string \<Rightarrow> string \<Rightarrow> cached_signal option" where
  "resolve h d mn sn =
     first_some (\<lambda>(a, m). if m_name m = mn then
           map_option (\<lambda>i. \<lparr>cs_address = m_address m, cs_dbc = h, cs_msg = a, cs_sig = i\<rparr>) (msg_sig m sn)
         else None) (rev (msgs d))"

definition resolve_bus :: "can_parsers \<Rightarrow> int \<Rightarrow> string \<Rightarrow> string \<Rightarrow> cached_signal option" where
  "resolve_bus p bus mn sn =
     first_some (\<lambda>(b, h). if b AND 3 = bus AND 3 then resolve h (dbcs p ! h) mn sn else None)
       (rev (busDbcFiles p))"

text \<open>Names without a colon make the keys unambiguous.\<close>

definition no_colon :: "string \<Rightarrow> bool" where
  "no_colon n \<longleftrightarrow> CHR '':'' \<notin> set n"

lemma ident_no_colon: "is_ident n \<Longrightarrow> no_colon n"
  by (auto simp: is_ident_def no_colon_def isword_def isdigit_def)

lemma signal_key_inj:
  assumes "no_colon m" "no_colon m'"
  shows "signal_key m s = signal_key m' s' \<longleftrightarrow> m = m' \<and> s = s'"
proof
  assume "signal_key m s = signal_key m' s'"
  then have e: "m @ CHR '':'' # CHR '':'' # s = m' @ CHR '':'' # CHR '':'' # s'" by (simp add: signal_key_def)
  have t: "takeWhile (\<lambda>c. c \<noteq> CHR '':'') (n @ CHR '':'' # r) = n" if "no_colon n" for n r
    by (rule takeWhile_stop) (use that in \<open>auto simp: no_colon_def\<close>)
  have "m = m'" using t [OF assms(1)] t [OF assms(2)] e by metis
  then show "m = m' \<and> s = s'" using e by simp
qed simp

lemma fold_upd_other:
  "\<forall>i \<in> set xs. f i \<noteq> k \<Longrightarrow> fold (\<lambda>i c. c(f i \<mapsto> g i)) xs c k = c k"
  by (induction xs arbitrary: c) (simp_all, metis)

lemma fold_upd_one:
  assumes "i \<in> set xs" "f i = k" "\<forall>j \<in> set xs. f j = k \<longrightarrow> j = i"
  shows "fold (\<lambda>i c. c(f i \<mapsto> g i)) xs c k = Some (g i)"
  using assms
proof (induction xs arbitrary: c)
  case (Cons x xs)
  show ?case
  proof (cases "i \<in> set xs")
    case True
    have "\<forall>j \<in> set xs. f j = k \<longrightarrow> j = i" using Cons.prems(3) by simp
    from Cons.IH [OF True Cons.prems(2) this] show ?thesis by (simp only: fold_simps)
  next
    case False
    then have "i = x" "\<forall>j \<in> set xs. f j \<noteq> k" using Cons.prems by auto
    then show ?thesis using Cons.prems(2) by (simp only: fold_simps fold_upd_other) simp
  qed
qed simp

lemma cache_msg_lookup:
  assumes "is_ident (m_name m)" "distinct (map sg_name (sigs m))" "no_colon mn"
  shows "cache_msg h (a, m) c (signal_key mn sn) =
    (case (if m_name m = mn then msg_sig m sn else None) of
       None \<Rightarrow> c (signal_key mn sn)
     | Some i \<Rightarrow> Some \<lparr>cs_address = m_address m, cs_dbc = h, cs_msg = a, cs_sig = i\<rparr>)"
proof -
  have key: "signal_key (m_name m) s = signal_key mn sn \<longleftrightarrow> m_name m = mn \<and> s = sn" for s
    by (rule signal_key_inj [OF ident_no_colon [OF assms(1)] assms(3)])
  show ?thesis
  proof (cases "if m_name m = mn then msg_sig m sn else None")
    case None
    then have "\<forall>i \<in> set [0..<length (sigs m)]. signal_key (m_name m) (sg_name (sigs m ! i)) \<noteq> signal_key mn sn"
      unfolding key by (auto simp: msg_sig_None split: if_splits)
    from fold_upd_other [OF this] show ?thesis unfolding None cache_msg_def by simp
  next
    case (Some i)
    then have i: "m_name m = mn" "i < length (sigs m)" "sg_name (sigs m ! i) = sn"
      using msg_sig_Some [of m sn i] by (auto split: if_splits)
    have "\<forall>j \<in> set [0..<length (sigs m)]. signal_key (m_name m) (sg_name (sigs m ! j)) = signal_key mn sn \<longrightarrow> j = i"
      unfolding key using i assms(2) by (auto simp: distinct_conv_nth)
    from fold_upd_one [OF _ _ this] show ?thesis
      unfolding Some cache_msg_def using i key by simp
  qed
qed

lemma cache_msgs_lookup:
  assumes "\<forall>(a, m) \<in> set ms. is_ident (m_name m) \<and> distinct (map sg_name (sigs m))" "no_colon mn"
  shows "fold (cache_msg h) ms c (signal_key mn sn) =
    (case first_some (\<lambda>(a, m). if m_name m = mn then
           map_option (\<lambda>i. \<lparr>cs_address = m_address m, cs_dbc = h, cs_msg = a, cs_sig = i\<rparr>) (msg_sig m sn)
         else None) (rev ms) of
       None \<Rightarrow> c (signal_key mn sn) | Some x \<Rightarrow> Some x)"
  using assms(1)
proof (induction ms rule: rev_induct)
  case (snoc am ms)
  obtain a m where am: "am = (a, m)" by (cases am)
  have "is_ident (m_name m)" "distinct (map sg_name (sigs m))" using snoc.prems by (simp_all add: am)
  from cache_msg_lookup [OF this assms(2)] snoc show ?case
    by (simp add: am split: option.split)
qed simp

definition parsers_ok :: "can_parsers \<Rightarrow> bool" where
  "parsers_ok p \<longleftrightarrow> (\<forall>d \<in> set (dbcs p). dbc_ok d) \<and> key_sorted (busDbcFiles p)
     \<and> (\<forall>h \<in> snd ` set (busDbcFiles p). h < length (dbcs p)) \<and> key_sorted (latestFrames p)"

lemma cache_dbc_lookup:
  assumes "dbc_ok d" "no_colon mn"
  shows "cache_dbc h d c (signal_key mn sn) =
    (case resolve h d mn sn of None \<Rightarrow> c (signal_key mn sn) | Some x \<Rightarrow> Some x)"
proof -
  have "\<forall>(a, m) \<in> set (msgs d). is_ident (m_name m) \<and> distinct (map sg_name (sigs m))"
  proof (intro ballI, clarify)
    fix a m assume "(a, m) \<in> set (msgs d)"
    then have "map_of (msgs d) a = Some m"
      using assms(1) smap.entries_lookup [of "msgs d" a m] by (simp add: dbc_ok_def msgs_ok_def)
    then show "is_ident (m_name m) \<and> distinct (map sg_name (sigs m))"
      using assms(1) by (auto simp: dbc_ok_def msgs_ok_def msg_ok_def)
  qed
  from cache_msgs_lookup [OF this assms(2)] show ?thesis
    by (simp add: cache_dbc_def resolve_def dbc_getMessages_def)
qed

lemma build_fold_lookup:
  assumes "\<forall>(b, h) \<in> set bs. dbc_ok (ds ! h)" "no_colon mn"
  shows "Option.bind (map_of (fold (\<lambda>(bus, h) bc.
            let c = (case map_of bc (bus AND 3) of None \<Rightarrow> Map.empty | Some c \<Rightarrow> c)
            in ins_key (bus AND 3) (cache_dbc h (ds ! h) c) bc) bs []) (bus AND 3)) (\<lambda>c. c (signal_key mn sn)) =
    first_some (\<lambda>(b, h). if b AND 3 = bus AND 3 then resolve h (ds ! h) mn sn else None) (rev bs)"
  using assms(1)
proof (induction bs rule: rev_induct)
  case (snoc x bs)
  obtain b h where x: "x = (b, h)" by (cases x)
  have "dbc_ok (ds ! h)" using snoc.prems by (simp add: x)
  note l = cache_dbc_lookup [OF this assms(2)]
  show ?case
  proof (cases "b AND 3 = bus AND 3")
    case True
    then show ?thesis using snoc l by (auto simp: x Let_def bind_eq_Some_conv split: option.splits)
  next
    case False
    then show ?thesis using snoc by (simp add: x Let_def)
  qed
qed simp

lemma buildCache_lookup:
  assumes "parsers_ok p" "no_colon mn"
  shows "Option.bind (map_of (busSignalCache (buildCache p)) (bus AND 3)) (\<lambda>c. c (signal_key mn sn))
    = resolve_bus p bus mn sn"
proof -
  have "\<forall>(b, h) \<in> set (busDbcFiles p). dbc_ok (dbcs p ! h)"
    using assms(1) by (fastforce simp: parsers_ok_def)
  from build_fold_lookup [OF this assms(2)] show ?thesis by (simp add: buildCache_def resolve_bus_def)
qed

section \<open>Frame stores\<close>

text \<open>
  The contract between the frame handler and the readers of signals: a read depends on the frames
  received only through the last one with the signal's address on the masked bus.
\<close>

definition apply_frame :: "(int \<Rightarrow> u32 \<Rightarrow> bytes \<Rightarrow> 's \<Rightarrow> 's) \<Rightarrow> int \<times> u32 \<times> bytes \<Rightarrow> 's \<Rightarrow> 's" where
  "apply_frame upd f = (case f of (b, a, d) \<Rightarrow> upd b a d)"

definition concerns :: "u32 option \<Rightarrow> int \<Rightarrow> int \<times> u32 \<times> bytes \<Rightarrow> bool" where
  "concerns addr bus f \<longleftrightarrow> fst f AND 3 = bus AND 3 \<and> addr = Some (fst (snd f))"

locale frame_store =
  fixes upd :: "int \<Rightarrow> u32 \<Rightarrow> bytes \<Rightarrow> 's \<Rightarrow> 's"
    and read :: "'s \<Rightarrow> int \<Rightarrow> string \<Rightarrow> string \<Rightarrow> 'v"
    and address :: "'s \<Rightarrow> int \<Rightarrow> string \<Rightarrow> string \<Rightarrow> u32 option"
  assumes address_upd: "address (upd b a d s) = address s"
    and read_other: "\<not> concerns (address s bus m n) bus (b, a, d) \<Longrightarrow> read (upd b a d s) bus m n = read s bus m n"
    and read_last: "concerns (address s bus m n) bus (b, a, d) \<Longrightarrow>
      read (upd b a d (upd b' a' d' s)) bus m n = read (upd b a d s) bus m n"
begin

lemma address_history: "address (fold (apply_frame upd) fs s) = address s"
  by (induction fs arbitrary: s) (simp_all add: apply_frame_def address_upd split: prod.splits)

lemma read_after:
  "concerns (address s bus m n) bus f \<Longrightarrow>
   read (apply_frame upd f (fold (apply_frame upd) fs s)) bus m n = read (apply_frame upd f s) bus m n"
proof (induction fs arbitrary: s)
  case (Cons g fs)
  then show ?case
    by (cases f; cases g) (simp add: apply_frame_def address_upd read_last)
qed simp

lemma read_history:
  "read (fold (apply_frame upd) fs s) bus m n =
     (if filter (concerns (address s bus m n) bus) fs = [] then read s bus m n
      else read (apply_frame upd (last (filter (concerns (address s bus m n) bus) fs)) s) bus m n)"
proof (induction fs rule: rev_induct)
  case (snoc f fs)
  show ?case
  proof (cases "concerns (address s bus m n) bus f")
    case True
    then show ?thesis using read_after [of s bus m n f fs] by simp
  next
    case False
    then have "read (fold (apply_frame upd) (fs @ [f]) s) bus m n = read (fold (apply_frame upd) fs s) bus m n"
      using read_other [of "fold (apply_frame upd) fs s" bus m n] address_history
      by (cases f) (simp add: apply_frame_def)
    then show ?thesis using snoc False by simp
  qed
qed simp

end

definition cached_address :: "can_parsers \<Rightarrow> int \<Rightarrow> string \<Rightarrow> string \<Rightarrow> u32 option" where
  "cached_address p bus m n =
     do { cache \<leftarrow> map_of (busSignalCache p) (bus AND 3); c \<leftarrow> cache (signal_key m n); Some (cs_address c) }"

lemma updateFrame_simps [simp]:
  "busSignalCache (updateFrame b a d p) = busSignalCache p" "dbcs (updateFrame b a d p) = dbcs p"
  "busDbcFiles (updateFrame b a d p) = busDbcFiles p"
  "map_of (latestFrames (updateFrame b a d p)) k = (if k = frameKey b a then Some d else map_of (latestFrames p) k)"
  by (simp_all add: updateFrame_def)

lemma deref_updateFrame [simp]: "deref_msg (updateFrame b a d p) = deref_msg p" "deref_sig (updateFrame b a d p) = deref_sig p"
  by (simp_all add: deref_msg_def deref_sig_def fun_eq_iff)

lemma cached_address_updateFrame [simp]: "cached_address (updateFrame b a d p) = cached_address p"
  by (simp add: cached_address_def fun_eq_iff)

lemma find_cached_other:
  "\<not> concerns (cached_address p bus m n) bus (b, a, d) \<Longrightarrow> find_cached (updateFrame b a d p) bus m n = find_cached p bus m n"
  by (auto simp: find_cached_def cached_address_def concerns_def frameKey_inj Let_def split: bind_splits)

lemma find_cached_last:
  "concerns (cached_address p bus m n) bus (b, a, d) \<Longrightarrow>
   find_cached (updateFrame b a d (updateFrame b' a' d' p)) bus m n = find_cached (updateFrame b a d p) bus m n"
  by (auto simp: find_cached_def cached_address_def concerns_def frameKey_inj Let_def split: bind_splits)

interpretation frames: frame_store updateFrame cp_get cached_address
  by unfold_locales (auto simp: cp_get_def find_cached_other find_cached_last split: option.split prod.split)

interpretation raw_frames: frame_store updateFrame cp_getRaw cached_address
  by unfold_locales (auto simp: cp_getRaw_def find_cached_other find_cached_last split: option.split prod.split)

section \<open>Reading a signal\<close>

definition cache_current :: "can_parsers \<Rightarrow> bool" where
  "cache_current p \<longleftrightarrow> busSignalCache p = busSignalCache (buildCache p)"

lemma cache_current_buildCache: "cache_current (buildCache p)"
  by (simp add: cache_current_def buildCache_def)

lemma cache_current_updateFrame: "cache_current p \<Longrightarrow> cache_current (updateFrame b a d p)"
  by (simp add: cache_current_def buildCache_def)

lemma parsers_ok_init: "parsers_ok parsers_init"
  by (simp add: parsers_ok_def parsers_init_def)

lemma parsers_ok_buildCache: "parsers_ok p \<Longrightarrow> parsers_ok (buildCache p)"
  by (simp add: parsers_ok_def buildCache_def)

lemma parsers_ok_updateFrame: "parsers_ok p \<Longrightarrow> parsers_ok (updateFrame b a d p)"
  by (simp add: parsers_ok_def updateFrame_def key_sorted_ins_key)

lemma parsers_ok_addBus:
  assumes "addBus dm b c p = Some (Inr p')" "parsers_ok p"
  shows "parsers_ok p'"
proof -
  obtain d where d: "dbc_from_content dm (''bus_'' @ int_str b) c = Some (Inr d)"
    "p' = p\<lparr>dbcs := dbcs p @ [d], busDbcFiles := ins_key b (length (dbcs p)) (busDbcFiles p)\<rparr>"
    using assms(1) by (auto simp: addBus_def split: bind_splits sum.splits)
  have "dbc_ok d" using d(1) parse_dbc_ok(1) by (auto simp: dbc_from_content_def)
  moreover have "h < Suc (length (dbcs p))" if h: "h \<in> snd ` set (ins_key b (length (dbcs p)) (busDbcFiles p))" for h
  proof -
    have sorted: "key_sorted (busDbcFiles p)" using assms(2) by (simp add: parsers_ok_def)
    obtain k where "(k, h) \<in> set (ins_key b (length (dbcs p)) (busDbcFiles p))" using h by auto
    then have "k = b \<and> h = length (dbcs p) \<or> (k, h) \<in> set (busDbcFiles p)"
      unfolding smap.entries_lookup [OF key_sorted_ins_key [OF sorted]] smap.entries_lookup [OF sorted]
      by (auto split: if_splits)
    then show ?thesis using assms(2) by (force simp: parsers_ok_def)
  qed
  ultimately show ?thesis using assms(2) by (auto simp: d(2) parsers_ok_def key_sorted_ins_key)
qed

lemma find_cached_current:
  assumes "parsers_ok p" "cache_current p" "no_colon mn"
  shows "find_cached p bus mn sn =
    do { c \<leftarrow> resolve_bus p bus mn sn; fr \<leftarrow> map_of (latestFrames p) (frameKey bus (cs_address c)); Some (c, fr) }"
    "cached_address p bus mn sn = map_option cs_address (resolve_bus p bus mn sn)"
proof -
  note l = buildCache_lookup [OF assms(1,3), of bus sn]
  then show "find_cached p bus mn sn =
    do { c \<leftarrow> resolve_bus p bus mn sn; fr \<leftarrow> map_of (latestFrames p) (frameKey bus (cs_address c)); Some (c, fr) }"
    using assms(2) unfolding cache_current_def find_cached_def Let_def
    by (cases "map_of (busSignalCache (buildCache p)) (bus AND 3)") auto
  from l show "cached_address p bus mn sn = map_option cs_address (resolve_bus p bus mn sn)"
    using assms(2) unfolding cache_current_def cached_address_def
    by (cases "map_of (busSignalCache (buildCache p)) (bus AND 3)") (auto simp: map_conv_bind_option comp_def)
qed

lemma first_some_unique:
  "x \<in> set xs \<Longrightarrow> f x = Some y \<Longrightarrow> \<forall>z \<in> set xs. f z = None \<or> f z = Some y \<Longrightarrow> first_some f xs = Some y"
  by (induction xs) (auto split: option.splits)

lemma resolve_unique:
  assumes "dbc_ok d" "(a, m) \<in> set (msgs d)" "\<forall>(a', m') \<in> set (msgs d). m_name m' = m_name m \<longrightarrow> a' = a"
    and "i < length (sigs m)"
  shows "resolve h d (m_name m) (sg_name (sigs m ! i)) = Some \<lparr>cs_address = a, cs_dbc = h, cs_msg = a, cs_sig = i\<rparr>"
proof -
  have sorted: "key_sorted (msgs d)" using assms(1) by (simp add: dbc_ok_def msgs_ok_def)
  note entries = smap.entries_lookup [OF sorted]
  have am: "map_of (msgs d) a = Some m" using assms(2) entries by simp
  then have ok: "msg_ok a m" using assms(1) by (simp add: dbc_ok_def msgs_ok_def)
  have sig: "msg_sig m (sg_name (sigs m ! i)) = Some i"
    using ok assms(4) by (auto simp: msg_sig_def find_index_Some msg_ok_def nth_eq_iff_index_eq distinct_conv_nth)
  let ?f = "\<lambda>(a, m'). if m_name m' = m_name m then
      map_option (\<lambda>i. \<lparr>cs_address = m_address m', cs_dbc = h, cs_msg = a, cs_sig = i\<rparr>)
        (msg_sig m' (sg_name (sigs m ! i))) else None"
  have "first_some ?f (rev (msgs d)) = Some \<lparr>cs_address = a, cs_dbc = h, cs_msg = a, cs_sig = i\<rparr>"
  proof (rule first_some_unique [of "(a, m)"])
    show "?f (a, m) = Some \<lparr>cs_address = a, cs_dbc = h, cs_msg = a, cs_sig = i\<rparr>"
      using sig ok by (simp add: msg_ok_def)
    have "m' = m" if "(a, m') \<in> set (msgs d)" for m' using that entries am by simp
    then show "\<forall>z \<in> set (rev (msgs d)). ?f z = None \<or> ?f z = Some \<lparr>cs_address = a, cs_dbc = h, cs_msg = a, cs_sig = i\<rparr>"
      using assms(3) sig ok by (fastforce simp: msg_ok_def)
  qed (use assms(2) in simp)
  then show ?thesis by (simp add: resolve_def)
qed

lemma resolve_bus_unique:
  assumes "parsers_ok p" "(b, h) \<in> set (busDbcFiles p)" "b AND 3 = bus AND 3"
    and "\<forall>(b', h') \<in> set (busDbcFiles p). b' AND 3 = bus AND 3 \<longrightarrow> b' = b"
    and "resolve h (dbcs p ! h) mn sn = Some c"
  shows "resolve_bus p bus mn sn = Some c"
  unfolding resolve_bus_def
proof (rule first_some_unique [of "(b, h)"])
  have "key_sorted (busDbcFiles p)" using assms(1) by (simp add: parsers_ok_def)
  then have "h' = h" if "(b, h') \<in> set (busDbcFiles p)" for h'
    using that assms(2) smap.entries_lookup by (metis option.inject)
  then show "\<forall>z \<in> set (rev (busDbcFiles p)). (case z of (b, h) \<Rightarrow> if b AND 3 = bus AND 3 then resolve h (dbcs p ! h) mn sn else None) = None
    \<or> (case z of (b, h) \<Rightarrow> if b AND 3 = bus AND 3 then resolve h (dbcs p ! h) mn sn else None) = Some c"
    using assms(4,5) by fastforce
qed (use assms in simp_all)

end
