(* ===== verification/DbcProps.thy ===== *)
theory DbcProps
  imports CanParsers
begin

text \<open>
  The properties of the signal decoder, of the message layout and of the DBC parser
  (\<open>bridge/dbc\<close>), each with a concrete instance where it has hypotheses.
\<close>

section \<open>Signals\<close>

definition ex_be :: signal where
  "ex_be = signal_init\<lparr>sg_name := ''S'', start_bit := 3, sg_msb := 3, sg_lsb := 8, sg_size := 12, is_signed := True,
     receiver_name := ''XXX''\<rparr>"

definition ex_le :: signal where
  "ex_le = signal_init\<lparr>sg_name := ''U'', start_bit := 4, sg_msb := 15, sg_lsb := 4, sg_size := 12, is_little_endian := True,
     receiver_name := ''XXX''\<rparr>"

definition ex_64 :: signal where
  "ex_64 = signal_init\<lparr>sg_name := ''W'', start_bit := 0, sg_msb := 63, sg_lsb := 0, sg_size := 64, is_signed := True,
     is_little_endian := True\<rparr>"

lemmas ex_defs = ex_be_def ex_le_def ex_64_def signal_init_def

lemma ex_wf: "wf_signal ex_be" "wf_signal ex_le" "wf_signal ex_64"
  by (simp_all add: wf_signal_def updateMsbLsb_fix int_range_def ex_defs flipBitPos_def Let_def)

lemma all_less_12: "(\<forall>k < 12. P k) \<longleftrightarrow> list_all P [0..<12 :: nat]"
  by (auto simp: list_all_iff)

lemma ex_fits: "fits [0x0F, 0xFE] ex_be" "fits [0x30, 0x12] ex_le"
  by (auto simp: fits_def sig_pos_def flip_def ex_defs all_less_12 upt_rec)

text \<open>
  C1. The raw bits of a signal. For a well-formed signal that lies within the payload,
  \<open>get_raw_bits\<close> returns the word whose bit \<open>k\<close> is the payload bit at the \<open>k\<close>-th position of
  the signal (counted from its least significant bit, in Intel or Motorola order), and whose
  bits from the signal's size on are clear.
\<close>
theorem raw_bits_correct:
  assumes "wf_signal sg" "fits data sg"
  shows "\<exists>v. get_raw_bits data sg = Some v
    \<and> (\<forall>k. bit v k \<longleftrightarrow> k < sig_bits sg \<and> payload_bit data (sig_pos sg k))"
proof -
  have "sig_bits sg \<le> 64" using assms(1) by (rule wf_signal_ends)
  then show ?thesis using get_raw_bits_fits [OF assms] bit_raw_spec by blast
qed

lemma raw_bits_correct_witness:
  "(\<exists>v. get_raw_bits [0x0F, 0xFE] ex_be = Some v
    \<and> (\<forall>k. bit v k \<longleftrightarrow> k < sig_bits ex_be \<and> payload_bit [0x0F, 0xFE] (sig_pos ex_be k)))
   \<and> get_raw_bits [0x0F, 0xFE] ex_be = Some 0xFFE"
  by (intro conjI raw_bits_correct [OF ex_wf(1) ex_fits(1)]) code_simp

text \<open>
  C2. The value of a signal without scaling. For a well-formed signal of at most 53 bits with
  factor one and offset zero, \<open>get_raw_value\<close> returns a finite double whose value is
  exactly the two's complement (signed) or the binary (unsigned) integer held by the payload.
\<close>
theorem raw_value_exact:
  assumes "wf_signal sg" "fits data sg" "sg_size sg \<le> 53" "factor sg = f_one" "offset sg = 0"
  shows "\<exists>x. get_raw_value data sg = Some x \<and> is_finite x \<and> f_val x = real_of_int (sig_int data sg)
    \<and> (if is_signed sg then - (2 ^ (sig_bits sg - 1)) \<le> sig_int data sg \<and> sig_int data sg < 2 ^ (sig_bits sg - 1)
       else 0 \<le> sig_int data sg \<and> sig_int data sg < 2 ^ sig_bits sg)"
proof -
  let ?i = "sig_int data sg" and ?n = "sig_bits sg"
  have range: "if is_signed sg then - (2 ^ (?n - 1)) \<le> ?i \<and> ?i < 2 ^ (?n - 1) else 0 \<le> ?i \<and> ?i < 2 ^ ?n"
    using sig_int_range [OF assms(1)] assms(3) by simp
  have n: "?n \<le> 53" using assms(3) by simp
  then have "(2 :: int) ^ ?n \<le> 2 ^ 53" "(2 :: int) ^ (?n - 1) \<le> 2 ^ 53"
    by (intro power_increasing; simp)+
  then have "\<bar>?i\<bar> \<le> 2 ^ 53" using range by (cases "is_signed sg") (simp_all only: if_True if_False, linarith+)
  note exact = f_of_int_exact [OF this]
  let ?x = "f_add (f_mul (f_of_int ?i) (factor sg)) (offset sg)"
  have x: "?x = (if f_mag (f_of_int ?i) = 0 then 0 else f_of_int ?i)"
    using exact(1) assms(4,5) by (simp add: f_add_zero)
  have "f_mag (f_of_int ?i) = 0 \<Longrightarrow> ?i = 0"
    using exact(2) by (simp add: f_val_def split: if_splits)
  moreover have "is_finite 0" "f_val 0 = 0" by (simp_all add: f_val_def is_finite_def f_mag_def inf_mag_def)
  ultimately have "is_finite ?x \<and> f_val ?x = real_of_int ?i" using x exact by simp
  moreover have "get_raw_value data sg = Some ?x"
    using get_raw_value_fits [OF assms(1) _ assms(2)] assms(3) by simp
  ultimately show ?thesis using range by blast
qed

lemma raw_value_exact_witness:
  "\<exists>x. get_raw_value [0x0F, 0xFE] ex_be = Some x \<and> is_finite x \<and> f_val x = - 2"
proof -
  have "sig_int [0x0F, 0xFE] ex_be = - 2" by code_simp
  then show ?thesis
    using raw_value_exact [OF ex_wf(1) ex_fits(1)] by (simp add: ex_defs)
qed

text \<open>
  C3. Payloads of any length. A well-formed signal decodes whatever the length of the
  payload, the result never has a bit from the signal's size on, and a payload that does not
  reach the byte of the most significant bit decodes to zero.
\<close>
theorem raw_bits_any_payload:
  assumes "wf_signal sg"
  shows "\<exists>v. get_raw_bits data sg = Some v \<and> (\<forall>k. bit v k \<longrightarrow> k < sig_bits sg)
    \<and> (length data \<le> sig_pos sg (sig_bits sg - 1) div 8 \<longrightarrow> v = 0)"
proof -
  have "length data \<le> sig_pos sg (sig_bits sg - 1) div 8 \<Longrightarrow> get_raw_bits data sg = Some 0"
    using get_raw_bits_short msb_byte [OF assms] by simp
  then show ?thesis using get_raw_bits_total [OF assms, of data] by fastforce
qed

lemma raw_bits_any_payload_witness:
  "\<exists>v. get_raw_bits [0x0F] ex_be = Some v \<and> (\<forall>k. bit v k \<longrightarrow> k < 12)
    \<and> (length ([0x0F] :: bytes) \<le> sig_pos ex_be 11 div 8 \<longrightarrow> v = 0)"
  using raw_bits_any_payload [OF ex_wf(1), of "[0x0F]"] by (simp add: ex_defs)

text \<open>
  C4. Truncated Motorola signals. When the payload ends inside a big-endian signal, the bits
  that arrived are returned moved to the least significant end: the result is the full
  signal's value (for any continuation of the payload) shifted right by the number \<open>r\<close> of missing bits.
\<close>
theorem raw_bits_truncated_motorola:
  assumes "wf_signal sg" "\<not> is_little_endian sg" "sig_pos sg (sig_bits sg - 1) div 8 < length data"
  shows "\<exists>r. r \<le> sig_bits sg \<and> (0 < r \<longrightarrow> length data \<le> sig_pos sg (r - 1) div 8)
    \<and> (\<forall>pad. length data + length pad = 64 \<longrightarrow>
         get_raw_bits data sg = Some (drop_bit r (raw_spec (data @ pad) sg)))"
proof -
  have "sg_msb sg sdiv 8 < int (length data)" using assms(3) msb_byte [OF assms(1)] by simp
  then show ?thesis by (rule get_raw_bits_be_truncated [OF assms(1,2)]) blast
qed

lemma raw_bits_truncated_motorola_witness:
  "(\<exists>r. r \<le> 12 \<and> (0 < r \<longrightarrow> length ([0x0F] :: bytes) \<le> sig_pos ex_be (r - 1) div 8)
    \<and> (\<forall>pad. length ([0x0F] :: bytes) + length pad = 64 \<longrightarrow>
         get_raw_bits [0x0F] ex_be = Some (drop_bit r (raw_spec ([0x0F] @ pad) ex_be))))
   \<and> get_raw_bits [0x0F] ex_be = Some 0x0F"
proof
  have "sig_pos ex_be (sig_bits ex_be - 1) div 8 < length ([0x0F] :: bytes)" by code_simp
  then show "\<exists>r. r \<le> 12 \<and> (0 < r \<longrightarrow> length ([0x0F] :: bytes) \<le> sig_pos ex_be (r - 1) div 8)
    \<and> (\<forall>pad. length ([0x0F] :: bytes) + length pad = 64 \<longrightarrow>
         get_raw_bits [0x0F] ex_be = Some (drop_bit r (raw_spec ([0x0F] @ pad) ex_be)))"
    using raw_bits_truncated_motorola [OF ex_wf(1), of "[0x0F]"] by (simp add: ex_defs)
  show "get_raw_bits [0x0F] ex_be = Some 0x0F" by code_simp
qed

text \<open>
  C5. Sign extension of a 64-bit signal. A signed signal of 64 bits whose sign bit is set has no
  defined value: the code computes \<open>1ULL << 64\<close>.
\<close>
theorem signed_64_negative_undefined:
  assumes "wf_signal sg" "fits data sg" "is_signed sg" "sg_size sg = 64"
    and "payload_bit data (sig_pos sg 63)"
  shows "get_raw_value data sg = None"
proof -
  let ?v = "raw_spec data sg"
  have "bit ?v 63" using bit_raw_spec [of sg data 63] assms(4,5) by simp
  then have "bit (?v AND push_bit 63 1) 63" by (simp add: bit_simps)
  then have "?v AND push_bit 63 1 \<noteq> 0" by force
  then show ?thesis
    using get_raw_bits_fits [OF assms(1,2)] assms(3,4) by (simp add: get_raw_value_def sign_extend_def shl1_def)
qed

lemma fits_64: "fits [0, 0, 0, 0, 0, 0, 0, 0x80] ex_64"
  by (auto simp: fits_def sig_pos_def ex_defs)

lemma signed_64_negative_undefined_witness:
  "get_raw_value [0, 0, 0, 0, 0, 0, 0, 0x80] ex_64 = None"
proof -
  have "payload_bit [0, 0, 0, 0, 0, 0, 0, 0x80] (sig_pos ex_64 63)" by code_simp
  then show ?thesis
    using signed_64_negative_undefined [OF ex_wf(3) fits_64] by (simp add: ex_defs)
qed

section \<open>Messages\<close>

definition ex_msg :: msg where
  "ex_msg = msg_init\<lparr>m_address := 257, m_name := ''DI'', m_size := 2, sigs := [ex_le, ex_be]\<rparr>"

text \<open>
  C6. The layout of a message. If every signal of a message has a position and size the code
  can work with and lies within the message, then \<open>Msg::update\<close> returns: it keeps the
  signals (up to their order) with every field, settled: empty receivers get the default name, and only in a message with a
  multiplexor are signals multiplexed; it establishes the invariant of messages (receiver and transmitter
  named, multiplexed signals linked to the multiplexor), makes every signal well-formed, and the mask has exactly the
  bits that some signal covers.
\<close>
theorem msg_update_layout:
  assumes "\<forall>s \<in> set (sigs m). sig_ok s \<and> fits_size (unat (m_size m)) s"
  shows "\<exists>m'. msg_update m = Some m' \<and> msg_inv m' \<and> mset (map layout (sigs m')) = mset (map layout (sigs m))
    \<and> mset (map sig_content (sigs m')) = mset (map (settled (has_multiplexor m)) (sigs m))
    \<and> (\<forall>s \<in> set (sigs m'). wf_signal s)
    \<and> (\<forall>q. payload_bit (m_mask m') q \<longleftrightarrow> (\<exists>s \<in> set (sigs m'). covers s q))"
proof -
  have ok: "\<forall>s \<in> set (sigs m). sig_ok s" and fit: "\<forall>s \<in> set (sigs m). fits_size (unat (m_size m)) s"
    using assms by blast+
  show ?thesis by (rule msg_update_ok [OF ok]) (use fit msg_update_inv msg_update_settled(1) in blast)
qed

lemma ex_msg_sigs: "\<forall>s \<in> set (sigs ex_msg). sig_ok s \<and> fits_size (unat (m_size ex_msg)) s"
proof -
  have "fits_size 2 ex_be" "fits_size 2 ex_le"
    using ex_fits fits_size_fits [of "[0x0F, 0xFE]" ex_be] fits_size_fits [of "[0x30, 0x12]" ex_le]
    by (simp_all add: numeral_2_eq_2)
  then show ?thesis by (simp add: ex_msg_def sig_ok_def ex_defs msg_init_def)
qed

lemma msg_update_layout_witness:
  "\<exists>m'. msg_update ex_msg = Some m' \<and> msg_inv m' \<and> mset (map layout (sigs m')) = {#layout ex_le, layout ex_be#}
    \<and> (\<forall>s \<in> set (sigs m'). wf_signal s)
    \<and> (\<forall>q. payload_bit (m_mask m') q \<longleftrightarrow> (\<exists>s \<in> set (sigs m'). covers s q))"
proof -
  have "sigs ex_msg = [ex_le, ex_be]" by (simp add: ex_msg_def msg_init_def)
  then show ?thesis using msg_update_layout [OF ex_msg_sigs] by auto
qed

text \<open>
  C7. Editing a message. On a message that satisfies the invariant, \<open>addSignal\<close>,
  \<open>removeSignal\<close> and \<open>updateSignal\<close> keep it, and change the collection of signal names by
  exactly the edit (nothing, when the signal to remove or to replace is not there).
\<close>
theorem signal_edits:
  assumes "msg_inv m"
  shows "(\<forall>m'. addSignal m s = Some m' \<longrightarrow>
      msg_inv m' \<and> mset (map sg_name (sigs m')) = add_mset (sg_name s) (mset (map sg_name (sigs m))))
    \<and> (\<forall>m'. removeSignal m n = Some m' \<longrightarrow>
      msg_inv m' \<and> mset (map sg_name (sigs m')) = mset (map sg_name (sigs m)) - {#n#})
    \<and> (\<forall>m'. updateSignal m n s = Some m' \<longrightarrow>
      msg_inv m' \<and> mset (map sg_name (sigs m')) =
        (if n \<in> sg_name ` set (sigs m) then add_mset (sg_name s) (mset (map sg_name (sigs m)) - {#n#})
         else mset (map sg_name (sigs m))))"
  using addSignal_names removeSignal_names [OF _ assms] updateSignal_names [OF _ assms] by blast

definition ex_m :: msg where "ex_m = the (msg_update ex_msg)"

lemma ex_m: "msg_update ex_msg = Some ex_m" "msg_inv ex_m" "map sg_name (sigs ex_m) = [''S'', ''U'']"
proof -
  have "msg_update ex_msg \<noteq> None" by code_simp
  then show "msg_update ex_msg = Some ex_m" by (simp add: ex_m_def)
  then show "msg_inv ex_m" by (rule msg_update_inv)
  show "map sg_name (sigs ex_m) = [''S'', ''U'']" by code_simp
qed

lemma signal_edits_witness:
  "(\<exists>m. addSignal ex_m ex_64 = Some m \<and> mset (map sg_name (sigs m)) = {#''W'', ''S'', ''U''#})
   \<and> (\<exists>m. removeSignal ex_m ''S'' = Some m \<and> mset (map sg_name (sigs m)) = {#''U''#})
   \<and> (\<exists>m. updateSignal ex_m ''S'' ex_64 = Some m \<and> mset (map sg_name (sigs m)) = {#''W'', ''U''#})"
proof -
  have "addSignal ex_m ex_64 \<noteq> None" "removeSignal ex_m ''S'' \<noteq> None" "updateSignal ex_m ''S'' ex_64 \<noteq> None"
    by code_simp+
  moreover have "''S'' \<in> sg_name ` set (sigs ex_m)" "sg_name ex_64 = ''W''" by code_simp+
  ultimately show ?thesis
    using signal_edits [OF ex_m(2), of ex_64 "''S''"] by (auto simp: ex_m(3))
qed

text \<open>
  C8. New signal names. \<open>newSignalName\<close> always returns: the name is \<open>NEW_SIGNAL_k\<close> for the
  least positive \<open>k\<close> whose name no signal of the message has.
\<close>
theorem newSignalName_least_free:
  "\<exists>k \<ge> 1. newSignalName m = Some (''NEW_SIGNAL_'' @ nat_str k)
    \<and> ''NEW_SIGNAL_'' @ nat_str k \<notin> sg_name ` set (sigs m)
    \<and> (\<forall>j \<in> {1..<k}. ''NEW_SIGNAL_'' @ nat_str j \<in> sg_name ` set (sigs m))"
  using newSignalName_least [of m] unfolding msg_sig_None by (metis atLeastLessThan_iff)

lemma newSignalName_least_free_witness:
  "newSignalName (msg_init\<lparr>sigs := [signal_init\<lparr>sg_name := ''NEW_SIGNAL_1''\<rparr>]\<rparr>) = Some ''NEW_SIGNAL_2''
   \<and> (\<exists>k \<ge> 1. newSignalName ex_m = Some (''NEW_SIGNAL_'' @ nat_str k))"
proof
  show "newSignalName (msg_init\<lparr>sigs := [signal_init\<lparr>sg_name := ''NEW_SIGNAL_1''\<rparr>]\<rparr>) = Some ''NEW_SIGNAL_2''"
    by code_simp
  show "\<exists>k \<ge> 1. newSignalName ex_m = Some (''NEW_SIGNAL_'' @ nat_str k)"
    using newSignalName_least_free [of ex_m] by blast
qed

text \<open>
  C9. Multiplexed signals. In an updated message the signals linked to a multiplexor are
  exactly the multiplexed ones, and reading one yields its own value when the multiplexor's decoded
  value equals the signal's multiplex value, and no value otherwise.
\<close>
theorem multiplexed_read:
  assumes "msg_update m = Some m'" "s \<in> set (sigs m')" "sg_type s = Multiplexed"
    and "\<forall>t \<in> set (sigs m'). get_raw_value data t \<noteq> None"
  shows "\<exists>j v w. m_multiplexor m' = Some j \<and> j < length (sigs m') \<and> sg_type (sigs m' ! j) = Multiplexor
    \<and> get_raw_value data (sigs m' ! j) = Some v \<and> get_raw_value data s = Some w
    \<and> getValue m' data s = Some (if f_eq v (f_of_int (multiplex_value s)) then Some w else None)"
proof -
  have inv: "msg_inv m'" using assms(1) by (rule msg_update_inv)
  then obtain j where j: "m_multiplexor m' = Some j" "multiplexor s = Some j"
    using assms(2,3) by (auto simp: msg_inv_def linked_def)
  then have "j < length (sigs m')" "sg_type (sigs m' ! j) = Multiplexor" using inv by (auto simp: msg_inv_def)
  moreover then obtain v w where "get_raw_value data (sigs m' ! j) = Some v" "get_raw_value data s = Some w"
    using assms(2,4) by (metis nth_mem option.exhaust)
  ultimately show ?thesis using j getValue_mux [OF j(2)] by auto
qed

definition ex_mux_msg :: msg where
  "ex_mux_msg = msg_init\<lparr>m_name := ''MX'', m_size := 2, sigs :=
     [ex_le\<lparr>sg_name := ''I'', start_bit := 0, sg_size := 4, sg_type := Multiplexor\<rparr>,
      ex_le\<lparr>sg_name := ''V'', start_bit := 8, sg_size := 8, sg_type := Multiplexed, multiplex_value := 3\<rparr>]\<rparr>"

definition ex_mux :: msg where "ex_mux = the (msg_update ex_mux_msg)"

lemma ex_mux_update: "msg_update ex_mux_msg = Some ex_mux"
proof -
  have "msg_update ex_mux_msg \<noteq> None" by code_simp
  then show ?thesis by (simp add: ex_mux_def)
qed

lemma multiplexed_read_witness:
  "\<exists>j v w. m_multiplexor ex_mux = Some j \<and> get_raw_value [3, 9] (sigs ex_mux ! j) = Some v
    \<and> get_raw_value [3, 9] (sigs ex_mux ! 1) = Some w
    \<and> getValue ex_mux [3, 9] (sigs ex_mux ! 1)
      = Some (if f_eq v (f_of_int (multiplex_value (sigs ex_mux ! 1))) then Some w else None)"
proof -
  note u = ex_mux_update
  have n: "1 < length (sigs ex_mux)" "sg_type (sigs ex_mux ! 1) = Multiplexed" by code_simp+
  have "\<forall>t \<in> set (sigs ex_mux_msg). sig_ok t" by (simp add: ex_mux_msg_def sig_ok_def ex_defs)
  then obtain m' where "msg_update ex_mux_msg = Some m'" "\<forall>s \<in> set (sigs m'). wf_signal s"
    by (rule msg_update_ok) blast
  then have wf: "\<forall>t \<in> set (sigs ex_mux). wf_signal t" using u by simp
  have "\<forall>t \<in> set (sigs ex_mux). \<not> is_signed t" by code_simp
  then have "\<forall>t \<in> set (sigs ex_mux). get_raw_value [3, 9] t \<noteq> None"
    using get_raw_value_total wf by (metis option.distinct(1))
  then show ?thesis using multiplexed_read [OF u _ n(2)] n(1) by (metis nth_mem)
qed

text \<open>
  C10. Copying a message. Assigning one message to a different one returns whenever the signals of the source have positions
  and sizes the code can work with. The source is left as it was, and the target gets the source's address, name, size, comment,
  transmitter and signals (up to their order), with every field of every signal, settled as an update does: empty names of
  transmitter and receivers become the default one, multiplexed signals of a message without a multiplexor normal ones. When the source
  was updated before, the copies are exactly its signals. The copies are well-formed, and linked to the multiplexor of the target.
\<close>
theorem msg_assign_copies:
  assumes "this \<noteq> other" "\<forall>s \<in> set (sigs (st other)). sig_ok s"
  shows "\<exists>st'. msg_assign st this other = Some st' \<and> (\<forall>x. x \<noteq> this \<longrightarrow> st' x = st x) \<and> msg_inv (st' this)
    \<and> m_address (st' this) = m_address (st other) \<and> m_name (st' this) = m_name (st other)
    \<and> m_size (st' this) = m_size (st other) \<and> m_comment (st' this) = m_comment (st other)
    \<and> transmitter (st' this) = (if transmitter (st other) = [] then DEFAULT_NODE_NAME else transmitter (st other))
    \<and> (\<forall>s \<in> set (sigs (st' this)). wf_signal s)
    \<and> mset (map sig_content (sigs (st' this))) =
        mset (map (settled (has_multiplexor (st other))) (sigs (st other)))
    \<and> (msg_inv (st other) \<longrightarrow> mset (map sig_content (sigs (st' this))) = mset (map sig_content (sigs (st other))))"
proof -
  let ?o = "st other"
  let ?m = "(st this)\<lparr>m_address := m_address ?o, m_name := m_name ?o, m_size := m_size ?o,
    m_comment := m_comment ?o, transmitter := transmitter ?o, sigs := sigs ?o\<rparr>"
  obtain m' where m': "msg_update ?m = Some m'" "\<forall>s \<in> set (sigs m'). wf_signal s"
    using assms(2) by (auto intro: msg_update_ok [of ?m])
  have "has_multiplexor ?m = has_multiplexor ?o" by (simp add: has_multiplexor_def)
  then have c: "mset (map sig_content (sigs m')) = mset (map (settled (has_multiplexor ?o)) (sigs ?o))"
    "transmitter m' = (if transmitter ?o = [] then DEFAULT_NODE_NAME else transmitter ?o)"
    using msg_update_settled [OF m'(1)] by simp_all
  have "mset (map sig_content (sigs m')) = mset (map sig_content (sigs ?o))" if "msg_inv ?o"
    using c(1) msg_inv_settled [OF that] by (simp only:)
  moreover have "msg_assign st this other = map_option (\<lambda>m. st(this := m)) (msg_update ?m)"
    using assms(1) by (simp add: msg_assign_def Let_def map_option_case split: option.splits)
  ultimately show ?thesis using msg_update_inv [OF m'(1)] msg_update_keeps [OF m'(1)] m' c by simp
qed

lemma msg_assign_copies_witness:
  "\<exists>st'. msg_assign (\<lambda>b. if b then ex_mux\<lparr>transmitter := ''ECU''\<rparr> else msg_init) False True = Some st'
    \<and> st' True = ex_mux\<lparr>transmitter := ''ECU''\<rparr> \<and> transmitter (st' False) = ''ECU''
    \<and> mset (map sig_content (sigs (st' False))) = mset (map sig_content (sigs ex_mux))"
proof -
  note u = ex_mux_update
  have "\<forall>s \<in> set (sigs ex_mux). sig_ok s" by code_simp
  moreover have "msg_inv (ex_mux\<lparr>transmitter := ''ECU''\<rparr>)" using msg_update_inv [OF u] by (simp add: msg_inv_def)
  ultimately show ?thesis
    using msg_assign_copies [of False True "\<lambda>b. if b then ex_mux\<lparr>transmitter := ''ECU''\<rparr> else msg_init"] by fastforce
qed

text \<open>Assigning a message to itself deletes its signals before they are copied.\<close>

lemma self_assignment_clears:
  "\<exists>st'. msg_assign st this this = Some st' \<and> sigs (st' this) = []"
  by (simp add: msg_assign_def msg_update_def sort_sigs_def Let_def)

section \<open>DBC files\<close>

text \<open>
  C11. Message identifiers. Printing an identifier (\<open>source:address\<close>, the address in
  hexadecimal) and parsing the result gives the identifier back.
\<close>
theorem message_id_roundtrip: "mid_fromString dm (mid_toString i) = i"
  by (rule mid_fromString_toString)

text \<open>
  C12. Termination of \<open>replaceAll\<close>. The loop returns exactly when the pattern is not empty, and
  then yields the left-to-right replacement of the occurrences, never looking into the text it put in.
\<close>
theorem replaceAll_returns:
  "replaceAll s p t = (if p = [] then None else Some (replace_ref p t s))"
  by (simp add: replaceAll_ref replaceAll_empty)

definition ex_t :: sg_text where
  "ex_t = \<lparr>t_name = ''S'', t_mux = Plain, t_start = 3, t_size = 12, t_order = 0, t_sign = CHR ''-'', t_factor = ''1'',
     t_offset = ''0'', t_min = ''0'', t_max = ''1'', t_unit = ''deg'', t_recv = ''XXX''\<rparr>"

lemma sg_text_ok_code [code]:
  "sg_text_ok t \<longleftrightarrow> is_ident (t_name t) \<and> (case t_mux t of Selected_by n \<Rightarrow> int n < 2147483648 | _ \<Rightarrow> True) \<and> issign (t_sign t)
     \<and> is_numtext (t_factor t) \<and> is_numtext (t_offset t) \<and> is_numtext (t_min t) \<and> is_numtext (t_max t)
     \<and> list_all isany (t_unit t) \<and> list_all (\<lambda>c. isany c \<and> c \<noteq> CHR ''\"'') (t_recv t)"
  by (auto simp: sg_text_ok_def list_all_iff split: mux_text.splits)

lemma ex_t_ok: "sg_text_ok ex_t"
  by code_simp

lemma stod_ex: "stod ''1'' = Inr f_one" "stod ''0'' = Inr 0"
proof -
  have "scan_dec ''1'' = Some (False, 1, 0)" "scan_dec ''0'' = Some (False, 0, 0)" by code_simp+
  then show "stod ''1'' = Inr f_one" "stod ''0'' = Inr 0"
    by (simp_all add: stod_def dec_f64_def f_eval f_make_def inf_mag_def)
qed

definition ex_content :: string where
  "ex_content = concat (map (\<lambda>l. l @ [CHR 0x0A]) [''VERSION'', bo_line 257 ''DI'' 8 ''XXX'', sg_line ex_t])"

text \<open>
  C13. Reading a signal line. The parser reads back a signal line printed in the DBC syntax: whatever the
  name, unit and receiver, the signal it adds to the current message has the printed
  position, size, byte order, sign, numbers and multiplexing: a normal signal, the switch \<open>M\<close>, or a signal selected by the
  value after \<open>m\<close>. A second switch in a message is an error, and a first one is counted.
\<close>
theorem signal_line_roundtrip:
  assumes "sg_text_ok t" "t_start t < 2 ^ 31" "t_size t < 2 ^ 31" "t_order t < 2 ^ 31"
    and "stod (t_factor t) = Inr f" "stod (t_offset t) = Inr off" "stod (t_min t) = Inr mn" "stod (t_max t) = Inr mx"
    and "map_of ms a = Some m" "t_name t \<notin> sg_name ` set (sigs m)"
  shows "parseSG (sg_line t) ms (Some a) cnt =
    (if t_mux t = Switch \<and> cnt \<noteq> 0 then Inl (Runtime_error ''Multiple multiplexor'')
     else Inr (ins_key a (m\<lparr>sigs := sigs m @ [text_signal t f off mn mx]\<rparr>) ms, if t_mux t = Switch then Suc cnt else cnt))"
  using assms by (rule parseSG_line)

lemma signal_line_roundtrip_witness:
  "\<exists>s. parseSG (''SG_ V m3 : 3|12@0- (1,0) [0|1] '' @ [CHR 0x22] @ ''deg'' @ [CHR 0x22] @ '' XXX'') [(257, ex_m)] (Some 257) 1
      = Inr ([(257, ex_m\<lparr>sigs := sigs ex_m @ [s]\<rparr>)], 1)
    \<and> sg_type s = Multiplexed \<and> multiplex_value s = 3 \<and> sg_size s = 12 \<and> is_signed s"
proof -
  let ?t = "ex_t\<lparr>t_name := ''V'', t_mux := Selected_by 3\<rparr>"
  have ok: "sg_text_ok ?t" "t_name ?t \<notin> sg_name ` set (sigs ex_m)" by code_simp+
  have line: "sg_line ?t = ''SG_ V m3 : 3|12@0- (1,0) [0|1] '' @ [CHR 0x22] @ ''deg'' @ [CHR 0x22] @ '' XXX''" by code_simp
  have "parseSG (sg_line ?t) [(257, ex_m)] (Some 257) 1
    = Inr (ins_key 257 (ex_m\<lparr>sigs := sigs ex_m @ [text_signal ?t f_one 0 0 f_one]\<rparr>) [(257, ex_m)], 1)"
    by (subst signal_line_roundtrip [OF ok(1)]) (use ok(2) stod_ex in \<open>simp_all add: ex_t_def\<close>)
  then show ?thesis unfolding line
    by (intro exI [of _ "text_signal ?t f_one 0 0 f_one"]) (simp add: text_signal_def ex_t_def)
qed

text \<open>
  C14. Reading a message line. A message line printed in the DBC syntax, with an address the file
  has not yet, adds an empty message with the printed name, size and transmitter and makes
  it the current one.
\<close>
theorem message_line_roundtrip:
  assumes "is_ident n" "is_ident tr" "a < 2 ^ 32" "sz < 2 ^ 32" "map_of ms (word_of_nat a) = None"
  shows "parseBO dm (bo_line a n sz tr) ms =
    Inr (ins_key (word_of_nat a) (msg_init\<lparr>m_address := word_of_nat a, m_name := n, m_size := word_of_nat sz,
           transmitter := tr\<rparr>) ms, Some (word_of_nat a))"
  using assms by (rule parseBO_line)

lemma message_line_roundtrip_witness:
  "parseBO ILP32 (bo_line 257 ''DI'' 8 ''XXX'') [] =
    Inr ([(257, msg_init\<lparr>m_address := 257, m_name := ''DI'', m_size := 8, transmitter := ''XXX''\<rparr>)], Some 257)"
proof -
  have "is_ident ''DI''" "is_ident ''XXX''" by code_simp+
  then show ?thesis using message_line_roundtrip [of "''DI''" "''XXX''" 257 8 "[]"] by simp
qed

definition ex_dbc_msg :: msg where
  "ex_dbc_msg = msg_init\<lparr>m_address := 257, m_name := ''DI'', m_size := 8, transmitter := ''XXX'',
     sigs := [text_signal ex_t f_one 0 0 f_one]\<rparr>"

lemma ex_parse_lines:
  "parse_lines dm f n (getlines CHR 0x0A ex_content) (parse_init [])
   = Inr \<lparr>p_header = ''VERSION'' @ [CHR 0x0A], p_msgs = [(257, ex_dbc_msg)], current_msg = Some 257,
       multiplexor_cnt = 0, seen_first = True\<rparr>"
proof -
  have l: "getlines CHR 0x0A ex_content = [''VERSION'', bo_line 257 ''DI'' 8 ''XXX'', sg_line ex_t]" by code_simp
  have t: "trim_line ''VERSION'' = ''VERSION''" "trim_line (bo_line 257 ''DI'' 8 ''XXX'') = bo_line 257 ''DI'' 8 ''XXX''"
    "trim_line (sg_line ex_t) = sg_line ex_t" by code_simp+
  have s: "\<not> startsWith ''VERSION'' ''BO_ ''" "\<not> startsWith ''VERSION'' ''SG_ ''"
    "startsWith (bo_line 257 ''DI'' 8 ''XXX'') ''BO_ ''" "\<not> startsWith (sg_line ex_t) ''BO_ ''"
    "startsWith (sg_line ex_t) ''SG_ ''" by code_simp+
  have id: "is_ident ''DI''" "is_ident ''XXX''" by code_simp+
  have b: "parseBO dm (bo_line 257 ''DI'' 8 ''XXX'') [] =
    Inr ([(257, msg_init\<lparr>m_address := 257, m_name := ''DI'', m_size := 8, transmitter := ''XXX''\<rparr>)], Some 257)"
    using parseBO_line [OF id, of 257 8 "[]"] by simp
  have g: "parseSG (sg_line ex_t) [(257, msg_init\<lparr>m_address := 257, m_name := ''DI'', m_size := 8, transmitter := ''XXX''\<rparr>)]
      (Some 257) 0 = Inr ([(257, ex_dbc_msg)], 0)"
  proof -
    let ?m = "msg_init\<lparr>m_address := 257, m_name := ''DI'', m_size := 8, transmitter := ''XXX''\<rparr>"
    have "parseSG (sg_line ex_t) [(257, ?m)] (Some 257) 0
      = Inr (ins_key 257 (?m\<lparr>sigs := sigs ?m @ [text_signal ex_t f_one 0 0 f_one]\<rparr>) [(257, ?m)], 0)"
      using parseSG_line [OF ex_t_ok, of f_one 0 0 f_one "[(257, ?m)]" 257 ?m 0] stod_ex by (simp add: ex_t_def msg_init_def)
    then show ?thesis by (simp add: ex_dbc_msg_def msg_init_def)
  qed
  show ?thesis
    by (simp add: l parse_line_def t s b g parse_init_def Let_def)
qed

lemma ex_parses: "\<exists>d. dbc_from_content dm ''d'' ex_content = Some (Inr d) \<and> map fst (msgs d) = [257]"
proof -
  have "\<forall>s \<in> set (sigs ex_dbc_msg). sig_ok s"
    by (simp add: ex_dbc_msg_def msg_init_def text_signal_def sig_ok_def ex_t_def)
  then obtain m where "msg_update ex_dbc_msg = Some m" by (rule msg_update_ok) blast
  then show ?thesis
    by (simp add: dbc_from_content_def parse_def ex_parse_lines)
qed

text \<open>
  C15. What a parsed file is. Every DBC file the parser accepts has its messages in ascending address
  order under their own address, with word-character names, distinct signal names within a message, at most one
  multiplexor, and every message updated: positions, mask length, links to the multiplexor.
\<close>
theorem parsed_file_ok:
  assumes "parse dm content d = Some (Inr d')"
  shows "dbc_ok d' \<and> filename d' = filename d \<and> db_name d' = db_name d
    \<and> sorted (map fst (dbc_getMessages d')) \<and> distinct (map fst (dbc_getMessages d'))
    \<and> (\<forall>a m. (a, m) \<in> set (dbc_getMessages d') \<longrightarrow> m_address m = a \<and> is_ident (m_name m)
         \<and> distinct (map sg_name (sigs m)) \<and> mux_count m \<le> 1 \<and> msg_inv m \<and> dbc_msg d' a = Some a)"
proof -
  note ok = parse_dbc_ok [OF assms]
  then have sorted: "key_sorted (msgs d')" by (simp add: dbc_ok_def msgs_ok_def)
  moreover have "map_of (msgs d') a = Some m" if "(a, m) \<in> set (msgs d')" for a m
    using that smap.entries_lookup [OF sorted] by simp
  ultimately show ?thesis
    using ok smap.entries_sorted [OF sorted]
    by (fastforce simp: dbc_getMessages_def dbc_ok_def msgs_ok_def msg_ok_def dbc_msg_def)
qed

lemma parsed_file_ok_witness:
  "\<exists>d. dbc_from_content LP64 ''d'' ex_content = Some (Inr d) \<and> dbc_ok d \<and> map fst (msgs d) = [257] \<and> db_name d = ''d''"
proof -
  obtain d where d: "dbc_from_content LP64 ''d'' ex_content = Some (Inr d)" "map fst (msgs d) = [257]"
    using ex_parses [of LP64] by (elim exE conjE)
  then have "parse LP64 ex_content \<lparr>filename = [], header = [], msgs = [], db_name = ''d''\<rparr> = Some (Inr d)"
    by (simp add: dbc_from_content_def)
  from parsed_file_ok [OF this] show ?thesis using d by simp
qed

text \<open>
  C16. Where a parse error is reported. The parser stops with an error exactly when some line fails
  after all the lines before it were accepted, and the error holds the file, the number of that line counted from one, its
  trimmed text and the exception the line raised.
\<close>
theorem parse_error_location:
  "parse dm content d = Some (Inl e) \<longleftrightarrow>
     (\<exists>pre l post st x. getlines CHR 0x0A content = pre @ l # post
        \<and> parse_lines dm (filename d) 0 pre (parse_init (header d)) = Inr st
        \<and> parse_line dm l st = Inl x \<and> e = Parse_error (filename d) (length pre + 1) x (trim_line l))"
proof -
  have "parse dm content d = Some (Inl e) \<longleftrightarrow>
      parse_lines dm (filename d) 0 (getlines CHR 0x0A content) (parse_init (header d)) = Inl e"
    by (auto simp: parse_def split: sum.splits bind_splits)
  then show ?thesis unfolding parse_lines_error by simp
qed

text \<open>
  An address above the 32-bit range is an error where \<open>unsigned long\<close> has 32 bits; elsewhere it is narrowed without a notice.
\<close>

lemma wide_address:
  assumes "is_ident n" "is_ident tr" "2 ^ 32 \<le> a" "a < 2 ^ 64"
  shows "parseBO ILP32 (bo_line a n sz tr) ms = Inl Out_of_range" "stoul LP64 0 (nat_str a) = Inr (word_of_nat a)"
proof -
  show "parseBO ILP32 (bo_line a n sz tr) ms = Inl Out_of_range"
    using assms by (simp add: parseBO_def match_bo_line stoul_def scan_nat_str_0 long_bits_def)
  show "stoul LP64 0 (nat_str a) = Inr (word_of_nat a)"
    using assms by (simp add: stoul_def scan_nat_str_0 long_bits_def take_bit_word_eq_self)
qed

lemma list_all2_in_set1: "list_all2 P xs ys \<Longrightarrow> x \<in> set xs \<Longrightarrow> \<exists>y. P x y"
  by (induction rule: list_all2_induct) auto

text \<open>The grammar accepts any start bit and size that fit an \<open>int\<close>; when the last bit of an Intel signal does not, updating the
  message computes an overflowing sum and has no defined result.\<close>

lemma signal_overflow_undefined:
  assumes "s \<in> set (sigs m)" "is_little_endian s" "start_bit s + sg_size s \<ge> 2 ^ 31"
  shows "msg_update m = None"
proof (rule ccontr)
  assume "msg_update m \<noteq> None"
  then obtain ss mux mk where "update_sigs 0 (sort_sigs (sigs m)) None (replicate (unat (m_size m)) 0) = Some (ss, mux, mk)"
    by (auto elim: msg_update_cases)
  then have "list_all2 (\<lambda>s s'. signal_update s = Some s') (sort_sigs (sigs m)) ss"
    using update_sigs_props by blast
  moreover have "s \<in> set (sort_sigs (sigs m))" using assms(1) by (simp add: sort_sigs_def)
  ultimately obtain s' where "signal_update s = Some s'"
    using list_all2_in_set1 by fastforce
  then show False using assms(2,3) by (simp add: signal_update_def updateMsbLsb_def int_range_def)
qed

lemma signal_overflow_undefined_witness:
  "msg_update (msg_init\<lparr>sigs := [ex_le\<lparr>start_bit := 2147483647\<rparr>]\<rparr>) = None"
  by (rule signal_overflow_undefined) (auto simp: ex_defs msg_init_def)

end
