(* ===== verification/Memory.thy ===== *)
theory Memory
  imports Prelude
begin

text \<open>
  Bytes in memory: \<open>memcpy\<close> into the middle of a buffer, and 64-bit words stored in eight
  bytes, least significant first. Loads and stores past the end of the buffer are undefined
  in C++ and \<open>None\<close> here.
\<close>

definition memcpy_at :: "nat \<Rightarrow> 'a list \<Rightarrow> 'a list \<Rightarrow> 'a list" where
  "memcpy_at off src dst = take off dst @ src @ drop (off + length src) dst"

fun le_word :: "bytes \<Rightarrow> u64" where
  "le_word [] = 0"
| "le_word (b # bs) = ucast b OR push_bit 8 (le_word bs)"

definition word_bytes :: "u64 \<Rightarrow> bytes" where
  "word_bytes w = map (\<lambda>k. ucast (drop_bit (8 * k) w)) [0..<8]"

lemma bit_le_word: "length bs \<le> 8 \<Longrightarrow> bit (le_word bs) i \<longleftrightarrow> i < 8 * length bs \<and> bit (bs ! (i div 8)) (i mod 8)"
proof (induction bs arbitrary: i)
  case (Cons b bs)
  show ?case
  proof (cases "i < 8")
    case True
    then show ?thesis by (simp add: bit_simps)
  next
    case False
    then obtain j where j: "i = 8 + j" by (metis le_add_diff_inverse not_le)
    have "\<not> bit b i" using False bit_imp_le_length [of b i] by auto
    moreover have "bit (le_word (b # bs)) i \<longleftrightarrow> j < 56 \<and> bit (le_word bs) j"
      using calculation by (simp add: j bit_or_iff bit_unsigned_iff bit_push_bit_iff)
    moreover have "bit (le_word bs) j \<longleftrightarrow> j < 8 * length bs \<and> bit (bs ! (j div 8)) (j mod 8)"
      using Cons by simp
    ultimately show ?thesis using Cons.prems by (simp add: j) linarith
  qed
qed simp

lemma word_bytes_le_word:
  assumes "length bs = 8"
  shows "word_bytes (le_word bs) = bs"
proof (rule nth_equalityI)
  fix k assume k: "k < length (word_bytes (le_word bs))"
  then have k8: "k < 8" by (simp add: word_bytes_def)
  show "word_bytes (le_word bs) ! k = bs ! k"
  proof (rule bit_word_eqI)
    fix n assume "n < LENGTH(8)"
    then have "n < 8" by simp
    then have "(8 * k + n) div 8 = k" "(8 * k + n) mod 8 = n" "8 * k + n < 64" using k8 by simp_all
    then show "bit (word_bytes (le_word bs) ! k) n = bit (bs ! k) n"
      using k8 \<open>n < 8\<close> assms by (simp add: word_bytes_def bit_simps bit_le_word add.commute)
  qed
qed (simp add: word_bytes_def assms)

lemma length_memcpy_at: "off + length src \<le> length dst \<Longrightarrow> length (memcpy_at off src dst) = length dst"
  by (simp add: memcpy_at_def)

lemma nth_memcpy_at:
  "off + length src \<le> length dst \<Longrightarrow> i < length dst \<Longrightarrow>
   memcpy_at off src dst ! i = (if off \<le> i \<and> i < off + length src then src ! (i - off) else dst ! i)"
  by (auto simp: memcpy_at_def nth_append min_def)

lemma memcpy_at_mid: "length p = off \<Longrightarrow> length q = length t \<Longrightarrow> memcpy_at off t (p @ q @ r) = p @ t @ r"
  by (simp add: memcpy_at_def)

lemma length_word_bytes [simp]: "length (word_bytes w) = 8"
  by (simp add: word_bytes_def)

lemma le_word_word_bytes [simp]: "le_word (word_bytes w) = w"
proof (rule bit_word_eqI)
  fix i assume "i < LENGTH(64)"
  then have i: "i < 64" by simp
  then have "i div 8 < 8" by simp
  then have "word_bytes w ! (i div 8) = ucast (drop_bit (8 * (i div 8)) w)" by (simp add: word_bytes_def)
  moreover have "8 * (i div 8) + i mod 8 = i" by simp
  ultimately show "bit (le_word (word_bytes w)) i = bit w i"
    using i by (simp add: bit_le_word bit_unsigned_iff bit_drop_bit_eq)
qed

definition load :: "nat \<Rightarrow> nat \<Rightarrow> bytes \<Rightarrow> bytes option" where
  "load off n m = (if off + n \<le> length m then Some (take n (drop off m)) else None)"

definition store :: "nat \<Rightarrow> bytes \<Rightarrow> bytes \<Rightarrow> bytes option" where
  "store off bs m = (if off + length bs \<le> length m then Some (memcpy_at off bs m) else None)"

definition load64 :: "nat \<Rightarrow> bytes \<Rightarrow> u64 option" where
  "load64 off m = map_option le_word (load off 8 m)"

definition store64 :: "nat \<Rightarrow> u64 \<Rightarrow> bytes \<Rightarrow> bytes option" where
  "store64 off w m = store off (word_bytes w) m"

lemma length_store: "store off bs m = Some m' \<Longrightarrow> length m' = length m"
  by (auto simp: store_def length_memcpy_at split: if_splits)

lemma load_store_same: "store off bs m = Some m' \<Longrightarrow> load off (length bs) m' = Some bs"
  by (auto simp: store_def load_def memcpy_at_def split: if_splits)

lemma load_store_apart:
  assumes "store off bs m = Some m'" "a + n \<le> off \<or> off + length bs \<le> a"
  shows "load a n m' = load a n m"
proof -
  have len: "off + length bs \<le> length m" and m': "m' = memcpy_at off bs m"
    using assms(1) by (auto simp: store_def split: if_splits)
  have "take n (drop a m') = take n (drop a m)" if "a + n \<le> length m"
    by (rule nth_equalityI) (use that len assms(2) in \<open>auto simp: m' length_memcpy_at nth_memcpy_at\<close>)
  then show ?thesis using len by (simp add: load_def m' length_memcpy_at)
qed

lemma load64_store64 [simp]: "store64 off w m = Some m' \<Longrightarrow> load64 off m' = Some w"
  using load_store_same [of off "word_bytes w" m m'] by (simp add: store64_def load64_def)

end
