(* ===== verification/CarState.thy ===== *)
theory CarState
  imports Binary64 Memory
begin

text \<open>
  The decoded vehicle state, from \<open>bridge/car/car_state.h\<close>, and its two exported forms: the
  array of doubles (\<open>CarState::toArray\<close>) that the Java side reads by index, with the VIN's
  characters packed into three doubles as raw bits, and the struct \<open>BridgeCarState\<close>
  (\<open>bridge/bridge_ios.h\<close>, filled by \<open>carStateToBridge\<close> in \<open>bridge/bridge_ios.cpp\<close>).
  The struct has the doubles of \<open>CarState\<close>, in the same order, and no VIN, so \<open>car_state\<close>
  extends \<open>bridge_car_state\<close>. Doubles are their bit patterns, stored little-endian.
\<close>

section \<open>State\<close>

record bridge_car_state =
  egoSteeringAngle :: f64
  egoSpeed :: f64
  leftBlinker :: f64
  rightBlinker :: f64
  gear :: f64
  adasOn :: f64
  leftBlindSpot :: f64
  rightBlindSpot :: f64
  fusedSpeedLimit :: f64
  stopLineDist :: f64
  trafficLightColor :: f64
  anyDoorOpen :: f64
  buckleStatus :: f64
  accSetSpeed :: f64
  fullPackEnergy :: f64
  nominalEnergyRemaining :: f64
  energyBuffer :: f64
  maxRegenPower :: f64
  maxDischargePower :: f64
  packVoltage :: f64
  packCurrent :: f64
  packTMin :: f64
  packTMax :: f64
  odometer :: f64
  acTemp :: f64
  acTempRight :: f64
  hvacFanLevel :: f64
  hvacPowerState :: f64
  hvacAcMode :: f64
  hvacRecirc :: f64
  hvacKeepClimateOn :: f64
  powerLevel :: f64
  madsActive :: f64
  selfdriveActive :: f64
  experimentalMode :: f64
  changingLane :: f64
  tpmsPressureFL :: f64
  tpmsPressureFR :: f64
  tpmsPressureRL :: f64
  tpmsPressureRR :: f64
  tpmsTempFL :: f64
  tpmsTempFR :: f64
  tpmsTempRL :: f64
  tpmsTempRR :: f64

definition VIN_LENGTH :: nat where "VIN_LENGTH = 17"
definition VIN_DOUBLE_COUNT :: nat where "VIN_DOUBLE_COUNT = 3"
definition VIN_OFFSET :: nat where "VIN_OFFSET = 36"
definition TPMS_OFFSET :: nat where "TPMS_OFFSET = VIN_OFFSET + VIN_DOUBLE_COUNT"
definition TPMS_COUNT :: nat where "TPMS_COUNT = 8"
definition FIELD_COUNT :: nat where "FIELD_COUNT = TPMS_OFFSET + TPMS_COUNT"

lemmas layout_defs = VIN_LENGTH_def VIN_DOUBLE_COUNT_def VIN_OFFSET_def TPMS_OFFSET_def TPMS_COUNT_def
  FIELD_COUNT_def

record car_state = bridge_car_state +
  vin :: bytes

text \<open>The initial state: zeros, and the markers \<open>-1\<close> and \<open>-100\<close> for \<^emph>\<open>no reading\<close>.\<close>

definition car_state_init :: car_state where
  "car_state_init =
     \<lparr>egoSteeringAngle = 0,
      egoSpeed = 0,
      leftBlinker = 0,
      rightBlinker = 0,
      gear = 0,
      adasOn = 0,
      leftBlindSpot = 0,
      rightBlindSpot = 0,
      fusedSpeedLimit = 0,
      stopLineDist = 0,
      trafficLightColor = 0,
      anyDoorOpen = 0,
      buckleStatus = 0,
      accSetSpeed = 0,
      fullPackEnergy = 0,
      nominalEnergyRemaining = 0,
      energyBuffer = 0,
      maxRegenPower = 0,
      maxDischargePower = 0,
      packVoltage = 0,
      packCurrent = 0,
      packTMin = 0,
      packTMax = 0,
      odometer = 0,
      acTemp = 0,
      acTempRight = 0,
      hvacFanLevel = 0,
      hvacPowerState = 0,
      hvacAcMode = 0,
      hvacRecirc = 0,
      hvacKeepClimateOn = 0,
      powerLevel = 0,
      madsActive = 0,
      selfdriveActive = 0,
      experimentalMode = 0,
      changingLane = 0,
      tpmsPressureFL = 0xBFF0000000000000,
      tpmsPressureFR = 0xBFF0000000000000,
      tpmsPressureRL = 0xBFF0000000000000,
      tpmsPressureRR = 0xBFF0000000000000,
      tpmsTempFL = 0xC059000000000000,
      tpmsTempFR = 0xC059000000000000,
      tpmsTempRL = 0xC059000000000000,
      tpmsTempRR = 0xC059000000000000,
      vin = replicate (VIN_LENGTH + 1) 0\<rparr>"

section \<open>The array form\<close>

text \<open>Writes to \<open>out\<close>, in order; bytes as the bits of doubles, eight at a time.\<close>

definition write_all :: "(nat \<times> f64) list \<Rightarrow> f64 list \<Rightarrow> f64 list" where
  "write_all ws out = fold (\<lambda>(i, v) o1. o1[i := v]) ws out"

fun le_words :: "nat \<Rightarrow> bytes \<Rightarrow> u64 list" where
  "le_words 0 bs = []"
| "le_words (Suc n) bs = le_word (take 8 bs) # le_words n (drop 8 bs)"

definition padded_vin :: "bytes \<Rightarrow> bytes" where
  "padded_vin v = take VIN_LENGTH v @ replicate (VIN_DOUBLE_COUNT * 8 - VIN_LENGTH) 0"

definition toArray :: "car_state \<Rightarrow> f64 list \<Rightarrow> f64 list" where
  "toArray cs out =
     (let out = write_all
            [(0, egoSteeringAngle cs),
             (1, egoSpeed cs),
             (2, leftBlinker cs),
             (3, rightBlinker cs),
             (4, gear cs),
             (5, adasOn cs),
             (6, leftBlindSpot cs),
             (7, rightBlindSpot cs),
             (8, fusedSpeedLimit cs),
             (9, stopLineDist cs),
             (10, trafficLightColor cs),
             (11, anyDoorOpen cs),
             (12, buckleStatus cs),
             (13, accSetSpeed cs),
             (14, fullPackEnergy cs),
             (15, nominalEnergyRemaining cs),
             (16, energyBuffer cs),
             (17, maxRegenPower cs),
             (18, maxDischargePower cs),
             (19, packVoltage cs),
             (20, packCurrent cs),
             (21, packTMin cs),
             (22, packTMax cs),
             (23, odometer cs),
             (24, selfdriveActive cs),
             (25, experimentalMode cs),
             (26, madsActive cs),
             (27, changingLane cs),
             (28, acTemp cs),
             (29, acTempRight cs),
             (30, hvacFanLevel cs),
             (31, hvacPowerState cs),
             (32, hvacAcMode cs),
             (33, hvacRecirc cs),
             (34, hvacKeepClimateOn cs),
             (35, powerLevel cs)] out;
          out = write_all (zip [VIN_OFFSET..<TPMS_OFFSET] (le_words VIN_DOUBLE_COUNT (padded_vin (vin cs)))) out
      in write_all
            [(TPMS_OFFSET + 0, tpmsPressureFL cs),
             (TPMS_OFFSET + 1, tpmsPressureFR cs),
             (TPMS_OFFSET + 2, tpmsPressureRL cs),
             (TPMS_OFFSET + 3, tpmsPressureRR cs),
             (TPMS_OFFSET + 4, tpmsTempFL cs),
             (TPMS_OFFSET + 5, tpmsTempFR cs),
             (TPMS_OFFSET + 6, tpmsTempRL cs),
             (TPMS_OFFSET + 7, tpmsTempRR cs)] out)"

section \<open>The struct form\<close>

definition carStateToBridge :: "car_state \<Rightarrow> bridge_car_state" where
  "carStateToBridge cs =
     \<lparr>egoSteeringAngle = egoSteeringAngle cs,
      egoSpeed = egoSpeed cs,
      leftBlinker = leftBlinker cs,
      rightBlinker = rightBlinker cs,
      gear = gear cs,
      adasOn = adasOn cs,
      leftBlindSpot = leftBlindSpot cs,
      rightBlindSpot = rightBlindSpot cs,
      fusedSpeedLimit = fusedSpeedLimit cs,
      stopLineDist = stopLineDist cs,
      trafficLightColor = trafficLightColor cs,
      anyDoorOpen = anyDoorOpen cs,
      buckleStatus = buckleStatus cs,
      accSetSpeed = accSetSpeed cs,
      fullPackEnergy = fullPackEnergy cs,
      nominalEnergyRemaining = nominalEnergyRemaining cs,
      energyBuffer = energyBuffer cs,
      maxRegenPower = maxRegenPower cs,
      maxDischargePower = maxDischargePower cs,
      packVoltage = packVoltage cs,
      packCurrent = packCurrent cs,
      packTMin = packTMin cs,
      packTMax = packTMax cs,
      odometer = odometer cs,
      acTemp = acTemp cs,
      acTempRight = acTempRight cs,
      hvacFanLevel = hvacFanLevel cs,
      hvacPowerState = hvacPowerState cs,
      hvacAcMode = hvacAcMode cs,
      hvacRecirc = hvacRecirc cs,
      hvacKeepClimateOn = hvacKeepClimateOn cs,
      powerLevel = powerLevel cs,
      madsActive = madsActive cs,
      selfdriveActive = selfdriveActive cs,
      experimentalMode = experimentalMode cs,
      changingLane = changingLane cs,
      tpmsPressureFL = tpmsPressureFL cs,
      tpmsPressureFR = tpmsPressureFR cs,
      tpmsPressureRL = tpmsPressureRL cs,
      tpmsPressureRR = tpmsPressureRR cs,
      tpmsTempFL = tpmsTempFL cs,
      tpmsTempFR = tpmsTempFR cs,
      tpmsTempRL = tpmsTempRL cs,
      tpmsTempRR = tpmsTempRR cs\<rparr>"

section \<open>The layout of the array\<close>

lemma write_all_run:
  "k + length vs \<le> length out \<Longrightarrow>
   write_all (zip [k..<k + length vs] vs) out = take k out @ vs @ drop (k + length vs) out"
proof (induction vs arbitrary: k out)
  case (Cons v vs)
  have u: "[k..<k + length (v # vs)] = k # [Suc k..<Suc k + length vs]"
    using upt_conv_Cons [of k "k + length (v # vs)"] by simp
  have "write_all (zip [k..<k + length (v # vs)] (v # vs)) out
      = write_all (zip [Suc k..<Suc k + length vs] vs) (out[k := v])"
    by (simp only: u write_all_def zip_Cons_Cons fold_simps) simp
  also have "\<dots> = take (Suc k) (out[k := v]) @ vs @ drop (Suc k + length vs) (out[k := v])"
    using Cons.prems by (intro Cons.IH) simp
  also have "\<dots> = take k out @ (v # vs) @ drop (k + length (v # vs)) out"
    using Cons.prems by (simp add: take_Suc_conv_app_nth)
  finally show ?case .
qed (simp add: write_all_def)

lemma length_write_all [simp]: "length (write_all ws out) = length out"
proof -
  have "length (fold (\<lambda>(i, v) o1. o1[i := v]) ws out) = length out" by (induction ws arbitrary: out) auto
  then show ?thesis by (simp add: write_all_def)
qed

lemma length_le_words [simp]: "length (le_words n bs) = n"
  by (induction n arbitrary: bs) simp_all

definition head_fields :: "car_state \<Rightarrow> f64 list" where
  "head_fields cs =
     [egoSteeringAngle cs, egoSpeed cs, leftBlinker cs, rightBlinker cs, gear cs, adasOn cs, leftBlindSpot cs,
      rightBlindSpot cs, fusedSpeedLimit cs, stopLineDist cs, trafficLightColor cs, anyDoorOpen cs, buckleStatus cs,
      accSetSpeed cs, fullPackEnergy cs, nominalEnergyRemaining cs, energyBuffer cs, maxRegenPower cs,
      maxDischargePower cs, packVoltage cs, packCurrent cs, packTMin cs, packTMax cs, odometer cs, selfdriveActive cs,
      experimentalMode cs, madsActive cs, changingLane cs, acTemp cs, acTempRight cs, hvacFanLevel cs,
      hvacPowerState cs, hvacAcMode cs, hvacRecirc cs, hvacKeepClimateOn cs, powerLevel cs]"

definition tpms_fields :: "car_state \<Rightarrow> f64 list" where
  "tpms_fields cs =
     [tpmsPressureFL cs, tpmsPressureFR cs, tpmsPressureRL cs, tpmsPressureRR cs,
      tpmsTempFL cs, tpmsTempFR cs, tpmsTempRL cs, tpmsTempRR cs]"

lemma length_fields [simp]: "length (head_fields cs) = 36" "length (tpms_fields cs) = 8"
  by (simp_all add: head_fields_def tpms_fields_def)

lemma toArray_parts:
  assumes "length out = FIELD_COUNT"
  shows "toArray cs out = head_fields cs @ le_words VIN_DOUBLE_COUNT (padded_vin (vin cs)) @ tpms_fields cs"
proof -
  have u: "[0..<0 + 36] = [0, 1, 2, 3, 4, 5, 6, 7, 8, 9, 10, 11, 12, 13, 14, 15, 16, 17, 18, 19, 20, 21, 22, 23, 24, 25, 26, 27, 28, 29, 30, 31, 32, 33, 34, 35 :: nat]"
    "[36..<36 + 3] = [36, 37, 38 :: nat]" "[39..<39 + 8] = [39, 40, 41, 42, 43, 44, 45, 46 :: nat]" by code_simp+
  have "toArray cs out =
      write_all (zip [39..<39 + 8] (tpms_fields cs))
       (write_all (zip [36..<36 + 3] (le_words 3 (padded_vin (vin cs))))
        (write_all (zip [0..<0 + 36] (head_fields cs)) out))"
    unfolding u head_fields_def tpms_fields_def zip_Cons_Cons zip_Nil
    by (simp add: toArray_def layout_defs Let_def upt_rec)
  also have "\<dots> = take 39 (take 36 (take 0 out @ head_fields cs @ drop (0 + 36) out)
      @ le_words 3 (padded_vin (vin cs)) @ drop (36 + 3) (take 0 out @ head_fields cs @ drop (0 + 36) out))
      @ tpms_fields cs @ []"
    using write_all_run [of 0 "head_fields cs" out] write_all_run [of 36 "le_words 3 (padded_vin (vin cs))"]
      write_all_run [of 39 "tpms_fields cs"] assms by (simp add: layout_defs)
  finally show ?thesis by (simp add: layout_defs)
qed

lemma word_bytes_le_words:
  "length bs = 8 * n \<Longrightarrow> concat (map word_bytes (le_words n bs)) = bs"
  by (induction n arbitrary: bs) (simp_all add: word_bytes_le_word)

lemma le_words_eq: "length bs = 8 * n \<Longrightarrow> length cs = 8 * n \<Longrightarrow> le_words n bs = le_words n cs \<longleftrightarrow> bs = cs"
  by (metis word_bytes_le_words)

end
