(* ===== verification/Tesla.thy ===== *)
theory Tesla
  imports CanParsers CarState
begin

text \<open>
  The Tesla mappers, from \<open>bridge/car/cars/tesla.h\<close> and \<open>bridge/car/car_state_mapper.h\<close>: the
  assembly of the VIN from its three segments (\<open>TeslaVinUpdater\<close>), the turn-signal hold
  (\<open>BlinkerHold\<close>), the power gauge (\<open>powerLevel\<close>), the bus updates and the \<open>update\<close> of the
  three mapper classes.

  The steady clock is an argument, in nanoseconds. A result \<open>None\<close> is undefined behaviour:
  in the extraction of a signal or in a cast of a double to \<open>int\<close>.
\<close>

section \<open>The VIN\<close>

definition isVinChar :: "u8 \<Rightarrow> bool" where
  "isVinChar c \<longleftrightarrow>
     (if 48 \<le> c \<and> c \<le> 57 then True
      else if 65 \<le> c \<and> c \<le> 90 then c \<noteq> 73 \<and> c \<noteq> 79 \<and> c \<noteq> 81
      else False)"

record vin_updater =
  seen :: u8
  pending :: bytes

definition vin_init :: vin_updater where
  "vin_init = \<lparr>seen = 0, pending = replicate VIN_LENGTH 0\<rparr>"

record segment =
  seg_signal :: string
  textStart :: nat
  vinOffset :: nat

definition kSegments :: "segment list" where
  "kSegments =
     [\<lparr>seg_signal = ''VIN_A405'', textStart = 4, vinOffset = 0\<rparr>,
      \<lparr>seg_signal = ''VIN_B405'', textStart = 0, vinOffset = 3\<rparr>,
      \<lparr>seg_signal = ''VIN_C405'', textStart = 0, vinOffset = 10\<rparr>]"

definition kAllSegments :: u8 where "kAllSegments = 7"

definition seg_chars :: "u64 \<Rightarrow> bytes" where
  "seg_chars raw = map (\<lambda>b. ucast (drop_bit (8 * b) raw)) [0..<7]"

definition seg_valid :: "segment \<Rightarrow> bytes \<Rightarrow> bool" where
  "seg_valid sg chars \<longleftrightarrow>
     (\<forall>b \<in> set [0..<textStart sg]. chars ! b = 0) \<and> (\<forall>b \<in> set [textStart sg..<7]. isVinChar (chars ! b))"

text \<open>One turn of the loop over the segments; \<open>get\<close> is \<open>cp.getRaw(1, "VIN_info", \<dots>)\<close>.\<close>

definition vin_segment :: "(string \<Rightarrow> u64 option option) \<Rightarrow> nat \<Rightarrow> vin_updater \<Rightarrow> vin_updater option" where
  "vin_segment get i u =
     (if seen u AND push_bit i 1 \<noteq> 0 then Some u
      else do { r \<leftarrow> get (seg_signal (kSegments ! i));
                Some (case r of
                  None \<Rightarrow> u
                | Some raw \<Rightarrow>
                    (let sg = kSegments ! i; chars = seg_chars raw
                     in if seg_valid sg chars
                        then u\<lparr>pending := memcpy_at (vinOffset sg) (drop (textStart sg) chars) (pending u),
                               seen := seen u OR push_bit i 1\<rparr>
                        else u)) })"

definition updateVin_with :: "(string \<Rightarrow> u64 option option) \<Rightarrow> vin_updater \<Rightarrow> car_state \<Rightarrow> (vin_updater \<times> car_state) option" where
  "updateVin_with get u cs =
     (if seen u = kAllSegments then Some (u, cs)
      else do { u \<leftarrow> vin_segment get 0 u;
                u \<leftarrow> vin_segment get 1 u;
                u \<leftarrow> vin_segment get 2 u;
                Some (u, if seen u = kAllSegments
                         then cs\<lparr>vin := memcpy_at 0 (pending u) (vin cs)\<rparr> else cs) })"

definition updateVin :: "can_parsers \<Rightarrow> vin_updater \<Rightarrow> car_state \<Rightarrow> (vin_updater \<times> car_state) option" where
  "updateVin cp = updateVin_with (cp_getRaw cp 1 ''VIN_info'')"

section \<open>The turn signals\<close>

record blinker_hold =
  lastOn :: int
  seenOn :: bool

definition blinker_init :: blinker_hold where
  "blinker_init = \<lparr>lastOn = 0, seenOn = False\<rparr>"

definition HOLD :: int where "HOLD = 1000 * 1000000"

definition blinker_update :: "int \<Rightarrow> f64 \<Rightarrow> blinker_hold \<Rightarrow> (blinker_hold \<times> f64) option" where
  "blinker_update now rawStatus b =
     do { i \<leftarrow> f_trunc rawStatus;
          let lampOn = (i = 1);
          let b = (if lampOn then b\<lparr>lastOn := now, seenOn := True\<rparr> else b);
          let blinking = (seenOn b \<and> now - lastOn b \<le> HOLD);
          Some (b, if \<not> blinking then f_zero else if lampOn then f_of_int 2 else f_one) }"

section \<open>Buses\<close>

definition read_into :: "can_parsers \<Rightarrow> int \<Rightarrow> string \<Rightarrow> string \<Rightarrow> (f64 \<Rightarrow> 'a) \<Rightarrow> 'a option" where
  "read_into cp bus m s f = do { v \<leftarrow> cp_get cp bus m s; Some (f v) }"

definition updatePartyBus :: "can_parsers \<Rightarrow> car_state \<Rightarrow> car_state option" where
  "updatePartyBus cp cs =
     do { cs \<leftarrow> read_into cp 2 ''SCCM_steeringAngleSensor'' ''SCCM_steeringAngle'' (\<lambda>v. cs\<lparr>egoSteeringAngle := v\<rparr>);
          cs \<leftarrow> read_into cp 2 ''DI_systemStatus'' ''DI_gear'' (\<lambda>v. cs\<lparr>gear := v\<rparr>);
          cs \<leftarrow> read_into cp 2 ''DI_speed'' ''DI_uiSpeed'' (\<lambda>v. cs\<lparr>egoSpeed := v\<rparr>);
          cs \<leftarrow> read_into cp 2 ''DI_state'' ''DI_cruiseState''
                  (\<lambda>v. cs\<lparr>adasOn := (if f_eq v (f_of_int 2) then f_one else f_zero)\<rparr>);
          cs \<leftarrow> read_into cp 2 ''DAS_status'' ''DAS_blindSpotRearLeft'' (\<lambda>v. cs\<lparr>leftBlindSpot := v\<rparr>);
          cs \<leftarrow> read_into cp 2 ''DAS_status'' ''DAS_blindSpotRearRight'' (\<lambda>v. cs\<lparr>rightBlindSpot := v\<rparr>);
          cs \<leftarrow> read_into cp 2 ''DAS_status'' ''DAS_fusedSpeedLimit'' (\<lambda>v. cs\<lparr>fusedSpeedLimit := v\<rparr>);
          cs \<leftarrow> read_into cp 2 ''DAS_road'' ''DAS_trafficLightColor'' (\<lambda>v. cs\<lparr>trafficLightColor := v\<rparr>);
          cs \<leftarrow> read_into cp 2 ''DAS_road'' ''DAS_stopLineDist'' (\<lambda>v. cs\<lparr>stopLineDist := v\<rparr>);
          cs \<leftarrow> read_into cp 2 ''UI_warning'' ''leftBlinkerBlinking'' (\<lambda>v. cs\<lparr>leftBlinker := v\<rparr>);
          cs \<leftarrow> read_into cp 2 ''UI_warning'' ''rightBlinkerBlinking'' (\<lambda>v. cs\<lparr>rightBlinker := v\<rparr>);
          cs \<leftarrow> read_into cp 2 ''UI_warning'' ''anyDoorOpen'' (\<lambda>v. cs\<lparr>anyDoorOpen := v\<rparr>);
          cs \<leftarrow> read_into cp 2 ''UI_warning'' ''buckleStatus'' (\<lambda>v. cs\<lparr>buckleStatus := v\<rparr>);
          read_into cp 2 ''DI_state'' ''DI_digitalSpeed'' (\<lambda>v. cs\<lparr>accSetSpeed := v\<rparr>) }"

text \<open>\<open>std::clamp\<close>, and the power gauge.\<close>

definition f_clamp :: "f64 \<Rightarrow> f64 \<Rightarrow> f64 \<Rightarrow> f64" where
  "f_clamp v lo hi = (if f_lt v lo then lo else if f_lt hi v then hi else v)"

definition gauge :: "f64 \<Rightarrow> f64 \<Rightarrow> f64 \<Rightarrow> f64 \<Rightarrow> f64" where
  "gauge volts amps maxDischarge maxRegen =
     (if f_le volts f_zero \<or> f_le maxDischarge f_zero \<or> f_le maxRegen f_zero then f_zero
      else (let kw = f_div (f_mul volts amps) (f_of_int 1000);
                limit = (if f_le f_zero kw then maxDischarge else maxRegen)
            in f_mul (f_clamp (f_div kw limit) (f_of_int (- 1)) f_one) (f_of_int 100)))"

definition power_level :: "car_state \<Rightarrow> f64" where
  "power_level cs = gauge (packVoltage cs) (packCurrent cs) (maxDischargePower cs) (maxRegenPower cs)"

definition update_energy :: "can_parsers \<Rightarrow> car_state \<Rightarrow> car_state option" where
  "update_energy cp cs =
     do { v \<leftarrow> cp_get cp 1 ''BMS_energyStatus'' ''BMS_energyStatusIndex'';
          muxIdx \<leftarrow> f_trunc v;
          if muxIdx = 0 then
            do { cs \<leftarrow> read_into cp 1 ''BMS_energyStatus'' ''BMS_nominalFullPackEnergy'' (\<lambda>v. cs\<lparr>fullPackEnergy := v\<rparr>);
                 read_into cp 1 ''BMS_energyStatus'' ''BMS_nominalEnergyRemaining'' (\<lambda>v. cs\<lparr>nominalEnergyRemaining := v\<rparr>) }
          else if muxIdx = 1 then
            read_into cp 1 ''BMS_energyStatus'' ''BMS_energyBuffer'' (\<lambda>v. cs\<lparr>energyBuffer := v\<rparr>)
          else Some cs }"

definition update_temps :: "can_parsers \<Rightarrow> car_state \<Rightarrow> car_state option" where
  "update_temps cp cs =
     do { v \<leftarrow> cp_get cp 1 ''BMS_bmbMinMax'' ''BMS_bmbMinMaxMultiplexer'';
          i \<leftarrow> f_trunc v;
          if i = 0 then
            do { cs \<leftarrow> read_into cp 1 ''BMS_bmbMinMax'' ''BMS_thermistorTMin'' (\<lambda>v. cs\<lparr>packTMin := v\<rparr>);
                 read_into cp 1 ''BMS_bmbMinMax'' ''BMS_thermistorTMax'' (\<lambda>v. cs\<lparr>packTMax := v\<rparr>) }
          else Some cs }"

definition updateVehicleBus :: "can_parsers \<Rightarrow> car_state \<Rightarrow> car_state option" where
  "updateVehicleBus cp cs =
     do { cs \<leftarrow> update_energy cp cs;
          cs \<leftarrow> read_into cp 1 ''BMS_powerAvailable'' ''BMS_maxRegenPower'' (\<lambda>v. cs\<lparr>maxRegenPower := v\<rparr>);
          cs \<leftarrow> read_into cp 1 ''BMS_powerAvailable'' ''BMS_maxDischargePower'' (\<lambda>v. cs\<lparr>maxDischargePower := v\<rparr>);
          cs \<leftarrow> read_into cp 1 ''BMS_hvBusStatus'' ''BMS_packVoltage'' (\<lambda>v. cs\<lparr>packVoltage := v\<rparr>);
          cs \<leftarrow> read_into cp 1 ''BMS_hvBusStatus'' ''BMS_packCurrent'' (\<lambda>v. cs\<lparr>packCurrent := v\<rparr>);
          cs \<leftarrow> Some (cs\<lparr>powerLevel := power_level cs\<rparr>);
          cs \<leftarrow> update_temps cp cs;
          read_into cp 1 ''DI_odometerStatus'' ''DI_odometer'' (\<lambda>v. cs\<lparr>odometer := v\<rparr>) }"

section \<open>Tyres\<close>

definition set_pressure :: "nat \<Rightarrow> f64 \<Rightarrow> car_state \<Rightarrow> car_state" where
  "set_pressure w v cs =
     (if w = 0 then cs\<lparr>tpmsPressureFL := v\<rparr> else if w = 1 then cs\<lparr>tpmsPressureFR := v\<rparr>
      else if w = 2 then cs\<lparr>tpmsPressureRL := v\<rparr> else cs\<lparr>tpmsPressureRR := v\<rparr>)"

definition set_temp_of_mux :: "nat \<Rightarrow> f64 \<Rightarrow> car_state \<Rightarrow> car_state" where
  "set_temp_of_mux i v cs =
     (if i = 0 then cs\<lparr>tpmsTempRR := v\<rparr> else if i = 1 then cs\<lparr>tpmsTempRL := v\<rparr>
      else if i = 2 then cs\<lparr>tpmsTempFR := v\<rparr> else cs\<lparr>tpmsTempFL := v\<rparr>)"

definition kP :: "string list" where "kP = [''FL'', ''FR'', ''RL'', ''RR'']"

definition update_pressure :: "can_parsers \<Rightarrow> nat \<Rightarrow> car_state \<Rightarrow> car_state option" where
  "update_pressure cp w cs =
     read_into cp 1 ''VCSEC_TPMSData'' (''VCSEC_TPMSPressure'' @ kP ! w)
       (\<lambda>v. if f_le (f_lit 1 2) v \<and> f_lt v (f_lit 636 100) then set_pressure w v cs else cs)"

definition update_tpms :: "can_parsers \<Rightarrow> car_state \<Rightarrow> car_state option" where
  "update_tpms cp cs =
     do { r \<leftarrow> cp_getRaw cp 1 ''VCSEC_TPMSData'' ''VCSEC_TPMSDataIndex'';
          case r of
            None \<Rightarrow> Some cs
          | Some tpmsIndex \<Rightarrow>
              if tpmsIndex = 5 then
                do { cs \<leftarrow> update_pressure cp 0 cs; cs \<leftarrow> update_pressure cp 1 cs;
                     cs \<leftarrow> update_pressure cp 2 cs; update_pressure cp 3 cs }
              else if tpmsIndex \<le> 3 then
                read_into cp 1 ''VCSEC_TPMSData'' (''VCSEC_TPMSTemperature'' @ nat_str (unat tpmsIndex))
                  (\<lambda>t. if f_lt t (f_lit 2145 10) then set_temp_of_mux (unat tpmsIndex) t cs else cs)
              else Some cs }"

section \<open>The mappers\<close>

datatype mapper =
    TeslaCommaPartyMapper
  | TeslaDashKitMapper blinker_hold blinker_hold vin_updater
  | TeslaJuniperMapper blinker_hold blinker_hold vin_updater

text \<open>The shared parts of the DashKit and Juniper mappers: the two turn signals, read at the clock
  values \<open>t1\<close> and \<open>t2\<close>, and the door and buckle switches of multiplexor 0.\<close>

definition update_blinkers :: "can_parsers \<Rightarrow> int \<Rightarrow> int \<Rightarrow> blinker_hold \<Rightarrow> blinker_hold \<Rightarrow> car_state
    \<Rightarrow> (blinker_hold \<times> blinker_hold \<times> car_state) option" where
  "update_blinkers cp t1 t2 l r cs =
     do { v \<leftarrow> cp_get cp 1 ''VCLEFT_lightStatus'' ''VCLEFT_turnSignalStatus'';
          (l, x) \<leftarrow> blinker_update t1 v l;
          cs \<leftarrow> Some (cs\<lparr>leftBlinker := x\<rparr>);
          v \<leftarrow> cp_get cp 1 ''VCRIGHT_lightStatus'' ''VCRIGHT_turnSignalStatus'';
          (r, x) \<leftarrow> blinker_update t2 v r;
          cs \<leftarrow> Some (cs\<lparr>rightBlinker := x\<rparr>);
          Some (l, r, cs) }"

definition update_switches :: "can_parsers \<Rightarrow> car_state \<Rightarrow> car_state option" where
  "update_switches cp cs =
     do { v \<leftarrow> cp_get cp 1 ''VCFRONT_status'' ''VCFRONT_statusIndex'';
          i \<leftarrow> f_trunc v;
          cs \<leftarrow> (if i = 0 then read_into cp 1 ''VCFRONT_status'' ''VCFRONT_anyDoorOpen'' (\<lambda>v. cs\<lparr>anyDoorOpen := v\<rparr>)
                 else Some cs);
          v \<leftarrow> cp_get cp 1 ''VCLEFT_switchStatus'' ''VCLEFT_switchStatusIndex'';
          i \<leftarrow> f_trunc v;
          if i = 0 then
            read_into cp 1 ''VCLEFT_switchStatus'' ''VCLEFT_frontBuckleSwitch''
              (\<lambda>v. cs\<lparr>buckleStatus := (if f_eq v (f_of_int 2) then f_one else f_zero)\<rparr>)
          else Some cs }"

text \<open>The climate signals, which DashKit reads from bus 1 and Juniper from bus 0.\<close>

definition update_hvac :: "can_parsers \<Rightarrow> int \<Rightarrow> car_state \<Rightarrow> car_state option" where
  "update_hvac cp bus cs =
     do { cs \<leftarrow> read_into cp bus ''UI_hvacRequest'' ''UI_hvacReqTempSetpointLeft'' (\<lambda>v. cs\<lparr>acTemp := v\<rparr>);
          cs \<leftarrow> read_into cp bus ''UI_hvacRequest'' ''UI_hvacReqTempSetpointRight'' (\<lambda>v. cs\<lparr>acTempRight := v\<rparr>);
          cs \<leftarrow> read_into cp bus ''UI_hvacRequest'' ''UI_hvacReqBlowerSegment'' (\<lambda>v. cs\<lparr>hvacFanLevel := v\<rparr>);
          cs \<leftarrow> read_into cp bus ''UI_hvacRequest'' ''UI_hvacReqUserPowerState'' (\<lambda>v. cs\<lparr>hvacPowerState := v\<rparr>);
          cs \<leftarrow> read_into cp bus ''UI_hvacRequest'' ''UI_hvacReqACDisable'' (\<lambda>v. cs\<lparr>hvacAcMode := v\<rparr>);
          cs \<leftarrow> read_into cp bus ''UI_hvacRequest'' ''UI_hvacReqRecirc'' (\<lambda>v. cs\<lparr>hvacRecirc := v\<rparr>);
          read_into cp bus ''UI_hvacRequest'' ''UI_hvacReqKeepClimateOn'' (\<lambda>v. cs\<lparr>hvacKeepClimateOn := v\<rparr>) }"

definition update_dashkit :: "can_parsers \<Rightarrow> int \<Rightarrow> int \<Rightarrow> blinker_hold \<times> blinker_hold \<times> vin_updater \<Rightarrow> car_state
    \<Rightarrow> ((blinker_hold \<times> blinker_hold \<times> vin_updater) \<times> car_state) option" where
  "update_dashkit cp t1 t2 st cs =
     (case st of (l, r, u) \<Rightarrow>
     do { cs \<leftarrow> read_into cp 0 ''SCCM_steeringAngleSensor'' ''SCCM_steeringAngle'' (\<lambda>v. cs\<lparr>egoSteeringAngle := v\<rparr>);
          cs \<leftarrow> read_into cp 0 ''DI_systemStatus'' ''DI_gear'' (\<lambda>v. cs\<lparr>gear := v\<rparr>);
          cs \<leftarrow> read_into cp 0 ''DI_speed'' ''DI_uiSpeed'' (\<lambda>v. cs\<lparr>egoSpeed := v\<rparr>);
          cs \<leftarrow> read_into cp 0 ''DAS_status2'' ''DAS_lssState''
                  (\<lambda>v. cs\<lparr>adasOn := (if f_le (f_of_int 2) v then f_one else f_zero)\<rparr>);
          cs \<leftarrow> read_into cp 0 ''DI_state'' ''DI_digitalSpeed'' (\<lambda>v. cs\<lparr>accSetSpeed := v\<rparr>);
          cs \<leftarrow> read_into cp 0 ''DAS_status'' ''DAS_blindSpotRearLeft'' (\<lambda>v. cs\<lparr>leftBlindSpot := v\<rparr>);
          cs \<leftarrow> read_into cp 0 ''DAS_status'' ''DAS_blindSpotRearRight'' (\<lambda>v. cs\<lparr>rightBlindSpot := v\<rparr>);
          cs \<leftarrow> read_into cp 0 ''DAS_status'' ''DAS_fusedSpeedLimit'' (\<lambda>v. cs\<lparr>fusedSpeedLimit := v\<rparr>);
          cs \<leftarrow> read_into cp 0 ''DAS_road'' ''DAS_trafficLightColor'' (\<lambda>v. cs\<lparr>trafficLightColor := v\<rparr>);
          cs \<leftarrow> read_into cp 0 ''DAS_road'' ''DAS_stopLineDist'' (\<lambda>v. cs\<lparr>stopLineDist := v\<rparr>);
          (l, r, cs) \<leftarrow> update_blinkers cp t1 t2 l r cs;
          cs \<leftarrow> update_switches cp cs;
          cs \<leftarrow> update_hvac cp 1 cs;
          cs \<leftarrow> updateVehicleBus cp cs;
          (u, cs) \<leftarrow> updateVin cp u cs;
          cs \<leftarrow> update_tpms cp cs;
          Some ((l, r, u), cs) })"

definition update_juniper :: "can_parsers \<Rightarrow> int \<Rightarrow> int \<Rightarrow> blinker_hold \<times> blinker_hold \<times> vin_updater \<Rightarrow> car_state
    \<Rightarrow> ((blinker_hold \<times> blinker_hold \<times> vin_updater) \<times> car_state) option" where
  "update_juniper cp t1 t2 st cs =
     (case st of (l, r, u) \<Rightarrow>
     do { cs \<leftarrow> read_into cp 1 ''SCCM_steeringAngleSensor'' ''SCCM_steeringAngle'' (\<lambda>v. cs\<lparr>egoSteeringAngle := v\<rparr>);
          cs \<leftarrow> read_into cp 0 ''DI_systemStatus'' ''DI_gear'' (\<lambda>v. cs\<lparr>gear := v\<rparr>);
          cs \<leftarrow> read_into cp 0 ''DI_speed'' ''DI_uiSpeed'' (\<lambda>v. cs\<lparr>egoSpeed := v\<rparr>);
          cs \<leftarrow> read_into cp 1 ''DI_state'' ''DI_cruiseState''
                  (\<lambda>v. cs\<lparr>adasOn := (if f_eq v (f_of_int 2) then f_one else f_zero)\<rparr>);
          cs \<leftarrow> read_into cp 1 ''DI_state'' ''DI_digitalSpeed'' (\<lambda>v. cs\<lparr>accSetSpeed := v\<rparr>);
          cs \<leftarrow> read_into cp 0 ''DAS_status'' ''DAS_blindSpotRearLeft'' (\<lambda>v. cs\<lparr>leftBlindSpot := v\<rparr>);
          cs \<leftarrow> read_into cp 0 ''DAS_status'' ''DAS_blindSpotRearRight'' (\<lambda>v. cs\<lparr>rightBlindSpot := v\<rparr>);
          cs \<leftarrow> read_into cp 0 ''DAS_status'' ''DAS_fusedSpeedLimit'' (\<lambda>v. cs\<lparr>fusedSpeedLimit := v\<rparr>);
          (l, r, cs) \<leftarrow> update_blinkers cp t1 t2 l r cs;
          cs \<leftarrow> update_switches cp cs;
          cs \<leftarrow> update_hvac cp 0 cs;
          cs \<leftarrow> updateVehicleBus cp cs;
          (u, cs) \<leftarrow> updateVin cp u cs;
          Some ((l, r, u), cs) })"

text \<open>The virtual \<open>CarStateMapper::update\<close>.\<close>

fun mapper_update :: "can_parsers \<Rightarrow> int \<Rightarrow> int \<Rightarrow> mapper \<Rightarrow> car_state \<Rightarrow> (mapper \<times> car_state) option" where
  "mapper_update cp t1 t2 TeslaCommaPartyMapper cs =
     do { cs \<leftarrow> updatePartyBus cp cs; Some (TeslaCommaPartyMapper, cs) }"
| "mapper_update cp t1 t2 (TeslaDashKitMapper l r u) cs =
     do { ((l, r, u), cs) \<leftarrow> update_dashkit cp t1 t2 (l, r, u) cs; Some (TeslaDashKitMapper l r u, cs) }"
| "mapper_update cp t1 t2 (TeslaJuniperMapper l r u) cs =
     do { ((l, r, u), cs) \<leftarrow> update_juniper cp t1 t2 (l, r, u) cs; Some (TeslaJuniperMapper l r u, cs) }"

section \<open>What an update keeps\<close>

text \<open>A property of every state a fallible step returns, and its rules.\<close>

definition keeps :: "('a \<Rightarrow> bool) \<Rightarrow> 'a option \<Rightarrow> bool" where
  "keeps P r \<longleftrightarrow> (\<forall>x. r = Some x \<longrightarrow> P x)"

named_theorems keep_rules \<open>rules that carry a property through the fallible steps\<close>

lemma keeps_bind [keep_rules]: "keeps Q r \<Longrightarrow> (\<And>x. Q x \<Longrightarrow> keeps P (f x)) \<Longrightarrow> keeps P (Option.bind r f)"
  by (auto simp: keeps_def bind_eq_Some_conv)

lemma keeps_Some [keep_rules]: "P x \<Longrightarrow> keeps P (Some x)"
  by (simp add: keeps_def)

lemma keeps_if [keep_rules]: "(b \<Longrightarrow> keeps P r) \<Longrightarrow> (\<not> b \<Longrightarrow> keeps P q) \<Longrightarrow> keeps P (if b then r else q)"
  by simp

lemma keeps_True: "keeps (\<lambda>_. True) r"
  by (simp add: keeps_def)

lemma keeps_read_into [keep_rules]: "(\<And>v. P (f v)) \<Longrightarrow> keeps P (read_into cp bus m s f)"
  by (auto simp: keeps_def read_into_def bind_eq_Some_conv)

text \<open>The fields that no mapper writes, and the size of the VIN buffer.\<close>

definition frame_of :: "car_state \<Rightarrow> f64 \<times> f64 \<times> f64 \<times> f64 \<times> nat" where
  "frame_of cs = (madsActive cs, selfdriveActive cs, experimentalMode cs, changingLane cs, length (vin cs))"

definition same_frame :: "car_state \<Rightarrow> car_state \<Rightarrow> bool" where
  "same_frame cs c \<longleftrightarrow> frame_of c = frame_of cs"

lemma keeps_bind_frame: "keeps (same_frame cs) r \<Longrightarrow> (\<And>x. same_frame cs x \<Longrightarrow> keeps P (f x)) \<Longrightarrow> keeps P (Option.bind r f)"
  by (rule keeps_bind)

lemma keeps_bind_any: "(\<And>x. keeps P (f x)) \<Longrightarrow> keeps P (Option.bind r f)"
  by (auto simp: keeps_def bind_eq_Some_conv)

lemma updatePartyBus_keeps: "keeps (same_frame cs) (updatePartyBus cp cs)"
  unfolding updatePartyBus_def
  by (intro keeps_bind_frame keeps_read_into) (simp_all add: same_frame_def frame_of_def)

lemma update_energy_keeps: "keeps (same_frame cs) (update_energy cp cs)"
  unfolding update_energy_def
  by (rule keeps_bind_any, rule keeps_bind_any)
    (intro keeps_if keeps_bind_frame [of cs "read_into _ _ _ _ _"] keeps_read_into keeps_Some;
      simp add: same_frame_def frame_of_def)

lemma update_temps_keeps: "keeps (same_frame cs) (update_temps cp cs)"
  unfolding update_temps_def
  by (rule keeps_bind_any, rule keeps_bind_any)
    (intro keeps_if keeps_bind_frame [of cs "read_into _ _ _ _ _"] keeps_read_into keeps_Some;
      simp add: same_frame_def frame_of_def)

text \<open>A step that keeps the frame of its own argument keeps that of an earlier state.\<close>

lemma keeps_frame_trans: "same_frame cs c \<Longrightarrow> keeps (same_frame c) r \<Longrightarrow> keeps (same_frame cs) r"
  by (simp add: keeps_def same_frame_def)

lemma same_frame_refl: "same_frame cs cs"
  by (simp add: same_frame_def)

lemma updateVehicleBus_keeps: "keeps (same_frame cs) (updateVehicleBus cp cs)"
  unfolding updateVehicleBus_def
  by (intro keeps_bind_frame keeps_read_into keeps_Some keeps_frame_trans [OF _ update_energy_keeps]
      keeps_frame_trans [OF _ update_temps_keeps])
    (simp_all add: same_frame_def frame_of_def)

lemma update_hvac_keeps: "keeps (same_frame cs) (update_hvac cp b cs)"
  unfolding update_hvac_def
  by (intro keeps_bind_frame keeps_read_into) (simp_all add: same_frame_def frame_of_def)

lemma update_switches_keeps: "keeps (same_frame cs) (update_switches cp cs)"
  unfolding update_switches_def
  by (rule keeps_bind_any, rule keeps_bind_any, rule keeps_bind_frame [of cs],
      intro keeps_if keeps_read_into keeps_Some; (rule keeps_bind_any, rule keeps_bind_any)?;
      (intro keeps_if keeps_read_into keeps_Some)?; simp add: same_frame_def frame_of_def)

lemma update_pressure_keeps: "keeps (same_frame cs) (update_pressure cp w cs)"
  unfolding update_pressure_def
  by (intro keeps_read_into) (simp add: same_frame_def frame_of_def set_pressure_def)

lemma same_frame_temp: "same_frame cs (set_temp_of_mux i v cs)"
  by (simp add: same_frame_def frame_of_def set_temp_of_mux_def)

lemma update_tpms_keeps: "keeps (same_frame cs) (update_tpms cp cs)"
  unfolding update_tpms_def
  by (rule keeps_bind_any, split option.split)
    (auto intro!: keeps_bind_frame keeps_frame_trans [OF _ update_pressure_keeps] keeps_read_into keeps_Some
      simp: same_frame_refl same_frame_temp)

lemma update_blinkers_keeps: "keeps (\<lambda>(l, r, c). same_frame cs c) (update_blinkers cp t1 t2 l r cs)"
  unfolding update_blinkers_def
  by (auto simp: keeps_def bind_eq_Some_conv same_frame_def frame_of_def)

subsection \<open>Segments\<close>

definition vin_ok :: "vin_updater \<Rightarrow> bool" where
  "vin_ok u \<longleftrightarrow> length (pending u) = VIN_LENGTH"

lemma length_seg_chars [simp]: "length (seg_chars raw) = 7"
  by (simp add: seg_chars_def)

lemma kSegments_nth [simp]:
  "kSegments ! 0 = \<lparr>seg_signal = ''VIN_A405'', textStart = 4, vinOffset = 0\<rparr>"
  "kSegments ! Suc 0 = \<lparr>seg_signal = ''VIN_B405'', textStart = 0, vinOffset = 3\<rparr>"
  "kSegments ! 2 = \<lparr>seg_signal = ''VIN_C405'', textStart = 0, vinOffset = 10\<rparr>"
  by (simp_all add: kSegments_def)

lemma less_3_cases: "i < 3 \<Longrightarrow> i = 0 \<or> i = Suc 0 \<or> i = (2 :: nat)"
  by linarith

lemma vin_segment_ok:
  assumes "vin_segment get i u = Some u'" "i < 3" "vin_ok u"
  shows "vin_ok u'"
  using assms less_3_cases [OF assms(2)]
  by (auto simp: vin_segment_def bind_eq_Some_conv vin_ok_def VIN_LENGTH_def Let_def length_memcpy_at
      split: if_splits option.splits)

lemma updateVin_cases:
  assumes "updateVin_with get u cs = Some (u', c')" "seen u \<noteq> kAllSegments"
  obtains u1 u2 where "vin_segment get 0 u = Some u1" "vin_segment get (Suc 0) u1 = Some u2"
    "vin_segment get 2 u2 = Some u'"
    "c' = (if seen u' = kAllSegments then cs\<lparr>vin := memcpy_at 0 (pending u') (vin cs)\<rparr> else cs)"
  using assms by (auto simp: updateVin_with_def bind_eq_Some_conv)

lemma updateVin_keeps:
  assumes "vin_ok u" "length (vin cs) = VIN_LENGTH + 1"
  shows "keeps (\<lambda>(u, c). vin_ok u \<and> same_frame cs c) (updateVin cp u cs)"
proof -
  have "vin_ok u' \<and> same_frame cs c'"
    if h: "updateVin_with get u cs = Some (u', c')" for get u' c'
  proof (cases "seen u = kAllSegments")
    case True
    then show ?thesis using h assms by (simp add: updateVin_with_def same_frame_refl)
  next
    case False
    obtain u1 u2 where s: "vin_segment get 0 u = Some u1" "vin_segment get (Suc 0) u1 = Some u2"
      "vin_segment get 2 u2 = Some u'"
      "c' = (if seen u' = kAllSegments then cs\<lparr>vin := memcpy_at 0 (pending u') (vin cs)\<rparr> else cs)"
      using updateVin_cases [OF h False] .
    have "vin_ok u'" using vin_segment_ok [OF s(3)] vin_segment_ok [OF s(2)] vin_segment_ok [OF s(1)] assms(1) by simp
    then show ?thesis using s(4) assms(2)
      by (simp add: same_frame_def frame_of_def length_memcpy_at vin_ok_def)
  qed
  then show ?thesis by (auto simp: keeps_def updateVin_def)
qed

lemma updateVin_keeps_trans:
  assumes "vin_ok u" "length (vin cs) = VIN_LENGTH + 1" "same_frame cs c"
  shows "keeps (\<lambda>(u, c). vin_ok u \<and> same_frame cs c) (updateVin cp u c)"
proof -
  have "length (vin c) = VIN_LENGTH + 1" using assms(2,3) by (simp add: same_frame_def frame_of_def)
  from updateVin_keeps [OF assms(1) this, of cp] show ?thesis
    using assms(3) by (auto simp: keeps_def same_frame_def)
qed

subsection \<open>Whole mappers\<close>

lemma keeps_bind_blinkers:
  "same_frame cs c \<Longrightarrow> (\<And>l r x. same_frame cs x \<Longrightarrow> keeps P (f l r x)) \<Longrightarrow>
   keeps P (Option.bind (update_blinkers cp t1 t2 l r c) (\<lambda>(l, r, x). f l r x))"
  using update_blinkers_keeps [of c cp t1 t2 l r]
  by (auto simp: keeps_def bind_eq_Some_conv same_frame_def)

lemma keeps_bind_vin:
  "vin_ok u \<Longrightarrow> length (vin cs) = VIN_LENGTH + 1 \<Longrightarrow> same_frame cs c \<Longrightarrow>
   (\<And>u x. vin_ok u \<Longrightarrow> same_frame cs x \<Longrightarrow> keeps P (f u x)) \<Longrightarrow>
   keeps P (Option.bind (updateVin cp u c) (\<lambda>(u, x). f u x))"
  using updateVin_keeps_trans [of u cs c cp] by (auto simp: keeps_def bind_eq_Some_conv)

lemmas frame_steps = keeps_read_into keeps_Some
  keeps_frame_trans [OF _ update_switches_keeps] keeps_frame_trans [OF _ update_hvac_keeps]
  keeps_frame_trans [OF _ updateVehicleBus_keeps] keeps_frame_trans [OF _ update_tpms_keeps]

definition mapper_keeps :: "car_state \<Rightarrow> (blinker_hold \<times> blinker_hold \<times> vin_updater) \<times> car_state \<Rightarrow> bool" where
  "mapper_keeps cs x \<longleftrightarrow> vin_ok (snd (snd (fst x))) \<and> same_frame cs (snd x)"

lemma update_dashkit_keeps:
  assumes "vin_ok u" "length (vin cs) = VIN_LENGTH + 1"
  shows "keeps (mapper_keeps cs) (update_dashkit cp t1 t2 (l, r, u) cs)"
  unfolding update_dashkit_def prod.case
  by (intro keeps_bind_frame [of cs] keeps_bind_blinkers [of cs] keeps_bind_vin [of _ cs] frame_steps assms)
    (simp_all add: same_frame_def frame_of_def mapper_keeps_def assms)

lemma update_juniper_keeps:
  assumes "vin_ok u" "length (vin cs) = VIN_LENGTH + 1"
  shows "keeps (mapper_keeps cs) (update_juniper cp t1 t2 (l, r, u) cs)"
  unfolding update_juniper_def prod.case
  by (intro keeps_bind_frame [of cs] keeps_bind_blinkers [of cs] keeps_bind_vin [of _ cs] frame_steps assms)
    (simp_all add: same_frame_def frame_of_def mapper_keeps_def assms)

fun mapper_ok :: "mapper \<Rightarrow> bool" where
  "mapper_ok TeslaCommaPartyMapper = True"
| "mapper_ok (TeslaDashKitMapper l r u) = vin_ok u"
| "mapper_ok (TeslaJuniperMapper l r u) = vin_ok u"

lemma mapper_update_keeps:
  assumes "mapper_update cp t1 t2 m cs = Some (m', cs')" "mapper_ok m" "length (vin cs) = VIN_LENGTH + 1"
  shows "mapper_ok m' \<and> same_frame cs cs'"
proof (cases m)
  case TeslaCommaPartyMapper
  then show ?thesis
    using assms updatePartyBus_keeps [of cs cp] by (auto simp: bind_eq_Some_conv keeps_def)
next
  case (TeslaDashKitMapper l r u)
  then obtain x where "update_dashkit cp t1 t2 (l, r, u) cs = Some x"
    "m' = TeslaDashKitMapper (fst (fst x)) (fst (snd (fst x))) (snd (snd (fst x)))" "cs' = snd x"
    using assms(1) by (auto simp: bind_eq_Some_conv)
  then show ?thesis
    using update_dashkit_keeps [of u cs cp t1 t2 l r] assms(2,3) TeslaDashKitMapper by (simp add: keeps_def mapper_keeps_def)
next
  case (TeslaJuniperMapper l r u)
  then obtain x where "update_juniper cp t1 t2 (l, r, u) cs = Some x"
    "m' = TeslaJuniperMapper (fst (fst x)) (fst (snd (fst x))) (snd (snd (fst x)))" "cs' = snd x"
    using assms(1) by (auto simp: bind_eq_Some_conv)
  then show ?thesis
    using update_juniper_keeps [of u cs cp t1 t2 l r] assms(2,3) TeslaJuniperMapper by (simp add: keeps_def mapper_keeps_def)
qed

section \<open>The VIN is the first valid text of each segment\<close>

text \<open>The text that a read offers for segment \<open>i\<close>, if it is valid.\<close>

definition offered :: "(string \<Rightarrow> u64 option option) \<Rightarrow> nat \<Rightarrow> bytes option" where
  "offered get i =
     (case get (seg_signal (kSegments ! i)) of
        Some (Some raw) \<Rightarrow>
          (if seg_valid (kSegments ! i) (seg_chars raw)
           then Some (drop (textStart (kSegments ! i)) (seg_chars raw)) else None)
      | _ \<Rightarrow> None)"

definition or_else :: "'a option \<Rightarrow> 'a option \<Rightarrow> 'a option" where
  "or_else a b = (case a of None \<Rightarrow> b | Some x \<Rightarrow> Some x)"

lemma or_else_simps [simp]: "or_else None b = b" "or_else (Some x) b = Some x" "or_else a None = a"
  by (simp_all add: or_else_def split: option.split)

text \<open>The state after the segments \<open>a\<close>, \<open>b\<close>, \<open>c\<close> have been found.\<close>

definition vin_rel :: "bytes option \<Rightarrow> bytes option \<Rightarrow> bytes option \<Rightarrow> vin_updater \<Rightarrow> bool" where
  "vin_rel a b c u \<longleftrightarrow>
     seen u = (if a = None then 0 else 1) OR (if b = None then 0 else 2) OR (if c = None then 0 else 4)
     \<and> (\<exists>pa pb pc. pending u = pa @ pb @ pc \<and> length pa = 3 \<and> length pb = 7 \<and> length pc = 7
          \<and> (\<forall>t. a = Some t \<longrightarrow> pa = t) \<and> (\<forall>t. b = Some t \<longrightarrow> pb = t) \<and> (\<forall>t. c = Some t \<longrightarrow> pc = t))"

lemma vin_segment_offered:
  assumes "vin_segment get i u = Some u'"
  shows "u' = (if seen u AND push_bit i 1 \<noteq> 0 then u
    else case offered get i of None \<Rightarrow> u
         | Some t \<Rightarrow> u\<lparr>pending := memcpy_at (vinOffset (kSegments ! i)) t (pending u), seen := seen u OR push_bit i 1\<rparr>)"
proof (cases "seen u AND push_bit i 1 \<noteq> 0")
  case True
  then show ?thesis using assms by (simp add: vin_segment_def)
next
  case False
  then obtain r where r: "get (seg_signal (kSegments ! i)) = Some r"
    using assms by (auto simp: vin_segment_def bind_eq_Some_conv)
  show ?thesis
    using assms False by (cases r) (auto simp: vin_segment_def offered_def r Let_def)
qed

lemma offered_length:
  "offered get i = Some t \<Longrightarrow> length t = 7 - textStart (kSegments ! i)"
  by (auto simp: offered_def split: option.splits if_splits)

lemma vin_rel_none: "vin_rel a b c u \<Longrightarrow> seen u AND 1 \<noteq> 0 \<longleftrightarrow> a \<noteq> None"
  "vin_rel a b c u \<Longrightarrow> seen u AND 2 \<noteq> 0 \<longleftrightarrow> b \<noteq> None"
  "vin_rel a b c u \<Longrightarrow> seen u AND 4 \<noteq> 0 \<longleftrightarrow> c \<noteq> None"
  "vin_rel a b c u \<Longrightarrow> seen u = kAllSegments \<longleftrightarrow> a \<noteq> None \<and> b \<noteq> None \<and> c \<noteq> None"
  unfolding vin_rel_def kAllSegments_def by (cases a; cases b; cases c; simp)+

lemma vin_rel_put:
  assumes "vin_rel a b c u"
  shows "length t = 3 \<Longrightarrow> a = None \<Longrightarrow> vin_rel (Some t) b c (u\<lparr>pending := memcpy_at 0 t (pending u), seen := seen u OR 1\<rparr>)"
    "length t = 7 \<Longrightarrow> b = None \<Longrightarrow> vin_rel a (Some t) c (u\<lparr>pending := memcpy_at 3 t (pending u), seen := seen u OR 2\<rparr>)"
    "length t = 7 \<Longrightarrow> c = None \<Longrightarrow> vin_rel a b (Some t) (u\<lparr>pending := memcpy_at 10 t (pending u), seen := seen u OR 4\<rparr>)"
proof -
  obtain pa pb pc where p: "pending u = pa @ pb @ pc" "length pa = 3" "length pb = 7" "length pc = 7"
      "\<forall>t. a = Some t \<longrightarrow> pa = t" "\<forall>t. b = Some t \<longrightarrow> pb = t" "\<forall>t. c = Some t \<longrightarrow> pc = t"
    and sn: "seen u = (if a = None then 0 else 1) OR (if b = None then 0 else 2) OR (if c = None then 0 else 4)"
    using assms by (auto simp: vin_rel_def)
  show "vin_rel (Some t) b c (u\<lparr>pending := memcpy_at 0 t (pending u), seen := seen u OR 1\<rparr>)"
    if "length t = 3" "a = None"
  proof -
    have "memcpy_at 0 t (pending u) = t @ pb @ pc"
      using memcpy_at_mid [of "[]" 0 pa t "pb @ pc"] that p by simp
    then show ?thesis unfolding vin_rel_def using that p sn
      by (auto simp: or.commute or.left_commute)
  qed
  show "vin_rel a (Some t) c (u\<lparr>pending := memcpy_at 3 t (pending u), seen := seen u OR 2\<rparr>)"
    if "length t = 7" "b = None"
  proof -
    have "memcpy_at 3 t (pending u) = pa @ t @ pc"
      using memcpy_at_mid [of pa 3 pb t pc] that p by simp
    then show ?thesis unfolding vin_rel_def using that p sn
      by (auto simp: or.commute or.left_commute)
  qed
  show "vin_rel a b (Some t) (u\<lparr>pending := memcpy_at 10 t (pending u), seen := seen u OR 4\<rparr>)"
    if "length t = 7" "c = None"
  proof -
    have "memcpy_at 10 t (pending u) = pa @ pb @ t"
      using memcpy_at_mid [of "pa @ pb" 10 pc t "[]"] that p by simp
    then show ?thesis unfolding vin_rel_def using that p sn
      by (auto simp: or.commute or.left_commute)
  qed
qed

lemma vin_rel_segment:
  assumes "vin_rel a b c u"
  shows "vin_segment get 0 u = Some u' \<Longrightarrow> vin_rel (or_else a (offered get 0)) b c u'"
    "vin_segment get (Suc 0) u = Some u' \<Longrightarrow> vin_rel a (or_else b (offered get 1)) c u'"
    "vin_segment get 2 u = Some u' \<Longrightarrow> vin_rel a b (or_else c (offered get 2)) u'"
proof -
  note n = vin_rel_none [OF assms] and p = vin_rel_put [OF assms]
  show "vin_rel (or_else a (offered get 0)) b c u'" if h: "vin_segment get 0 u = Some u'"
    using vin_segment_offered [OF h] n(1) p(1) offered_length [of get 0] assms
    by (cases a; cases "offered get 0") simp_all
  show "vin_rel a (or_else b (offered get 1)) c u'" if h: "vin_segment get (Suc 0) u = Some u'"
    using vin_segment_offered [OF h] n(2) p(2) offered_length [of get 1] assms
    by (cases b; cases "offered get 1") simp_all
  show "vin_rel a b (or_else c (offered get 2)) u'" if h: "vin_segment get 2 u = Some u'"
    using vin_segment_offered [OF h] n(3) p(3) offered_length [of get 2] assms
    by (cases c; cases "offered get 2") simp_all
qed

text \<open>A run of updates, one per state of the source.\<close>

fun vin_run :: "(string \<Rightarrow> u64 option option) list \<Rightarrow> vin_updater \<Rightarrow> car_state \<Rightarrow> (vin_updater \<times> car_state) option" where
  "vin_run [] u cs = Some (u, cs)"
| "vin_run (g # gs) u cs = do { (u, cs) \<leftarrow> updateVin_with g u cs; vin_run gs u cs }"

definition first_offer :: "nat \<Rightarrow> (string \<Rightarrow> u64 option option) list \<Rightarrow> bytes option" where
  "first_offer i gs = first_some (\<lambda>g. offered g i) gs"

definition vin_result :: "bytes option \<Rightarrow> bytes option \<Rightarrow> bytes option \<Rightarrow> bytes \<Rightarrow> bytes" where
  "vin_result a b c old =
     (case (a, b, c) of (Some x, Some y, Some z) \<Rightarrow> x @ y @ z @ drop VIN_LENGTH old | _ \<Rightarrow> old)"

lemma first_offer_Cons: "first_offer i (g # gs) = or_else (offered g i) (first_offer i gs)"
  by (simp add: first_offer_def or_else_def split: option.split)

lemma or_else_assoc: "or_else (or_else a b) c = or_else a (or_else b c)"
  by (cases a) simp_all

lemma vin_result_None: "\<not> (a \<noteq> None \<and> b \<noteq> None \<and> c \<noteq> None) \<Longrightarrow> vin_result a b c old = old"
  by (cases a; cases b; cases c) (simp_all add: vin_result_def)

lemma vin_result_done:
  assumes "a \<noteq> None \<and> b \<noteq> None \<and> c \<noteq> None" "length x = 3" "a = Some x" "length y = 7" "b = Some y" "length z = 7" "c = Some z"
  shows "vin_result a b c (vin_result a b c old) = vin_result a b c old"
  using assms by (simp add: vin_result_def VIN_LENGTH_def)

lemma vin_step:
  assumes "updateVin_with g u cs = Some (u', cs')" "vin_rel a b c u"
    and "seen u = kAllSegments \<Longrightarrow> vin_result a b c (vin cs) = vin cs"
  defines "a' \<equiv> or_else a (offered g 0)" and "b' \<equiv> or_else b (offered g 1)" and "c' \<equiv> or_else c (offered g 2)"
  shows "vin_rel a' b' c' u'" "vin cs' = vin_result a' b' c' (vin cs)"
    "seen u' = kAllSegments \<Longrightarrow> vin_result a' b' c' (vin cs') = vin cs'"
proof -
  have "vin_rel a' b' c' u' \<and> vin cs' = vin_result a' b' c' (vin cs)
    \<and> (seen u' = kAllSegments \<longrightarrow> vin_result a' b' c' (vin cs') = vin cs')"
  proof (cases "seen u = kAllSegments")
    case True
    then have "a' = a" "b' = b" "c' = c"
      using vin_rel_none(4) [OF assms(2)] by (auto simp: a'_def b'_def c'_def or_else_def)
    then show ?thesis using assms(1-3) True by (simp add: updateVin_with_def)
  next
    case False
    obtain u1 u2 where s: "vin_segment g 0 u = Some u1" "vin_segment g (Suc 0) u1 = Some u2"
        "vin_segment g 2 u2 = Some u'"
      and v: "cs' = (if seen u' = kAllSegments then cs\<lparr>vin := memcpy_at 0 (pending u') (vin cs)\<rparr> else cs)"
      using updateVin_cases [OF assms(1) False] .
    have r: "vin_rel a' b' c' u'"
      unfolding a'_def b'_def c'_def
      by (rule vin_rel_segment(3) [OF vin_rel_segment(2) [OF vin_rel_segment(1) [OF assms(2) s(1)] s(2)] s(3)])
    show ?thesis
    proof (cases "seen u' = kAllSegments")
      case True
      then obtain x y z where x: "a' = Some x" "b' = Some y" "c' = Some z"
        using vin_rel_none(4) [OF r] by auto
      then have p: "pending u' = x @ y @ z" "length x = 3" "length y = 7" "length z = 7"
        using r by (auto simp: vin_rel_def)
      have "vin cs' = vin_result a' b' c' (vin cs)"
        using v True x p by (simp add: vin_result_def memcpy_at_def VIN_LENGTH_def)
      then show ?thesis using r x p by (simp add: vin_result_def VIN_LENGTH_def)
    next
      case False
      then have "vin_result a' b' c' (vin cs) = vin cs"
        using vin_rel_none(4) [OF r] by (intro vin_result_None) simp
      then show ?thesis using r v False by simp
    qed
  qed
  then show "vin_rel a' b' c' u'" "vin cs' = vin_result a' b' c' (vin cs)"
    "seen u' = kAllSegments \<Longrightarrow> vin_result a' b' c' (vin cs') = vin cs'" by blast+
qed

lemma vin_result_extend:
  assumes "vin_rel a b c u"
  shows "vin_result (or_else a x) (or_else b y) (or_else c z) (vin_result a b c v)
    = vin_result (or_else a x) (or_else b y) (or_else c z) v"
proof (cases "a \<noteq> None \<and> b \<noteq> None \<and> c \<noteq> None")
  case True
  then obtain p q r where s: "a = Some p" "b = Some q" "c = Some r" by auto
  then have "length p = 3" "length q = 7" "length r = 7" using assms by (auto simp: vin_rel_def)
  then show ?thesis by (simp add: s vin_result_def VIN_LENGTH_def)
next
  case False
  then show ?thesis by (simp add: vin_result_None)
qed

lemma vin_run_rel:
  assumes "vin_run gs u cs = Some (u', cs')" "vin_rel a b c u"
    and "seen u = kAllSegments \<Longrightarrow> vin_result a b c (vin cs) = vin cs"
  shows "vin_rel (or_else a (first_offer 0 gs)) (or_else b (first_offer 1 gs)) (or_else c (first_offer 2 gs)) u'
    \<and> vin cs' = vin_result (or_else a (first_offer 0 gs)) (or_else b (first_offer 1 gs))
        (or_else c (first_offer 2 gs)) (vin cs)"
  using assms
proof (induction gs arbitrary: u cs a b c)
  case Nil
  have "vin_result a b c (vin cs) = vin cs"
  proof (cases "seen u = kAllSegments")
    case False
    then show ?thesis using vin_rel_none(4) [OF Nil.prems(2)] by (intro vin_result_None) simp
  qed (use Nil.prems(3) in simp)
  then show ?case using Nil by (simp add: first_offer_def)
next
  case (Cons g gs)
  obtain u1 c1 where s: "updateVin_with g u cs = Some (u1, c1)" "vin_run gs u1 c1 = Some (u', cs')"
    using Cons.prems(1) by (auto simp: bind_eq_Some_conv)
  note v = vin_step [OF s(1) Cons.prems(2,3)]
  note ih = Cons.IH [OF s(2) v(1) v(3)]
  show ?case
    using ih vin_result_extend [OF v(1)] v(2) by (simp add: first_offer_Cons or_else_assoc)
qed

lemma vin_rel_init: "vin_rel None None None vin_init"
proof -
  have "replicate VIN_LENGTH (0 :: u8) = replicate 3 0 @ replicate 7 0 @ replicate 7 0"
    by (simp add: VIN_LENGTH_def flip: replicate_add)
  then show ?thesis
    unfolding vin_rel_def vin_init_def
    by (intro conjI exI [of _ "replicate 3 0"] exI [of _ "replicate 7 0"]) simp_all
qed

lemma vin_run_first:
  assumes "vin_run gs vin_init cs = Some (u', cs')"
  shows "vin cs' = vin_result (first_offer 0 gs) (first_offer 1 gs) (first_offer 2 gs) (vin cs)"
  using vin_run_rel [OF assms vin_rel_init] by (simp add: vin_init_def kAllSegments_def)

lemma updateVin_total: "\<forall>i < 3. get (seg_signal (kSegments ! i)) \<noteq> None \<Longrightarrow> updateVin_with get u cs \<noteq> None"
proof -
  assume g: "\<forall>i < 3. get (seg_signal (kSegments ! i)) \<noteq> None"
  have "vin_segment get i u \<noteq> None" if "i < 3" for i u
    using g that by (auto simp: vin_segment_def)
  then have "\<exists>x. vin_segment get 0 u = Some x" "\<exists>x. vin_segment get 1 u = Some x" "\<exists>x. vin_segment get 2 u = Some x" for u
    by (metis not_Some_eq numeral_less_iff one_less_numeral_iff semiring_norm(76,77) zero_less_numeral less_numeral_extra(3) numeral_2_eq_2 numeral_3_eq_3 lessI less_SucI zero_less_Suc)+
  then show ?thesis unfolding updateVin_with_def by (metis (no_types, lifting) bind.bind_lunit option.distinct(1))
qed

text \<open>Every segment's text is made of VIN characters.\<close>

lemma offered_chars: "offered get i = Some t \<Longrightarrow> i < 3 \<Longrightarrow> \<forall>c \<in> set t. isVinChar c"
proof -
  assume o: "offered get i = Some t" and i: "i < 3"
  then obtain raw where r: "seg_valid (kSegments ! i) (seg_chars raw)" "t = drop (textStart (kSegments ! i)) (seg_chars raw)"
    by (auto simp: offered_def split: option.splits if_splits)
  show ?thesis
  proof
    fix c assume "c \<in> set t"
    then obtain j where "j < length t" "c = t ! j" by (auto simp: in_set_conv_nth)
    then have "textStart (kSegments ! i) + j < 7" "c = seg_chars raw ! (textStart (kSegments ! i) + j)"
      using r(2) by auto
    then show "isVinChar c" using r(1) by (simp add: seg_valid_def)
  qed
qed

lemma first_offer_mem: "first_offer i gs = Some t \<Longrightarrow> \<exists>g \<in> set gs. offered g i = Some t"
  unfolding first_offer_def by (rule first_some_Some)

text \<open>When all offers for a segment agree, the order of the updates does not matter.\<close>

lemma first_offer_agree:
  assumes "\<forall>g \<in> set gs. offered g i \<in> {None, Some t}"
  shows "first_offer i gs = (if \<exists>g \<in> set gs. offered g i = Some t then Some t else None)"
  using assms unfolding first_offer_def by (induction gs) (auto split: option.split)

section \<open>The turn signal holds for one second\<close>

definition lamp_on :: "int \<times> f64 \<Rightarrow> bool" where
  "lamp_on e \<longleftrightarrow> f_trunc (snd e) = Some 1"

fun blinker_run :: "(int \<times> f64) list \<Rightarrow> blinker_hold \<Rightarrow> blinker_hold option" where
  "blinker_run [] b = Some b"
| "blinker_run (e # es) b = do { (b, x) \<leftarrow> blinker_update (fst e) (snd e) b; blinker_run es b }"

lemma blinker_update_cases:
  assumes "blinker_update t v b = Some (b', x)"
  shows "b' = (if lamp_on (t, v) then \<lparr>lastOn = t, seenOn = True\<rparr> else b)"
    "x = (if \<not> (seenOn b' \<and> t - lastOn b' \<le> HOLD) then f_zero else if lamp_on (t, v) then f_of_int 2 else f_one)"
  using assms by (auto simp: blinker_update_def lamp_on_def bind_eq_Some_conv Let_def)

lemma blinker_run_state:
  assumes "blinker_run es b = Some b'"
  shows "b' = (if filter lamp_on es = [] then b else \<lparr>lastOn = fst (last (filter lamp_on es)), seenOn = True\<rparr>)"
  using assms
proof (induction es arbitrary: b)
  case (Cons e es)
  obtain b1 x where s: "blinker_update (fst e) (snd e) b = Some (b1, x)" "blinker_run es b1 = Some b'"
    using Cons.prems by (auto simp: bind_eq_Some_conv)
  then show ?case using Cons.IH [OF s(2)] blinker_update_cases(1) [OF s(1)] by (cases e) auto
qed simp

lemma sorted_le_last: "sorted xs \<Longrightarrow> x \<in> set xs \<Longrightarrow> x \<le> last xs"
  by (induction xs) auto

lemma blinker_hold_output:
  assumes "blinker_run es blinker_init = Some b" "blinker_update t v b = Some (b', x)"
    and "sorted (map fst es @ [t])"
  shows "x = (if lamp_on (t, v) then f_of_int 2
    else if \<exists>e \<in> set es. lamp_on e \<and> t - fst e \<le> HOLD then f_one else f_zero)"
proof (cases "lamp_on (t, v)")
  case True
  then show ?thesis using blinker_update_cases [OF assms(2)] by (simp add: HOLD_def)
next
  case False
  then have x: "x = (if seenOn b \<and> t - lastOn b \<le> HOLD then f_one else f_zero)"
    using blinker_update_cases [OF assms(2)] by auto
  note st = blinker_run_state [OF assms(1)]
  show ?thesis
  proof (cases "filter lamp_on es = []")
    case True
    then have "\<not> (\<exists>e \<in> set es. lamp_on e)" by (auto simp: filter_empty_conv)
    then show ?thesis using x st True False by (auto simp: blinker_init_def)
  next
    case n: False
    let ?l = "last (filter lamp_on es)"
    have l: "?l \<in> set es" "lamp_on ?l" using last_in_set [OF n] by auto
    have "fst e \<le> fst ?l" if "e \<in> set es" "lamp_on e" for e
    proof -
      have "sorted (map fst (filter lamp_on es))" using assms(3) by (simp add: sorted_append sorted_filter)
      moreover have "fst e \<in> set (map fst (filter lamp_on es))" using that by simp
      ultimately have "fst e \<le> last (map fst (filter lamp_on es))" by (rule sorted_le_last)
      then show ?thesis using n by (simp add: last_map)
    qed
    then have "(\<exists>e \<in> set es. lamp_on e \<and> t - fst e \<le> HOLD) \<longleftrightarrow> t - fst ?l \<le> HOLD"
      using l by (meson diff_left_mono order_trans)
    then show ?thesis using x st n False by simp
  qed
qed

section \<open>The power gauge stays within 100 percent\<close>

lemma not_nan_make: "b \<le> inf_mag \<Longrightarrow> \<not> is_nan (f_make s b)"
  using inf_mag_less [of b] by (simp add: is_nan_def)

lemma f_mul_not_nan: "is_finite x \<Longrightarrow> is_finite y \<Longrightarrow> \<not> is_nan (f_mul x y)"
  by (simp add: f_mul_def finite_not_nan not_nan_make round_mag_mono_bound)

lemma f_div_not_nan:
  assumes "\<not> is_nan x" "is_finite y" "f_mag y \<noteq> 0"
  shows "\<not> is_nan (f_div x y)"
  using assms by (simp add: f_div_def finite_not_nan not_nan_make round_mag_mono_bound)

lemma f_one_of_int: "f_of_int 1 = f_one" "f_of_int (- 1) = f_make True (f_mag f_one)"
  by (simp_all add: f_eval)

lemma clamp_unit:
  assumes "\<not> is_nan v"
  defines "c \<equiv> f_clamp v (f_of_int (- 1)) f_one"
  shows "f_mag c \<le> f_mag f_one" "is_finite c"
proof -
  have one: "is_finite f_one" "\<not> f_neg f_one" "f_mag f_one < 2 ^ 63" using f_one_val f_mag_less by auto
  have m: "f_neg (f_of_int (- 1))" "f_mag (f_of_int (- 1)) = f_mag f_one" "\<not> is_nan (f_of_int (- 1))"
    using one finite_not_nan [OF one(1)] by (simp_all add: f_one_of_int is_nan_def)
  show mag: "f_mag c \<le> f_mag f_one"
  proof (cases "f_lt v (f_of_int (- 1)) \<or> f_lt f_one v")
    case True
    then show ?thesis using m by (auto simp: c_def f_clamp_def)
  next
    case False
    then have "c = v" by (auto simp: c_def f_clamp_def)
    moreover have "- int (f_mag f_one) \<le> f_key v" "f_key v \<le> int (f_mag f_one)"
      using False assms(1) m one finite_not_nan [OF one(1)] by (auto simp: f_lt_def f_key_def [of "f_of_int (- 1)"] f_key_def [of f_one] not_less)
    ultimately show ?thesis by (auto simp: f_key_def split: if_splits)
  qed
  then show "is_finite c" using one(1) by (simp add: is_finite_def)
qed

lemma scale_unit:
  assumes "f_mag c \<le> f_mag f_one" "is_finite c" "is_finite y"
  shows "is_finite (f_mul c y)" "\<bar>f_val (f_mul c y)\<bar> \<le> \<bar>f_val y\<bar>"
proof -
  let ?b = "round_mag (bmant (f_mag c) * bmant (f_mag y)) 1 (bexp (f_mag c) + bexp (f_mag y))"
  have "vmag (f_mag c) \<le> 1"
    using assms(1) f_one_val(1,3) by (metis f_val_def vmag_le_iff)
  then have "vmag (f_mag c) * vmag (f_mag y) \<le> vmag (f_mag y)"
    using vmag_nonneg [of "f_mag y"] by (simp add: mult_left_le_one_le vmag_nonneg)
  moreover have "ratio (bmant (f_mag c) * bmant (f_mag y)) 1 (bexp (f_mag c) + bexp (f_mag y))
      = vmag (f_mag c) * vmag (f_mag y)"
    by (simp add: ratio_def vmag_unfold two_powi_add)
  ultimately have b: "?b \<le> f_mag y" by (intro round_mag_le) simp_all
  have e: "f_mul c y = f_make (f_neg c \<noteq> f_neg y) ?b"
    using assms(2,3) by (simp add: f_mul_def finite_not_nan)
  have lt: "?b < inf_mag" using b assms(3) by (simp add: is_finite_def)
  then show "is_finite (f_mul c y)" by (simp add: e)
  have "vmag ?b \<le> vmag (f_mag y)" using b by simp
  then show "\<bar>f_val (f_mul c y)\<bar> \<le> \<bar>f_val y\<bar>"
    using inf_mag_less [of ?b] lt vmag_nonneg by (simp add: e f_val_make f_val_def [of y])
qed

lemma gauge_range:
  assumes "is_finite volts" "is_finite amps" "is_finite maxD" "is_finite maxR"
  shows "is_finite (gauge volts amps maxD maxR) \<and> \<bar>f_val (gauge volts amps maxD maxR)\<bar> \<le> 100"
proof (cases "f_le volts f_zero \<or> f_le maxD f_zero \<or> f_le maxR f_zero")
  case True
  then have "gauge volts amps maxD maxR = f_zero" by (simp add: gauge_def)
  then show ?thesis by (simp add: f_val_def f_mag_def f_neg_def is_finite_def inf_mag_def)
next
  case False
  have nz: "f_mag x \<noteq> 0" if "is_finite x" "\<not> f_le x f_zero" for x
  proof
    assume "f_mag x = 0"
    then have "f_key x = 0" by (simp add: f_key_def)
    moreover have "f_key 0 = 0" "\<not> is_nan 0" by (simp_all add: f_eval)
    ultimately show False using that finite_not_nan [of x] by (simp add: f_le_def)
  qed
  define kw where "kw = f_div (f_mul volts amps) (f_of_int 1000)"
  define limit where "limit = (if f_le f_zero kw then maxD else maxR)"
  have k: "is_finite (f_of_int 1000)" "f_mag (f_of_int 1000) \<noteq> 0"
    using f_of_int_exact(1) [of 1000] by (simp_all add: f_eval)
  have "\<not> is_nan kw"
    unfolding kw_def using f_div_not_nan [OF f_mul_not_nan [OF assms(1,2)] k] .
  moreover have l: "is_finite limit" "f_mag limit \<noteq> 0" using assms(3,4) nz False by (auto simp: limit_def)
  ultimately have "\<not> is_nan (f_div kw limit)" by (intro f_div_not_nan)
  note c = clamp_unit [OF this]
  have h: "is_finite (f_of_int 100)" "f_val (f_of_int 100) = 100" using f_of_int_exact [of 100] by simp_all
  have "gauge volts amps maxD maxR = f_mul (f_clamp (f_div kw limit) (f_of_int (- 1)) f_one) (f_of_int 100)"
    using False by (simp add: gauge_def kw_def limit_def)
  then show ?thesis using scale_unit [OF c h(1)] h(2) by simp
qed

end
