(* ===== verification/Decoder.thy ===== *)
theory Decoder
  imports Tesla
begin

text \<open>
  The vehicle decoder (\<open>bridge/common/vehicle_decoder.h\<close>: \<open>createMapper\<close>, \<open>VehicleDecoder\<close>) and
  the receive loop of \<open>bridge/common/bridge_core.h\<close> (\<open>processMessage\<close>, \<open>runReceiveLoop\<close>).

  The contents of a received message, as the accessors of \<open>cereal::Event\<close> present it, are the
  datatype \<open>event\<close>; reading the bytes as an event is a parameter. Clock readings, and what the
  sockets return, are arguments. A result \<open>None\<close> is undefined behaviour.
\<close>

section \<open>Vehicle decoder\<close>

definition createMapper :: "string \<Rightarrow> mapper option" where
  "createMapper vehicleType =
     (if vehicleType = ''tesla_party'' then Some TeslaCommaPartyMapper
      else if vehicleType = ''dashkit'' then Some (TeslaDashKitMapper blinker_init blinker_init vin_init)
      else if vehicleType = ''tesla_juniper'' then Some (TeslaJuniperMapper blinker_init blinker_init vin_init)
      else None)"

record vehicle_decoder =
  parsers :: can_parsers
  the_mapper :: "mapper option"
  state :: car_state

text \<open>The constructor; \<open>busIndices[i]\<close> is undefined when that vector is shorter.\<close>

fun add_buses :: "data_model \<Rightarrow> string list \<Rightarrow> int list \<Rightarrow> can_parsers \<Rightarrow> (parse_error + can_parsers) option" where
  "add_buses dm [] bs p = Some (Inr p)"
| "add_buses dm (c # cs) [] p = None"
| "add_buses dm (c # cs) (b # bs) p =
     do { r \<leftarrow> addBus dm b c p;
          case r of Inl e \<Rightarrow> Some (Inl e) | Inr p \<Rightarrow> add_buses dm cs bs p }"

definition vehicle_decoder_new :: "data_model \<Rightarrow> string list \<Rightarrow> int list \<Rightarrow> string \<Rightarrow> (parse_error + vehicle_decoder) option" where
  "vehicle_decoder_new dm dbcContents busIndices vehicleType =
     do { r \<leftarrow> add_buses dm dbcContents busIndices parsers_init;
          Some (case r of
            Inl e \<Rightarrow> Inl e
          | Inr p \<Rightarrow> Inr \<lparr>parsers = buildCache p, the_mapper = createMapper vehicleType, state = car_state_init\<rparr>) }"

definition vd_updateFrame :: "int \<Rightarrow> u32 \<Rightarrow> bytes \<Rightarrow> vehicle_decoder \<Rightarrow> vehicle_decoder" where
  "vd_updateFrame bus address data d = d\<lparr>parsers := updateFrame bus address data (parsers d)\<rparr>"

definition vd_updateMapper :: "int \<Rightarrow> int \<Rightarrow> vehicle_decoder \<Rightarrow> vehicle_decoder option" where
  "vd_updateMapper t1 t2 d =
     (case the_mapper d of
        None \<Rightarrow> Some d
      | Some m \<Rightarrow>
          do { (m, cs) \<leftarrow> mapper_update (parsers d) t1 t2 m (state d);
               Some (d\<lparr>the_mapper := Some m, state := cs\<rparr>) })"

section \<open>One message\<close>

text \<open>The three kinds of event that \<open>processMessage\<close> looks at, with the fields it reads.\<close>

datatype event =
    Can "(u8 \<times> u32 \<times> bytes) list"
  | Selfdrive_state (sd_experimental: bool) (sd_active: bool) (sd_alert: string)
  | Selfdrive_state_sp (sp_mads: bool)
  | Other_event

record op_flags =
  fl_mads :: f64
  fl_experimental :: f64
  fl_selfdrive :: f64
  fl_lane :: f64

definition flags_init :: op_flags where
  "flags_init = \<lparr>fl_mads = f_zero, fl_experimental = f_zero, fl_selfdrive = f_zero, fl_lane = f_zero\<rparr>"

definition f_bool :: "bool \<Rightarrow> f64" where
  "f_bool b = (if b then f_one else f_zero)"

definition with_flags :: "op_flags \<Rightarrow> car_state \<Rightarrow> car_state" where
  "with_flags fl cs =
     cs\<lparr>madsActive := fl_mads fl, experimentalMode := fl_experimental fl,
        selfdriveActive := fl_selfdrive fl, changingLane := fl_lane fl\<rparr>"

fun processMessage :: "event \<Rightarrow> int \<Rightarrow> int \<Rightarrow> vehicle_decoder \<times> op_flags \<Rightarrow> ((vehicle_decoder \<times> op_flags) \<times> bool) option" where
  "processMessage (Can frames) t1 t2 (d, fl) =
     do { d \<leftarrow> vd_updateMapper t1 t2 (fold (\<lambda>(src, addr, dat) d. vd_updateFrame (uint src) addr dat d) frames d);
          Some ((d\<lparr>state := with_flags fl (state d)\<rparr>, fl), True) }"
| "processMessage (Selfdrive_state ex ac al) t1 t2 (d, fl) =
     Some ((d, fl\<lparr>fl_experimental := f_bool ex, fl_selfdrive := f_bool ac,
                  fl_lane := f_bool (al = ''laneChange/warning'')\<rparr>), False)"
| "processMessage (Selfdrive_state_sp ma) t1 t2 (d, fl) = Some ((d, fl\<lparr>fl_mads := f_bool ma\<rparr>), False)"
| "processMessage Other_event t1 t2 (d, fl) = Some ((d, fl), False)"

section \<open>The receive loop\<close>

text \<open>
  The local variables of \<open>runReceiveLoop\<close>, the states passed to \<open>onState\<close>, and for every log line the accumulated time, the
  number of messages and the number of callbacks it is computed from, all oldest first.
\<close>

record loop_state =
  ls_decoder :: vehicle_decoder
  ls_flags :: op_flags
  msgTimeAccum :: int
  msgCount :: nat
  callbackCount :: nat
  delivered :: "car_state list"
  logged :: "(int \<times> nat \<times> nat) list"

definition loop_init :: "vehicle_decoder \<Rightarrow> loop_state" where
  "loop_init d =
     \<lparr>ls_decoder = d, ls_flags = flags_init, msgTimeAccum = 0, msgCount = 0, callbackCount = 0, delivered = [],
      logged = []\<rparr>"

text \<open>A received message with the clock readings made while it is handled: the two of the mapper and
  the microseconds spent.\<close>

record reception =
  rx_event :: event
  rx_t1 :: int
  rx_t2 :: int
  rx_us :: int

definition deliver :: "vehicle_decoder \<Rightarrow> op_flags \<Rightarrow> bool \<Rightarrow> loop_state \<Rightarrow> loop_state" where
  "deliver d fl can st =
     st\<lparr>ls_decoder := d, ls_flags := fl,
        delivered := (if can then delivered st @ [state d] else delivered st),
        callbackCount := (if can then callbackCount st + 1 else callbackCount st)\<rparr>"

definition account :: "int \<Rightarrow> loop_state \<Rightarrow> loop_state" where
  "account us st =
     (let st = st\<lparr>msgTimeAccum := msgTimeAccum st + us, msgCount := msgCount st + 1\<rparr>
      in if 100 \<le> msgCount st
         then st\<lparr>logged := logged st @ [(msgTimeAccum st, msgCount st, callbackCount st)],
                 msgTimeAccum := 0, msgCount := 0, callbackCount := 0\<rparr>
         else st)"

lemma account_keeps [simp]: "ls_decoder (account us st) = ls_decoder st" "ls_flags (account us st) = ls_flags st"
    "delivered (account us st) = delivered st"
  by (simp_all add: account_def Let_def)

lemma deliver_sets [simp]: "ls_decoder (deliver d fl can st) = d" "ls_flags (deliver d fl can st) = fl"
    "delivered (deliver d fl can st) = delivered st @ (if can then [state d] else [])"
  by (simp_all add: deliver_def)

definition handle_message :: "reception \<Rightarrow> loop_state \<Rightarrow> loop_state option" where
  "handle_message r st =
     do { ((d, fl), can) \<leftarrow> processMessage (rx_event r) (rx_t1 r) (rx_t2 r) (ls_decoder st, ls_flags st);
          Some (account (rx_us r) (deliver d fl can st)) }"

text \<open>One pass over the sockets (what each \<open>receive(true)\<close> returns), and the loop: the list holds
  the passes made while \<open>running\<close> is true. The boolean is \<open>gotAny\<close>; without it the loop sleeps.\<close>

fun poll_sockets :: "reception option list \<Rightarrow> loop_state \<Rightarrow> (loop_state \<times> bool) option" where
  "poll_sockets [] st = Some (st, False)"
| "poll_sockets (None # rs) st = poll_sockets rs st"
| "poll_sockets (Some r # rs) st =
     do { st \<leftarrow> handle_message r st; (st, g) \<leftarrow> poll_sockets rs st; Some (st, True) }"

fun runReceiveLoop :: "reception option list list \<Rightarrow> loop_state \<Rightarrow> (loop_state \<times> nat) option" where
  "runReceiveLoop [] st = Some (st, 0)"
| "runReceiveLoop (p # ps) st =
     do { (st, gotAny) \<leftarrow> poll_sockets p st;
          (st, sleeps) \<leftarrow> runReceiveLoop ps st;
          Some (st, if gotAny then sleeps else sleeps + 1) }"

section \<open>The loop handles the receptions one by one, in order\<close>

definition receptions :: "reception option list list \<Rightarrow> reception list" where
  "receptions ps = concat (map (List.map_filter (\<lambda>x. x)) ps)"

fun handle_all :: "reception list \<Rightarrow> loop_state \<Rightarrow> loop_state option" where
  "handle_all [] st = Some st"
| "handle_all (r # rs) st = do { st \<leftarrow> handle_message r st; handle_all rs st }"

lemma handle_all_append: "handle_all (xs @ ys) st = Option.bind (handle_all xs st) (handle_all ys)"
proof (induction xs arbitrary: st)
  case (Cons r xs)
  then show ?case by (cases "handle_message r st") simp_all
qed simp

lemma poll_sockets_all:
  "poll_sockets p st = map_option (\<lambda>s. (s, \<not> list_all (\<lambda>x. x = None) p)) (handle_all (List.map_filter (\<lambda>x. x) p) st)"
proof (induction p st rule: poll_sockets.induct)
  case (3 r rs st)
  then show ?case
    by (cases "handle_message r st") (auto simp: map_filter_simps map_option_case split: option.split)
qed (simp_all add: map_filter_simps)

lemma runReceiveLoop_all:
  "runReceiveLoop ps st =
     map_option (\<lambda>s. (s, length (filter (list_all (\<lambda>x. x = None)) ps))) (handle_all (receptions ps) st)"
proof (induction ps arbitrary: st)
  case Nil
  then show ?case by (simp add: receptions_def)
next
  case (Cons p ps)
  have r: "receptions (p # ps) = List.map_filter (\<lambda>x. x) p @ receptions ps" by (simp add: receptions_def)
  show ?case
  proof (cases "handle_all (List.map_filter (\<lambda>x. x) p) st")
    case None
    then show ?thesis by (simp add: r handle_all_append poll_sockets_all)
  next
    case (Some s)
    then show ?thesis
      by (simp add: r handle_all_append poll_sockets_all Cons.IH map_option_case split: option.split)
  qed
qed

section \<open>What is delivered\<close>

fun flag_step :: "event \<Rightarrow> op_flags \<Rightarrow> op_flags" where
  "flag_step (Can fs) fl = fl"
| "flag_step (Selfdrive_state ex ac al) fl =
     fl\<lparr>fl_experimental := f_bool ex, fl_selfdrive := f_bool ac, fl_lane := f_bool (al = ''laneChange/warning'')\<rparr>"
| "flag_step (Selfdrive_state_sp ma) fl = fl\<lparr>fl_mads := f_bool ma\<rparr>"
| "flag_step Other_event fl = fl"

fun expected_flags :: "op_flags \<Rightarrow> event list \<Rightarrow> op_flags list" where
  "expected_flags fl [] = []"
| "expected_flags fl (Can fs # es) = fl # expected_flags fl es"
| "expected_flags fl (e # es) = expected_flags (flag_step e fl) es"

definition flags_of :: "car_state \<Rightarrow> op_flags" where
  "flags_of cs = \<lparr>fl_mads = madsActive cs, fl_experimental = experimentalMode cs,
     fl_selfdrive = selfdriveActive cs, fl_lane = changingLane cs\<rparr>"

lemma flags_of_with [simp]: "flags_of (with_flags fl cs) = fl"
  by (simp add: flags_of_def with_flags_def)

definition is_can :: "event \<Rightarrow> bool" where
  "is_can e \<longleftrightarrow> (case e of Can _ \<Rightarrow> True | _ \<Rightarrow> False)"

lemma processMessage_flags:
  assumes "processMessage e t1 t2 (d, fl) = Some ((d', fl'), b)"
  shows "fl' = flag_step e fl" "b = is_can e" "is_can e \<Longrightarrow> flags_of (state d') = fl"
  using assms by (cases e; auto simp: is_can_def bind_eq_Some_conv)+

lemma handle_message_cases:
  assumes "handle_message r st = Some st'"
  shows "ls_flags st' = flag_step (rx_event r) (ls_flags st)"
    "delivered st' = delivered st @ (if is_can (rx_event r) then [state (ls_decoder st')] else [])"
    "is_can (rx_event r) \<Longrightarrow> flags_of (state (ls_decoder st')) = ls_flags st"
    "(msgTimeAccum st', msgCount st', callbackCount st', logged st') =
      (let t = msgTimeAccum st + rx_us r; n = msgCount st + 1; c = callbackCount st + (if is_can (rx_event r) then 1 else 0)
       in if 100 \<le> n then (0, 0, 0, logged st @ [(t, n, c)]) else (t, n, c, logged st))"
proof -
  obtain d fl can where p: "processMessage (rx_event r) (rx_t1 r) (rx_t2 r) (ls_decoder st, ls_flags st) = Some ((d, fl), can)"
    using assms by (auto simp: handle_message_def bind_eq_Some_conv)
  note q = processMessage_flags [OF p]
  have st': "st' = account (rx_us r) (deliver d fl can st)" using assms by (simp add: handle_message_def p)
  have 4: "ls_flags st' = fl" "ls_decoder st' = d" "delivered st' = delivered st @ (if can then [state d] else [])"
    by (simp_all add: st' account_def deliver_def Let_def)
  show "ls_flags st' = flag_step (rx_event r) (ls_flags st)"
    "delivered st' = delivered st @ (if is_can (rx_event r) then [state (ls_decoder st')] else [])"
    "is_can (rx_event r) \<Longrightarrow> flags_of (state (ls_decoder st')) = ls_flags st"
    using q by (simp_all only: 4)
  show "(msgTimeAccum st', msgCount st', callbackCount st', logged st') =
      (let t = msgTimeAccum st + rx_us r; n = msgCount st + 1; c = callbackCount st + (if is_can (rx_event r) then 1 else 0)
       in if 100 \<le> n then (0, 0, 0, logged st @ [(t, n, c)]) else (t, n, c, logged st))"
    by (simp add: st' account_def deliver_def q(2) Let_def)
qed

lemma handle_all_delivers:
  assumes "handle_all rs st = Some st'"
  shows "ls_flags st' = fold flag_step (map rx_event rs) (ls_flags st)
    \<and> (\<exists>new. delivered st' = delivered st @ new
         \<and> map flags_of new = expected_flags (ls_flags st) (map rx_event rs))"
  using assms
proof (induction rs arbitrary: st)
  case (Cons r rs)
  obtain st1 where s: "handle_message r st = Some st1" "handle_all rs st1 = Some st'"
    using Cons.prems by (auto simp: bind_eq_Some_conv)
  note d = handle_message_cases [OF s(1)]
  obtain new where n: "delivered st' = delivered st1 @ new"
      "map flags_of new = expected_flags (ls_flags st1) (map rx_event rs)"
    and f: "ls_flags st' = fold flag_step (map rx_event rs) (ls_flags st1)"
    using Cons.IH [OF s(2)] by blast
  show ?case
  proof (intro conjI exI [of _ "(if is_can (rx_event r) then [state (ls_decoder st1)] else []) @ new"])
    show "map flags_of ((if is_can (rx_event r) then [state (ls_decoder st1)] else []) @ new)
        = expected_flags (ls_flags st) (map rx_event (r # rs))"
      using d n by (cases "rx_event r") (auto simp: is_can_def)
  qed (use d n f in auto)
qed simp

text \<open>What the counters say of a list of receptions: the time spent on them, their number, and how many were CAN messages.\<close>

definition summary :: "reception list \<Rightarrow> int \<times> nat \<times> nat" where
  "summary rs = (sum_list (map rx_us rs), length rs, length (filter (is_can \<circ> rx_event) rs))"

definition block :: "nat \<Rightarrow> reception list \<Rightarrow> reception list" where
  "block k rs = take 100 (drop (100 * k) rs)"

text \<open>The counters sum up the receptions since the last log line, the log lines the blocks of a hundred before.\<close>

definition counts_ok :: "reception list \<Rightarrow> loop_state \<Rightarrow> bool" where
  "counts_ok rs st \<longleftrightarrow>
     (msgTimeAccum st, msgCount st, callbackCount st) = summary (drop (100 * (length rs div 100)) rs)
     \<and> logged st = map (\<lambda>k. summary (block k rs)) [0..<length rs div 100]"

lemma block_append: "100 * Suc k \<le> length rs \<Longrightarrow> block k (rs @ xs) = block k rs"
  by (simp add: block_def)

lemma Suc_div_hundred:
  "n mod 100 = 99 \<Longrightarrow> Suc n div 100 = Suc (n div 100) \<and> Suc n \<le> 100 * Suc (n div 100)"
  "n mod 100 \<noteq> 99 \<Longrightarrow> Suc n div 100 = (n :: nat) div 100"
proof -
  have "100 * (n div 100) + n mod 100 = n" by simp
  then show "n mod 100 = 99 \<Longrightarrow> Suc n div 100 = Suc (n div 100) \<and> Suc n \<le> 100 * Suc (n div 100)"
    unfolding div_Suc mod_Suc by simp
qed (simp add: div_Suc mod_Suc)

lemma counts_ok_step:
  assumes "counts_ok rs st" "handle_message r st = Some st'"
  shows "counts_ok (rs @ [r]) st'"
proof -
  define q where "q = length rs div 100"
  define tl where "tl = drop (100 * q) rs"
  have len: "length tl = length rs mod 100" by (simp add: tl_def q_def modulo_nat_def mult.commute)
  have c: "(msgTimeAccum st, msgCount st, callbackCount st) = summary tl" "logged st = map (\<lambda>k. summary (block k rs)) [0..<q]"
    using assms(1) by (simp_all add: counts_ok_def tl_def q_def)
  have old: "map (\<lambda>k. summary (block k (rs @ [r]))) [0..<q] = logged st"
    unfolding c(2)
  proof (rule map_cong [OF refl])
    fix k assume "k \<in> set [0..<q]"
    then have "100 * Suc k \<le> length rs" by (simp add: q_def)
    then show "summary (block k (rs @ [r])) = summary (block k rs)" by (simp only: block_append)
  qed
  have d: "drop (100 * q) (rs @ [r]) = tl @ [r]" by (simp add: tl_def q_def)
  have h: "(msgTimeAccum st', msgCount st', callbackCount st', logged st') =
      (if 99 \<le> length tl then (0, 0, 0, logged st @ [summary (tl @ [r])])
       else (case summary (tl @ [r]) of (t, n, k) \<Rightarrow> (t, n, k, logged st)))"
    using handle_message_cases(4) [OF assms(2)] c(1) by (simp add: summary_def Let_def)
  show ?thesis
  proof (cases "99 \<le> length tl")
    case True
    then have "length tl = 99" using len by simp
    then have q: "length (rs @ [r]) div 100 = Suc q" "length (rs @ [r]) \<le> 100 * Suc q"
      using Suc_div_hundred(1) [of "length rs"] len unfolding q_def by (simp_all del: mult_Suc_right)
    have "block q (rs @ [r]) = tl @ [r]" using \<open>length tl = 99\<close> by (simp only: block_def d) simp
    then have "map (\<lambda>k. summary (block k (rs @ [r]))) [0..<Suc q] = logged st @ [summary (tl @ [r])]"
      using old by simp
    then show ?thesis using h True drop_all [OF q(2)] unfolding counts_ok_def q(1) by (simp add: summary_def)
  next
    case False
    then have q: "length (rs @ [r]) div 100 = q"
      using Suc_div_hundred(2) [of "length rs"] len unfolding q_def by simp
    show ?thesis using h False old d unfolding counts_ok_def q by (cases "summary (tl @ [r])") simp
  qed
qed

lemma handle_all_counts:
  "handle_all rs st = Some st' \<Longrightarrow> counts_ok before st \<Longrightarrow> counts_ok (before @ rs) st'"
proof (induction rs arbitrary: before st)
  case (Cons r rs)
  obtain st1 where s: "handle_message r st = Some st1" "handle_all rs st1 = Some st'"
    using Cons.prems(1) by (auto simp: bind_eq_Some_conv)
  from Cons.IH [OF s(2) counts_ok_step [OF Cons.prems(2) s(1)]] show ?case by simp
qed simp

section \<open>The decoder's invariant\<close>

definition decoder_ok :: "vehicle_decoder \<Rightarrow> bool" where
  "decoder_ok d \<longleftrightarrow> length (vin (state d)) = VIN_LENGTH + 1 \<and> (\<forall>m. the_mapper d = Some m \<longrightarrow> mapper_ok m)"

lemma vd_updateMapper_ok:
  assumes "vd_updateMapper t1 t2 d = Some d'" "decoder_ok d"
  shows "decoder_ok d'" "same_frame (state d) (state d')"
proof -
  have "decoder_ok d' \<and> same_frame (state d) (state d')"
  proof (cases "the_mapper d")
    case None
    then show ?thesis using assms by (simp add: vd_updateMapper_def same_frame_refl)
  next
    case (Some m)
    then obtain m' cs' where u: "mapper_update (parsers d) t1 t2 m (state d) = Some (m', cs')"
      "d' = d\<lparr>the_mapper := Some m', state := cs'\<rparr>"
      using assms(1) by (auto simp: vd_updateMapper_def bind_eq_Some_conv)
    have "mapper_ok m' \<and> same_frame (state d) cs'"
      using assms(2) Some by (intro mapper_update_keeps [OF u(1)]) (simp_all add: decoder_ok_def)
    then show ?thesis using u(2) assms(2) by (simp add: decoder_ok_def same_frame_def frame_of_def)
  qed
  then show "decoder_ok d'" "same_frame (state d) (state d')" by blast+
qed

lemma car_state_init_vin: "length (vin car_state_init) = VIN_LENGTH + 1"
  by (simp add: car_state_init_def)

lemma createMapper_ok: "createMapper ty = Some m \<Longrightarrow> mapper_ok m"
  by (auto simp: createMapper_def vin_ok_def vin_init_def split: if_splits)

lemma vehicle_decoder_new_ok:
  assumes "vehicle_decoder_new dm cs bs ty = Some (Inr d)"
  shows "decoder_ok d"
proof -
  obtain r where r: "add_buses dm cs bs parsers_init = Some r"
    and e: "(case r of Inl e \<Rightarrow> Inl e
      | Inr p \<Rightarrow> Inr \<lparr>parsers = buildCache p, the_mapper = createMapper ty, state = car_state_init\<rparr>) = Inr d"
    using assms unfolding vehicle_decoder_new_def bind_eq_Some_conv by blast
  obtain p where "d = \<lparr>parsers = buildCache p, the_mapper = createMapper ty, state = car_state_init\<rparr>"
    using e by (cases r) auto
  then show ?thesis using car_state_init_vin createMapper_ok by (simp add: decoder_ok_def)
qed

end
