(* ===== verification/CarProps.thy ===== *)
theory CarProps
  imports Decoder DbcProps
begin

text \<open>
  The properties of the frame cache, the vehicle state and its mappers, and the vehicle decoder
  (\<open>bridge/car\<close>, \<open>bridge/common\<close>), each with a concrete instance where it has hypotheses.
\<close>

section \<open>Signal access\<close>

definition ex_dbc :: dbc_file where
  "ex_dbc = (case dbc_from_content LP64 ''bus_1'' ex_content of Some (Inr d) \<Rightarrow> d | _ \<Rightarrow> undefined)"

definition ex_cp :: can_parsers where
  "ex_cp = buildCache \<lparr>dbcs = [ex_dbc], busDbcFiles = [(1, 0)], latestFrames = [], busSignalCache = []\<rparr>"

lemma ex_dbc: "dbc_from_content LP64 ''bus_1'' ex_content = Some (Inr ex_dbc)"
  "\<exists>m. msg_update ex_dbc_msg = Some m \<and> msgs ex_dbc = [(257, m)]"
proof -
  have "\<forall>s \<in> set (sigs ex_dbc_msg). sig_ok s"
    by (simp add: ex_dbc_msg_def msg_init_def text_signal_def sig_ok_def ex_t_def)
  then obtain m where m: "msg_update ex_dbc_msg = Some m" by (rule msg_update_ok) blast
  then have p: "dbc_from_content LP64 ''bus_1'' ex_content
      = Some (Inr \<lparr>filename = [], header = ''VERSION'' @ [CHR 0x0A], msgs = [(257, m)], db_name = ''bus_1''\<rparr>)"
    by (simp add: dbc_from_content_def parse_def ex_parse_lines)
  then show "dbc_from_content LP64 ''bus_1'' ex_content = Some (Inr ex_dbc)" by (simp add: ex_dbc_def)
  from p m show "\<exists>m. msg_update ex_dbc_msg = Some m \<and> msgs ex_dbc = [(257, m)]" by (simp add: ex_dbc_def)
qed

lemma ex_dbc_msgs:
  obtains m where "msgs ex_dbc = [(257, m)]" "m_name m = ''DI''" "map sg_name (sigs m) = [''S'']"
proof -
  obtain m where m: "msg_update ex_dbc_msg = Some m" "msgs ex_dbc = [(257, m)]" using ex_dbc(2) by auto
  have "mset (map sg_name (sigs m)) = {#''S''#}" "m_name m = ''DI''"
    using msg_update_keeps(1,4) [OF m(1)] by (simp_all add: ex_dbc_msg_def msg_init_def text_signal_def ex_t_def)
  then show thesis using that m(2) by (metis mset_single_iff)
qed

lemma ex_cp_ok: "parsers_ok ex_cp" "cache_current ex_cp" "latestFrames ex_cp = []" "busDbcFiles ex_cp = [(1, 0)]"
  "dbcs ex_cp = [ex_dbc]"
proof -
  have "dbc_ok ex_dbc" using ex_dbc(1) parse_dbc_ok(1) unfolding dbc_from_content_def by blast
  then show "parsers_ok ex_cp" "cache_current ex_cp" "latestFrames ex_cp = []" "busDbcFiles ex_cp = [(1, 0)]"
    "dbcs ex_cp = [ex_dbc]"
    by (simp_all add: ex_cp_def parsers_ok_buildCache cache_current_buildCache)
      (simp_all add: parsers_ok_def buildCache_def)
qed

text \<open>
  C17. Frames do not interfere. A frame on another bus (after masking with 3) or with another address than the
  signal's leaves every reading of the signal as it was, physical or raw.
\<close>
theorem frames_isolated:
  assumes "b AND 3 \<noteq> bus AND 3 \<or> cached_address p bus m n \<noteq> Some a"
  shows "cp_get (updateFrame b a d p) bus m n = cp_get p bus m n
    \<and> cp_getRaw (updateFrame b a d p) bus m n = cp_getRaw p bus m n"
  using assms frames.read_other [of p bus m n b a d] raw_frames.read_other [of p bus m n b a d]
  by (auto simp: concerns_def)

lemma frames_isolated_witness:
  "cp_get (updateFrame 0 257 [1, 2] ex_cp) 1 ''DI'' ''S'' = cp_get ex_cp 1 ''DI'' ''S''"
  using frames_isolated [of 0 1 ex_cp "''DI''" "''S''" 257 "[1, 2]"] by (simp add: int_and_3)

text \<open>
  C18. What \<open>get\<close> returns. With the cache built, the physical value of a signal (of the only file of the
  masked bus that has it, and the only message of that name) is what its message decodes from the last frame that came with the
  message's address on that bus, whatever other frames came; it is zero while none came and while the multiplexor
  selects another signal.
\<close>
theorem get_decodes_last_frame:
  fixes fs :: "(int \<times> u32 \<times> bytes) list"
  assumes "parsers_ok p" "cache_current p" "latestFrames p = []" "no_colon (m_name m)"
    and "(b, h) \<in> set (busDbcFiles p)" "\<forall>(b', h') \<in> set (busDbcFiles p). b' AND 3 = b AND 3 \<longrightarrow> b' = b"
    and "(a, m) \<in> set (msgs (dbcs p ! h))" "\<forall>(a', m') \<in> set (msgs (dbcs p ! h)). m_name m' = m_name m \<longrightarrow> a' = a"
    and "i < length (sigs m)"
  defines "mine \<equiv> filter (\<lambda>(b', a', d). b' AND 3 = b AND 3 \<and> a' = a) fs"
  shows "cp_get (fold (apply_frame updateFrame) fs p) b (m_name m) (sg_name (sigs m ! i)) =
    (if mine = [] then Some f_zero
     else map_option (\<lambda>r. case r of None \<Rightarrow> f_zero | Some v \<Rightarrow> v)
            (getValue m (snd (snd (last mine))) (sigs m ! i)))"
proof -
  let ?n = "sg_name (sigs m ! i)" and ?c = "\<lparr>cs_address = a, cs_dbc = h, cs_msg = a, cs_sig = i\<rparr>"
  have h: "h < length (dbcs p)" using assms(1,5) by (force simp: parsers_ok_def)
  then have ok: "dbc_ok (dbcs p ! h)" using assms(1) by (simp add: parsers_ok_def)
  have c: "resolve h (dbcs p ! h) (m_name m) ?n = Some ?c" by (rule resolve_unique [OF ok assms(7-9)])
  have r: "resolve_bus p b (m_name m) ?n = Some ?c"
    by (rule resolve_bus_unique [OF assms(1,5) refl assms(6) c])
  note find = find_cached_current [OF assms(1,2,4), of b ?n]
  have rel: "filter (concerns (cached_address p b (m_name m) ?n) b) fs = mine"
    using find(2) r by (auto simp: mine_def concerns_def intro!: filter_cong)
  have am: "map_of (msgs (dbcs p ! h)) a = Some m"
    using ok assms(7) smap.entries_lookup by (metis dbc_ok_def msgs_ok_def)
  show ?thesis
  proof (cases "mine = []")
    case True
    then show ?thesis
      using frames.read_history [of fs p b "m_name m" ?n] rel find(1) r assms(3) by (simp add: cp_get_def)
  next
    case False
    obtain b' a' d where l: "last mine = (b', a', d)" by (metis prod_cases3)
    have "(b', a', d) \<in> set mine" using last_in_set [OF False] l by simp
    then have ba: "b' AND 3 = b AND 3" "a' = a" by (auto simp: mine_def)
    have rb: "resolve_bus (updateFrame b' a' d p) b (m_name m) ?n = Some ?c"
      using r by (simp only: resolve_bus_def updateFrame_simps)
    have "find_cached (updateFrame b' a' d p) b (m_name m) ?n = Some (?c, d)"
      using find_cached_current [OF parsers_ok_updateFrame [OF assms(1)] cache_current_updateFrame [OF assms(2)] assms(4),
          of b' a' d b ?n] rb ba by (simp add: frameKey_inj)
    then have "cp_get (updateFrame b' a' d p) b (m_name m) ?n =
        map_option (\<lambda>r. case r of None \<Rightarrow> f_zero | Some v \<Rightarrow> v) (getValue m d (sigs m ! i))"
      by (simp add: cp_get_def deref_sig_def deref_msg_def am map_conv_bind_option comp_def)
    then show ?thesis
      using frames.read_history [of fs p b "m_name m" ?n] rel False l by (simp add: apply_frame_def)
  qed
qed

lemma get_decodes_last_frame_witness:
  "\<exists>m. cp_get (fold (apply_frame updateFrame) [(5, 257, [0x0F, 0xFE]), (0, 257, [1]), (1, 9, [2])] ex_cp) 1 ''DI'' ''S''
     = map_option (\<lambda>r. case r of None \<Rightarrow> f_zero | Some v \<Rightarrow> v) (getValue m [0x0F, 0xFE] (sigs m ! 0))"
proof -
  obtain m where m: "msgs ex_dbc = [(257, m)]" "m_name m = ''DI''" "map sg_name (sigs m) = [''S'']" by (rule ex_dbc_msgs)
  then have "0 < length (sigs m)" "sg_name (sigs m ! 0) = ''S''" by auto
  moreover have "no_colon ''DI''" by code_simp
  ultimately show ?thesis
    using get_decodes_last_frame [OF ex_cp_ok(1-3), of m 1 0 257 0 "[(5, 257, [0x0F, 0xFE]), (0, 257, [1]), (1, 9, [2])]"] m
    by (auto simp: ex_cp_ok int_and_3)
qed

section \<open>The exported state\<close>

text \<open>
  C19. The array of doubles. Whatever the array held before, the exported array has 47 entries and
  determines the state and is determined by it: two states give the same array exactly when
  they have the same numeric fields (those of the struct \<open>BridgeCarState\<close>) and the same 17 VIN characters.
\<close>
theorem toArray_faithful:
  assumes "length out = FIELD_COUNT" "length out' = FIELD_COUNT"
    and "length (vin a) = VIN_LENGTH + 1" "length (vin b) = VIN_LENGTH + 1"
  shows "length (toArray a out) = 47 \<and>
    (toArray a out = toArray b out' \<longleftrightarrow>
       carStateToBridge a = carStateToBridge b \<and> take VIN_LENGTH (vin a) = take VIN_LENGTH (vin b))"
proof -
  have len: "length (padded_vin (vin c)) = 8 * VIN_DOUBLE_COUNT" if "length (vin c) = VIN_LENGTH + 1" for c :: car_state
    using that by (simp add: padded_vin_def layout_defs)
  have "le_words VIN_DOUBLE_COUNT (padded_vin (vin a)) = le_words VIN_DOUBLE_COUNT (padded_vin (vin b))
      \<longleftrightarrow> take VIN_LENGTH (vin a) = take VIN_LENGTH (vin b)"
    unfolding le_words_eq [OF len [OF assms(3)] len [OF assms(4)]] by (simp add: padded_vin_def)
  moreover have "head_fields a = head_fields b \<and> tpms_fields a = tpms_fields b \<longleftrightarrow> carStateToBridge a = carStateToBridge b"
    unfolding head_fields_def tpms_fields_def carStateToBridge_def list.inject bridge_car_state.ext_inject by blast
  ultimately show ?thesis
    unfolding toArray_parts [OF assms(1)] toArray_parts [OF assms(2)] by (auto simp: layout_defs)
qed

lemma toArray_faithful_witness:
  "toArray car_state_init (replicate 47 0) = toArray car_state_init (replicate 47 1)"
  using toArray_faithful [of "replicate 47 0" "replicate 47 1" car_state_init car_state_init] car_state_init_vin
  by (simp add: layout_defs)

text \<open>
  C20. The VIN in the array. The bytes of entries 36 to 38, read least significant first, are the 17
  characters of the VIN followed by seven zeros.
\<close>
theorem vin_roundtrip:
  assumes "length out = FIELD_COUNT" "length (vin cs) = VIN_LENGTH + 1"
  shows "concat (map word_bytes (take VIN_DOUBLE_COUNT (drop VIN_OFFSET (toArray cs out))))
    = take VIN_LENGTH (vin cs) @ replicate 7 0"
proof -
  have "take VIN_DOUBLE_COUNT (drop VIN_OFFSET (toArray cs out)) = le_words VIN_DOUBLE_COUNT (padded_vin (vin cs))"
    unfolding toArray_parts [OF assms(1)] by (simp add: layout_defs)
  moreover have "length (padded_vin (vin cs)) = 8 * VIN_DOUBLE_COUNT"
    using assms(2) by (simp add: padded_vin_def layout_defs)
  ultimately show ?thesis
    by (simp add: word_bytes_le_words) (simp add: padded_vin_def layout_defs)
qed

lemma vin_roundtrip_witness:
  "concat (map word_bytes (take VIN_DOUBLE_COUNT (drop VIN_OFFSET
     (toArray (car_state_init\<lparr>vin := map word_of_nat [0x35..<0x47]\<rparr>) (replicate 47 9)))))
   = map word_of_nat [0x35..<0x46] @ replicate 7 0"
  using vin_roundtrip [of "replicate 47 9" "car_state_init\<lparr>vin := map word_of_nat [0x35..<0x47]\<rparr>"]
  by (simp add: layout_defs take_map)

section \<open>The vehicle identification number\<close>

text \<open>
  C21. Assembling the VIN. After any number of updates from a fresh updater, the state's VIN is the
  concatenation of the first valid text offered for each of the three segments when each segment was offered at least
  once, and unchanged otherwise; later or invalid segments never change it.
\<close>
theorem vin_first_valid:
  assumes "vin_run gs vin_init cs = Some (u', cs')"
  shows "vin cs' = vin_result (first_offer 0 gs) (first_offer 1 gs) (first_offer 2 gs) (vin cs)
    \<and> (\<forall>i < 3. \<forall>t. first_offer i gs = Some t \<longrightarrow>
         length t = (if i = 0 then 3 else 7) \<and> (\<forall>c \<in> set t. isVinChar c))"
proof -
  have "length t = (if i = 0 then 3 else 7) \<and> (\<forall>c \<in> set t. isVinChar c)"
    if i: "i < 3" and t: "first_offer i gs = Some t" for i t
  proof -
    obtain g where "offered g i = Some t" using first_offer_mem [OF t] by blast
    then show ?thesis using offered_length offered_chars i less_3_cases [OF i] by fastforce
  qed
  then show ?thesis using vin_run_first [OF assms] by simp
qed

text \<open>The VIN \<open>5YJ3E1EA7KF000001\<close> in the order C, A, B, with an invalid A segment first.\<close>

definition ex_word :: "bytes \<Rightarrow> u64" where
  "ex_word bs = le_word (bs @ replicate (8 - length bs) 0)"

definition ex_gets :: "(string \<Rightarrow> u64 option option) list" where
  "ex_gets =
     [\<lambda>s. Some (if s = ''VIN_C405'' then Some (ex_word [75, 70, 48, 48, 48, 48, 49]) else None),
      \<lambda>s. Some (if s = ''VIN_A405'' then Some (ex_word [1, 0, 0, 0, 53, 89, 74]) else None),
      \<lambda>s. Some (if s = ''VIN_A405'' then Some (ex_word [0, 0, 0, 0, 53, 89, 74]) else None),
      \<lambda>s. Some (if s = ''VIN_B405'' then Some (ex_word [51, 69, 49, 69, 65, 55, 48]) else None)]"

lemma vin_first_valid_witness:
  "\<exists>u cs. vin_run ex_gets vin_init car_state_init = Some (u, cs)
    \<and> vin cs = [53, 89, 74, 51, 69, 49, 69, 65, 55, 48, 75, 70, 48, 48, 48, 48, 49, 0]"
proof -
  have "vin_run ex_gets vin_init car_state_init \<noteq> None" by code_simp
  then obtain u cs where r: "vin_run ex_gets vin_init car_state_init = Some (u, cs)" by auto
  moreover have "vin_result (first_offer 0 ex_gets) (first_offer 1 ex_gets) (first_offer 2 ex_gets) (vin car_state_init)
      = [53, 89, 74, 51, 69, 49, 69, 65, 55, 48, 75, 70, 48, 48, 48, 48, 49, 0]" by code_simp
  ultimately show ?thesis using vin_first_valid [OF r] by metis
qed

text \<open>
  C22. The order of the segments does not matter. If all valid offers of a segment agree, then two
  histories with the same offers (in any order and number) leave the same VIN.
\<close>
theorem vin_order_irrelevant:
  assumes "vin_run gs vin_init cs = Some (u1, c1)" "vin_run gs' vin_init cs = Some (u2, c2)" "set gs = set gs'"
    and "\<forall>i < 3. \<exists>t. \<forall>g \<in> set gs. offered g i \<in> {None, Some t}"
  shows "vin c1 = vin c2"
proof -
  have "first_offer i gs = first_offer i gs'" if i: "i < 3" for i
  proof -
    obtain t where "\<forall>g \<in> set gs. offered g i \<in> {None, Some t}" using assms(4) i by blast
    then show ?thesis using first_offer_agree assms(3) by metis
  qed
  then show ?thesis using vin_run_first [OF assms(1)] vin_run_first [OF assms(2)] by simp
qed

lemma vin_order_irrelevant_witness:
  "\<exists>u1 c1 u2 c2. vin_run ex_gets vin_init car_state_init = Some (u1, c1)
    \<and> vin_run (rev ex_gets) vin_init car_state_init = Some (u2, c2) \<and> vin c1 = vin c2"
proof -
  have "vin_run ex_gets vin_init car_state_init \<noteq> None" "vin_run (rev ex_gets) vin_init car_state_init \<noteq> None" by code_simp+
  then obtain u1 c1 u2 c2 where r: "vin_run ex_gets vin_init car_state_init = Some (u1, c1)"
    "vin_run (rev ex_gets) vin_init car_state_init = Some (u2, c2)" by auto
  let ?t = "\<lambda>i. if i = 0 then [53, 89, 74] else if i = 1 then [51, 69, 49, 69, 65, 55, 48] else [75, 70, 48, 48, 48, 48, 49] :: bytes"
  have "list_all (\<lambda>i. list_all (\<lambda>g. offered g i = None \<or> offered g i = Some (?t i)) ex_gets) [0, 1, 2 :: nat]" by code_simp
  then have "\<forall>i < 3. \<exists>t. \<forall>g \<in> set ex_gets. offered g i \<in> {None, Some t}"
    using less_3_cases by (fastforce simp: list_all_iff)
  then show ?thesis using vin_order_irrelevant [OF r] r by auto
qed

section \<open>The mappers\<close>

text \<open>
  C23. The turn signals. After readings in time order, the blinker state is 2 while the lamp is lit, 1
  while it is dark but was lit at most a second ago, and 0 otherwise.
\<close>
theorem blinker_output:
  assumes "blinker_run es blinker_init = Some b" "blinker_update t v b = Some (b', x)"
    and "sorted (map fst es @ [t])"
  shows "x = (if lamp_on (t, v) then f_of_int 2
    else if \<exists>e \<in> set es. lamp_on e \<and> t - fst e \<le> HOLD then f_one else f_zero)"
  using assms by (rule blinker_hold_output)

lemma trunc_one: "f_trunc f_one = Some 1" "f_trunc 0 = Some 0"
  by (simp_all add: f_trunc_def f_mag_def inf_mag_def bmant_def bexp_def is_finite_def f_neg_def int_range_def)

lemma blinker_output_witness:
  "\<exists>b b'. blinker_run [(0, f_one)] blinker_init = Some b \<and> blinker_update HOLD f_zero b = Some (b', f_one)"
proof -
  have r: "blinker_run [(0, f_one)] blinker_init = Some \<lparr>lastOn = 0, seenOn = True\<rparr>"
    by (simp add: blinker_update_def blinker_init_def trunc_one HOLD_def)
  obtain b' x where u: "blinker_update HOLD f_zero \<lparr>lastOn = 0, seenOn = True\<rparr> = Some (b', x)"
    by (simp add: blinker_update_def trunc_one)
  have "x = f_one"
    using blinker_output [OF r u] by (simp add: HOLD_def lamp_on_def trunc_one)
  then show ?thesis using r u by auto
qed

text \<open>
  C24. The power gauge. For finite pack readings the power level is a finite number between -100
  and 100, also when the rounding of the division or of the scaling is inexact.
\<close>
theorem power_level_range:
  assumes "is_finite (packVoltage cs)" "is_finite (packCurrent cs)"
    and "is_finite (maxDischargePower cs)" "is_finite (maxRegenPower cs)"
  shows "is_finite (power_level cs) \<and> \<bar>f_val (power_level cs)\<bar> \<le> 100"
  using gauge_range [OF assms] by (simp add: power_level_def)

lemma power_level_range_witness:
  "is_finite (power_level (car_state_init\<lparr>packVoltage := f_one, packCurrent := f_of_int 7\<rparr>))
   \<and> \<bar>f_val (power_level (car_state_init\<lparr>packVoltage := f_one, packCurrent := f_of_int 7\<rparr>))\<bar> \<le> 100"
proof -
  have "is_finite f_one" "is_finite 0" "is_finite (f_of_int 7)"
    using f_of_int_exact(1) [of 7] by (simp_all add: is_finite_def f_mag_def inf_mag_def)
  then show ?thesis
    by (intro power_level_range) (simp_all add: car_state_init_def)
qed

section \<open>The decoder and its receive loop\<close>

lemma decoder_ok_updateFrame: "decoder_ok (vd_updateFrame b a dat d) \<longleftrightarrow> decoder_ok d"
  by (simp add: vd_updateFrame_def decoder_ok_def)

lemma processMessage_ok:
  assumes "processMessage e t1 t2 (d, fl) = Some ((d', fl'), b)" "decoder_ok d"
  shows "decoder_ok d'"
proof (cases e)
  case (Can fs)
  have "decoder_ok (fold (\<lambda>(src, addr, dat) d. vd_updateFrame (uint src) addr dat d) fs d)"
    using assms(2) by (induction fs arbitrary: d) (simp_all add: decoder_ok_updateFrame split: prod.splits)
  moreover obtain c where c: "vd_updateMapper t1 t2 (fold (\<lambda>(src, addr, dat) d. vd_updateFrame (uint src) addr dat d) fs d) = Some c"
    "d' = c\<lparr>state := with_flags fl (state c)\<rparr>"
    using assms(1) by (auto simp: Can split: bind_splits)
  ultimately have "decoder_ok c" by (blast intro: vd_updateMapper_ok(1))
  then show ?thesis by (simp add: c(2) decoder_ok_def with_flags_def)
qed (use assms in auto)

lemma handle_all_ok:
  "handle_all rs st = Some st' \<Longrightarrow> decoder_ok (ls_decoder st) \<Longrightarrow> decoder_ok (ls_decoder st')"
proof (induction rs arbitrary: st)
  case (Cons r rs)
  then obtain st1 where st1: "handle_message r st = Some st1" "handle_all rs st1 = Some st'"
    by (auto split: bind_splits)
  then have "decoder_ok (ls_decoder st1)"
    using Cons.prems(2) processMessage_ok
    by (fastforce simp: handle_message_def split: bind_splits prod.splits)
  then show ?case using Cons.IH st1(2) by blast
qed simp

text \<open>
  C25. Buffers keep their size. Through any run of the receive loop of a new decoder the VIN buffer of the state
  has 18 bytes and the buffer of the VIN updater 17, so that no copy of a VIN segment or of the whole VIN ever writes past
  the end.
\<close>
theorem receive_loop_buffers:
  assumes "vehicle_decoder_new dm cs bs ty = Some (Inr d)" "runReceiveLoop ps (loop_init d) = Some (st, n)"
  shows "length (vin (state (ls_decoder st))) = 18
    \<and> (case the_mapper (ls_decoder st) of
         Some (TeslaDashKitMapper l r u) \<Rightarrow> length (pending u) = 17
       | Some (TeslaJuniperMapper l r u) \<Rightarrow> length (pending u) = 17
       | _ \<Rightarrow> True)"
proof -
  have "handle_all (receptions ps) (loop_init d) = Some st" using assms(2) by (auto simp: runReceiveLoop_all)
  moreover have "decoder_ok (ls_decoder (loop_init d))"
    using vehicle_decoder_new_ok [OF assms(1)] by (simp add: loop_init_def)
  ultimately have "decoder_ok (ls_decoder st)" by (rule handle_all_ok)
  then show ?thesis
    by (auto simp: decoder_ok_def vin_ok_def layout_defs split: option.splits mapper.splits)
qed

definition ex_decoder :: vehicle_decoder where
  "ex_decoder = \<lparr>parsers = buildCache parsers_init,
     the_mapper = Some (TeslaDashKitMapper blinker_init blinker_init vin_init), state = car_state_init\<rparr>"

definition ex_rx :: "reception option list list" where
  "ex_rx = [[None, Some \<lparr>rx_event = Selfdrive_state True True ''laneChange/warning'', rx_t1 = 0, rx_t2 = 0, rx_us = 5\<rparr>],
     [None, None], [Some \<lparr>rx_event = Selfdrive_state_sp True, rx_t1 = 0, rx_t2 = 0, rx_us = 5\<rparr>, None]]"

lemma ex_decoder: "vehicle_decoder_new dm [] [] ''dashkit'' = Some (Inr ex_decoder)"
  by (simp add: vehicle_decoder_new_def ex_decoder_def createMapper_def)

lemma ex_run: "\<exists>st. runReceiveLoop ex_rx (loop_init ex_decoder) = Some (st, 1)"
  by (simp add: ex_rx_def handle_message_def)

lemma receive_loop_buffers_witness:
  "\<exists>st. runReceiveLoop ex_rx (loop_init ex_decoder) = Some (st, 1) \<and> length (vin (state (ls_decoder st))) = 18"
  using ex_run receive_loop_buffers [OF ex_decoder] by blast

text \<open>
  C26. What the callback sees. The loop invokes the callback exactly once per CAN message it received, in
  order, and the state it passes has the openpilot flags (engaged, experimental, selfdrive, changing lane) of the last
  self-driving messages received before it; it sleeps exactly in the rounds in which no socket had a message.
\<close>
theorem receive_loop_delivers:
  assumes "runReceiveLoop ps (loop_init d) = Some (st, sleeps)"
  shows "map flags_of (delivered st) = expected_flags flags_init (map rx_event (receptions ps))
    \<and> length (delivered st) = length (filter is_can (map rx_event (receptions ps)))
    \<and> sleeps = length (filter (list_all (\<lambda>x. x = None)) ps)"
proof -
  have run: "handle_all (receptions ps) (loop_init d) = Some st"
    and sleeps: "sleeps = length (filter (list_all (\<lambda>x. x = None)) ps)"
    using assms by (auto simp: runReceiveLoop_all)
  have flags: "map flags_of (delivered st) = expected_flags flags_init (map rx_event (receptions ps))"
    using handle_all_delivers [OF run] by (auto simp: loop_init_def)
  have "length (expected_flags fl es) = length (filter is_can es)" for fl es
    by (induction fl es rule: expected_flags.induct) (simp_all add: is_can_def)
  then show ?thesis using flags sleeps by (metis length_map)
qed

text \<open>A decoder of the party bus without files, and a CAN message after the messages above.\<close>

definition ex_party :: vehicle_decoder where
  "ex_party = \<lparr>parsers = buildCache parsers_init, the_mapper = Some TeslaCommaPartyMapper, state = car_state_init\<rparr>"

definition ex_rx_can :: "reception option list list" where
  "ex_rx_can = ex_rx @ [[Some \<lparr>rx_event = Can [(2, 257, [1, 2])], rx_t1 = 0, rx_t2 = 0, rx_us = 7\<rparr>]]"

lemma ex_party_can: "\<exists>st. runReceiveLoop ex_rx_can (loop_init ex_party) = Some (st, 1)"
proof -
  have g: "cp_get (updateFrame 2 257 [1, 2] (buildCache parsers_init)) b m n = Some f_zero" for b m n
    by (simp add: cp_get_def find_cached_def updateFrame_def buildCache_def parsers_init_def)
  have "\<exists>cs. updatePartyBus (updateFrame 2 257 [1, 2] (buildCache parsers_init)) car_state_init = Some cs"
    by (simp add: updatePartyBus_def read_into_def g)
  then show ?thesis
    by (auto simp: ex_rx_can_def ex_rx_def ex_party_def loop_init_def handle_message_def deliver_def account_def
        vd_updateFrame_def vd_updateMapper_def)
qed

lemma receive_loop_delivers_witness:
  "\<exists>st. runReceiveLoop ex_rx_can (loop_init ex_party) = Some (st, 1)
     \<and> map flags_of (delivered st) = [\<lparr>fl_mads = f_one, fl_experimental = f_one, fl_selfdrive = f_one, fl_lane = f_one\<rparr>]"
proof -
  obtain st where st: "runReceiveLoop ex_rx_can (loop_init ex_party) = Some (st, 1)" using ex_party_can by blast
  then show ?thesis using receive_loop_delivers [OF st]
    by (simp add: ex_rx_can_def ex_rx_def receptions_def is_can_def List.map_filter_def flags_init_def f_bool_def)
qed

text \<open>
  C27. The log counters. At every moment the three counters are the time spent on, the number of, and the number of CAN messages
  among the messages since the last log line; and a log line was written after every hundredth message, computed from the time and
  the callbacks of exactly the last hundred messages, so that it never divides by zero messages.
\<close>
theorem receive_loop_counters:
  assumes "runReceiveLoop ps (loop_init d) = Some (st, sleeps)"
  shows "let rs = receptions ps; since = drop (100 * (length rs div 100)) rs in
    msgCount st = length since \<and> msgTimeAccum st = sum_list (map rx_us since)
    \<and> callbackCount st = length (filter (is_can \<circ> rx_event) since)
    \<and> logged st = map (\<lambda>k. let last = take 100 (drop (100 * k) rs) in
          (sum_list (map rx_us last), 100, length (filter (is_can \<circ> rx_event) last))) [0..<length rs div 100]"
proof -
  let ?rs = "receptions ps"
  have run: "handle_all ?rs (loop_init d) = Some st" using assms by (auto simp: runReceiveLoop_all)
  have "counts_ok [] (loop_init d)" by (simp add: counts_ok_def summary_def loop_init_def)
  from handle_all_counts [OF run this] have c: "counts_ok ?rs st" by simp
  have "summary (block k ?rs) = (let last = take 100 (drop (100 * k) ?rs) in
      (sum_list (map rx_us last), 100, length (filter (is_can \<circ> rx_event) last)))" if "k < length ?rs div 100" for k
    using that by (simp add: summary_def block_def Let_def)
  then show ?thesis using c by (simp add: counts_ok_def summary_def Let_def)
qed

lemma receive_loop_counters_witness:
  "\<exists>st. runReceiveLoop ex_rx_can (loop_init ex_party) = Some (st, 1) \<and> msgCount st = length (receptions ex_rx_can)
    \<and> callbackCount st = 1 \<and> logged st = []"
proof -
  obtain st where st: "runReceiveLoop ex_rx_can (loop_init ex_party) = Some (st, 1)" using ex_party_can by blast
  then show ?thesis using receive_loop_counters [OF st]
    by (simp add: ex_rx_can_def ex_rx_def receptions_def is_can_def List.map_filter_def Let_def)
qed

end
