(* ===== verification/Msgq.thy ===== *)
theory Msgq
  imports Memory
begin

text \<open>
  The shared-memory queue, from \<open>bridge/msgq/msgq.h\<close> and \<open>bridge/msgq/msgq.cc\<close>: one publisher writes length-tagged
  messages into a ring that up to 15 readers follow, each with its own read pointer in the
  shared header. A pointer is a pair of a cycle count (upper 32 bits) and an offset.

  The segment is a record of the shared header and the data bytes; a process's handle is a record of its
  own. Each operation takes the handle and the segment and returns them updated; one operation runs to its end before the
  next one of another process starts. Random numbers, thread ids, the results of system calls and
  what other processes do during a sleep are arguments. A failed assertion or an access outside
  the segment is an explicit outcome.
\<close>

section \<open>Words\<close>

definition NUM_READERS :: nat where "NUM_READERS = 15"
definition DEFAULT_SEGMENT_SIZE :: u64 where "DEFAULT_SEGMENT_SIZE = 1 * 1024 * 1024"

definition ALIGN :: "u64 \<Rightarrow> u64" where
  "ALIGN n = (n + (8 - 1)) AND (- 8)"

definition UNPACK64 :: "u64 \<Rightarrow> u32 \<times> u32" where
  "UNPACK64 input = (ucast (drop_bit 32 input), ucast (input AND 0xFFFFFFFF))"

definition PACK64 :: "u32 \<Rightarrow> u32 \<Rightarrow> u64" where
  "PACK64 higher lower = push_bit 32 (ucast higher) OR (ucast lower AND 0xFFFFFFFF)"

section \<open>The shared segment and the handle\<close>

record msgq_header =
  num_readers :: u64
  write_pointer :: u64
  write_uid :: u64
  read_pointers :: "u64 list"
  read_valids :: "u64 list"
  read_uids :: "u64 list"

text \<open>\<open>tkills\<close> is the log of the threads that were sent \<open>SIGUSR2\<close>.\<close>

record msgq_seg = msgq_header +
  seg_data :: bytes
  tkills :: "u32 list"

definition sizeof_header :: u64 where "sizeof_header = 384"

record msgq_queue =
  q_mapped :: bool
  q_size :: u64
  reader_id :: int
  read_uid_local :: u64
  write_uid_local :: u64
  read_conflate :: bool
  q_endpoint :: string

definition msgq_get_uid :: "u32 \<Rightarrow> u32 \<Rightarrow> u64" where
  "msgq_get_uid rnd tid = push_bit 32 (ucast rnd) OR ucast tid"

definition thread_signal :: "u32 \<Rightarrow> msgq_seg \<Rightarrow> msgq_seg" where
  "thread_signal tid s = s\<lparr>tkills := tkills s @ [tid]\<rparr>"

section \<open>Messages\<close>

record msgq_msg =
  mq_size :: u64
  mq_data :: "bytes option"

text \<open>\<open>mem\<close> is what the allocator returned; its contents are indeterminate.\<close>

definition msgq_msg_init_size :: "bytes option \<Rightarrow> u64 \<Rightarrow> int \<times> msgq_msg" where
  "msgq_msg_init_size mem sz = (if mem = None then - 1 else 0, \<lparr>mq_size = sz, mq_data = mem\<rparr>)"

definition msgq_msg_init_data :: "bytes option \<Rightarrow> bytes \<Rightarrow> int \<times> msgq_msg" where
  "msgq_msg_init_data mem d =
     (let (r, m) = msgq_msg_init_size mem (word_of_nat (length d))
      in if r = 0 then (r, m\<lparr>mq_data := map_option (\<lambda>b. memcpy_at 0 d b) (mq_data m)\<rparr>) else (r, m))"

definition msgq_msg_close :: "msgq_msg \<Rightarrow> int \<times> msgq_msg" where
  "msgq_msg_close m = (0, m\<lparr>mq_data := (if 0 < mq_size m then None else mq_data m), mq_size := 0\<rparr>)"

section \<open>Opening a queue\<close>

text \<open>
  \<open>prefix\<close> is the environment variable \<open>OPENPILOT_PREFIX\<close>, \<open>fd\<close> and \<open>rc\<close> are the results of \<open>open\<close> and
  \<open>ftruncate\<close>, \<open>mapped\<close> says whether \<open>mmap\<close> succeeded. The result is the return value, the path opened and the
  handle.
\<close>

definition msgq_path :: "string option \<Rightarrow> string \<Rightarrow> string" where
  "msgq_path prefix path =
     ''/dev/shm/msgq_'' @ (case prefix of None \<Rightarrow> [] | Some p \<Rightarrow> p @ ''/'') @ path"

definition msgq_new_queue :: "string option \<Rightarrow> int \<Rightarrow> int \<Rightarrow> bool \<Rightarrow> string \<Rightarrow> u64 \<Rightarrow> msgq_queue
    \<Rightarrow> (int \<times> string \<times> msgq_queue) option" where
  "msgq_new_queue prefix fd rc mapped path sz q =
     (if \<not> sz < 0xFFFFFFFF then None
      else Some (
        let full_path = msgq_path prefix path in
        if fd < 0 then (- 1, full_path, q)
        else if rc < 0 then (- 1, full_path, q)
        else if \<not> mapped then (- 1, full_path, q)
        else (0, full_path, q\<lparr>q_mapped := True, q_size := sz, reader_id := - 1, q_endpoint := path,
                              read_conflate := False\<rparr>)))"

text \<open>\<open>close_queue\<close>: the size it unmaps, if it does.\<close>

definition msgq_close_queue :: "msgq_queue \<Rightarrow> u64 option" where
  "msgq_close_queue q = (if q_mapped q then Some (q_size q + sizeof_header) else None)"

section \<open>Publisher and subscribers\<close>

definition msgq_init_publisher :: "u64 \<Rightarrow> msgq_queue \<Rightarrow> msgq_seg \<Rightarrow> msgq_queue \<times> msgq_seg" where
  "msgq_init_publisher uid q s =
     (q\<lparr>write_uid_local := uid\<rparr>,
      s\<lparr>write_uid := uid, num_readers := 0, read_valids := replicate NUM_READERS 0,
        read_uids := replicate NUM_READERS 0\<rparr>)"

definition msgq_reset_reader :: "msgq_queue \<Rightarrow> msgq_seg \<Rightarrow> msgq_seg" where
  "msgq_reset_reader q s =
     (let i = nat (reader_id q)
      in s\<lparr>read_valids := (read_valids s)[i := 1], read_pointers := (read_pointers s)[i := write_pointer s]\<rparr>)"

definition low32 :: "u64 \<Rightarrow> u32" where
  "low32 uid = ucast (uid AND 0xFFFFFFFF)"

definition evict_all :: "msgq_seg \<Rightarrow> msgq_seg" where
  "evict_all s =
     s\<lparr>num_readers := 0, read_valids := replicate NUM_READERS 0, read_uids := replicate NUM_READERS 0,
       tkills := tkills s @ map low32 (take NUM_READERS (read_uids s))\<rparr>"

text \<open>
  The loop of \<open>init_subscriber\<close> turns at most twice: when all slots are taken it evicts every reader and
  starts over with none, and the compare-and-swap succeeds as no other process runs in between.
\<close>

definition claim_slot :: "u64 \<Rightarrow> msgq_queue \<Rightarrow> msgq_seg \<Rightarrow> msgq_queue \<times> msgq_seg" where
  "claim_slot uid q s =
     (let cur = num_readers s; i = unat cur
      in (q\<lparr>reader_id := int i, read_uid_local := uid\<rparr>,
          s\<lparr>num_readers := cur + 1, read_valids := (read_valids s)[i := 0],
            read_pointers := (read_pointers s)[i := 0], read_uids := (read_uids s)[i := uid]\<rparr>))"

definition msgq_init_subscriber :: "u64 \<Rightarrow> msgq_queue \<Rightarrow> msgq_seg \<Rightarrow> msgq_queue \<times> msgq_seg" where
  "msgq_init_subscriber uid q s =
     (let s = (if word_of_nat NUM_READERS < num_readers s + 1 then evict_all s else s);
          (q, s) = claim_slot uid q s
      in (q, msgq_reset_reader q s))"

section \<open>Sending\<close>

text \<open>Clears the valid flag of the first \<open>n\<close> readers whose cycle count and offset satisfy \<open>P\<close>.\<close>

definition invalidate :: "(u32 \<Rightarrow> u32 \<Rightarrow> bool) \<Rightarrow> nat \<Rightarrow> msgq_seg \<Rightarrow> msgq_seg" where
  "invalidate P n s =
     s\<lparr>read_valids := map (\<lambda>i. if i < n \<and> (case UNPACK64 (read_pointers s ! i) of (c, p) \<Rightarrow> P c p)
                              then 0 else read_valids s ! i) [0..<length (read_valids s)]\<rparr>"

definition wrap_around :: "u32 \<Rightarrow> u32 \<Rightarrow> msgq_seg \<Rightarrow> msgq_seg option" where
  "wrap_around write_cycles write_ptr s =
     do { d \<leftarrow> store64 (unat write_ptr) (- 1) (seg_data s);
          let s = invalidate (\<lambda>c p. write_ptr < p \<and> c \<noteq> write_cycles) (unat (num_readers s)) (s\<lparr>seg_data := d\<rparr>);
          Some (s\<lparr>write_pointer := PACK64 (write_cycles + 1) 0\<rparr>) }"

definition write_message :: "bytes \<Rightarrow> u32 \<Rightarrow> u32 \<Rightarrow> msgq_seg \<Rightarrow> msgq_seg option" where
  "write_message m write_cycles write_ptr s =
     (let n = word_of_nat (length m); start = ucast write_ptr; en = ALIGN (start + 8 + n);
          s = invalidate (\<lambda>c p. start \<le> ucast p \<and> ucast p < en \<and> c \<noteq> write_cycles) (unat (num_readers s)) s
      in do { d \<leftarrow> store64 (unat write_ptr) n (seg_data s);
              d \<leftarrow> store (unat write_ptr + 8) m d;
              Some (s\<lparr>seg_data := d, write_pointer := PACK64 write_cycles (ucast (ALIGN (ucast write_ptr + n + 8)))\<rparr>) })"

definition notify_readers :: "msgq_seg \<Rightarrow> msgq_seg" where
  "notify_readers s = s\<lparr>tkills := tkills s @ map low32 (take (unat (num_readers s)) (read_uids s))\<rparr>"

definition msgq_msg_send :: "bytes \<Rightarrow> msgq_queue \<Rightarrow> msgq_seg \<Rightarrow> (int \<times> msgq_seg) option" where
  "msgq_msg_send m q s =
     (if write_uid_local q \<noteq> write_uid s then Some (- 1, s)
      else
        (let n = word_of_nat (length m) :: u64;
             total_msg_size = ALIGN (n + 8);
             (write_cycles, write_ptr) = UNPACK64 (write_pointer s);
             remaining_space = sint (q_size q - ucast write_ptr - total_msg_size - 8)
         in if \<not> 3 * total_msg_size \<le> q_size q then None
            else if NUM_READERS < unat (num_readers s) then None
            else if remaining_space \<le> 0 then
              do { s \<leftarrow> wrap_around write_cycles write_ptr s;
                   s \<leftarrow> write_message m (write_cycles + 1) 0 s;
                   Some (sint (ucast n :: u32), notify_readers s) }
            else
              do { s \<leftarrow> write_message m write_cycles write_ptr s;
                   Some (sint (ucast n :: u32), notify_readers s) }))"

section \<open>Receiving\<close>

definition set_read_pointer :: "nat \<Rightarrow> u64 \<Rightarrow> msgq_seg \<Rightarrow> msgq_seg" where
  "set_read_pointer i p s = s\<lparr>read_pointers := (read_pointers s)[i := p]\<rparr>"

datatype recv_result = Aborted | Received int "bytes option"

text \<open>
  \<open>msg_recv\<close>: \<open>uid\<close> is the identity a new subscription gets, \<open>alloc\<close> says whether the allocation of the
  message succeeds. Each \<open>goto start\<close> is a recursive call; not returning is \<open>None\<close>.
\<close>

partial_function (option) msgq_msg_recv :: "u64 \<Rightarrow> bool \<Rightarrow> msgq_queue \<Rightarrow> msgq_seg
    \<Rightarrow> (recv_result \<times> msgq_queue \<times> msgq_seg) option" where
  "msgq_msg_recv uid alloc q s =
     (if reader_id q < 0 then Some (Aborted, q, s)
      else let i = nat (reader_id q) in
        if read_uid_local q \<noteq> read_uids s ! i then
          (case msgq_init_subscriber uid q s of (q, s) \<Rightarrow> msgq_msg_recv uid alloc q s)
        else if read_valids s ! i = 0 then msgq_msg_recv uid alloc q (msgq_reset_reader q s)
        else
          (case UNPACK64 (read_pointers s ! i) of (read_cycles, read_ptr) \<Rightarrow>
           case UNPACK64 (write_pointer s) of (write_cycles, write_ptr) \<Rightarrow>
             if read_ptr = write_ptr then Some (Received 0 None, q, s)
             else
               (case load64 (unat read_ptr) (seg_data s) of
                  None \<Rightarrow> Some (Aborted, q, s)
                | Some sz \<Rightarrow>
                    if read_valids s ! i = 0 then msgq_msg_recv uid alloc q (msgq_reset_reader q s)
                    else if sz = - 1 then
                      msgq_msg_recv uid alloc q (set_read_pointer i (PACK64 (read_cycles + 1) 0) s)
                    else if \<not> (sz < q_size q \<and> 0 < sint sz) then Some (Aborted, q, s)
                    else
                      (let new_read_ptr = ucast (ALIGN (ucast read_ptr + 8 + sz)) in
                       if read_conflate q \<and> new_read_ptr \<noteq> write_ptr then
                         msgq_msg_recv uid alloc q (set_read_pointer i (PACK64 read_cycles new_read_ptr) s)
                       else if \<not> alloc then Some (Received (- 1) None, q, s)
                       else
                         (case load (unat read_ptr + 8) (unat sz) (seg_data s) of
                            None \<Rightarrow> Some (Aborted, q, s)
                          | Some m \<Rightarrow>
                              (let s = set_read_pointer i (PACK64 read_cycles new_read_ptr) s in
                               if read_valids s ! i = 0 then msgq_msg_recv uid alloc q (msgq_reset_reader q s)
                               else Some (Received (sint (ucast sz :: u32)) (Some m), q, s)))))))"

partial_function (option) msgq_msg_ready :: "u64 \<Rightarrow> msgq_queue \<Rightarrow> msgq_seg
    \<Rightarrow> (bool option \<times> msgq_queue \<times> msgq_seg) option" where
  "msgq_msg_ready uid q s =
     (if reader_id q < 0 then Some (None, q, s)
      else let i = nat (reader_id q) in
        if read_uid_local q \<noteq> read_uids s ! i then
          (case msgq_init_subscriber uid q s of (q, s) \<Rightarrow> msgq_msg_ready uid q s)
        else if read_valids s ! i = 0 then msgq_msg_ready uid q (msgq_reset_reader q s)
        else
          (case UNPACK64 (read_pointers s ! i) of (read_cycles, read_ptr) \<Rightarrow>
           case UNPACK64 (write_pointer s) of (write_cycles, write_ptr) \<Rightarrow>
             Some (Some (read_ptr \<noteq> write_ptr), q, s)))"

declare msgq_msg_recv.simps [code] msgq_msg_ready.simps [code]

section \<open>Waiting\<close>

text \<open>\<open>wait_for_subscriber\<close>: the values its loop reads, one after the other; the number of turns.\<close>

fun msgq_wait_for_subscriber :: "u64 list \<Rightarrow> nat option" where
  "msgq_wait_for_subscriber [] = None"
| "msgq_wait_for_subscriber (n # ns) =
     (if n = 0 then map_option Suc (msgq_wait_for_subscriber ns) else Some 0)"

text \<open>
  \<open>poll\<close>: an item is a handle, its segment and its \<open>revents\<close>. A turn of the loop is the result of
  \<open>nanosleep\<close> and the segments as the other processes left them; a failed assertion and running out of
  turns are \<open>None\<close>.
\<close>

record pollitem =
  pi_q :: msgq_queue
  pi_seg :: msgq_seg
  revents :: int

definition check_item :: "u64 \<Rightarrow> pollitem \<Rightarrow> pollitem option" where
  "check_item uid it =
     do { (r, q, s) \<leftarrow> msgq_msg_ready uid (pi_q it) (pi_seg it);
          b \<leftarrow> r;
          Some \<lparr>pi_q = q, pi_seg = s, revents = (if b then 1 else 0)\<rparr> }"

fun check_items :: "u64 \<Rightarrow> pollitem list \<Rightarrow> pollitem list option" where
  "check_items uid [] = Some []"
| "check_items uid (it # its) =
     do { it \<leftarrow> check_item uid it; its \<leftarrow> check_items uid its; Some (it # its) }"

fun recheck_items :: "u64 \<Rightarrow> pollitem list \<Rightarrow> (pollitem list \<times> nat) option" where
  "recheck_items uid [] = Some ([], 0)"
| "recheck_items uid (it # its) =
     (if revents it = 0 then
        do { it \<leftarrow> check_item uid it; (its, n) \<leftarrow> recheck_items uid its;
             Some (it # its, if revents it = 0 then n else n + 1) }
      else do { (its, n) \<leftarrow> recheck_items uid its; Some (it # its, n) })"

fun poll_loop :: "u64 \<Rightarrow> int \<Rightarrow> (int \<times> msgq_seg list) list \<Rightarrow> nat \<Rightarrow> pollitem list \<Rightarrow> (nat \<times> pollitem list) option" where
  "poll_loop uid timeout turns (Suc n) its = Some (Suc n, its)"
| "poll_loop uid timeout [] 0 its = None"
| "poll_loop uid timeout ((ret, segs) # turns) 0 its =
     do { (its, n) \<leftarrow> recheck_items uid (map (\<lambda>(it, s). it\<lparr>pi_seg := s\<rparr>) (zip its segs));
          if timeout \<noteq> - 1 \<and> ret = 0 then Some (n, its) else poll_loop uid timeout turns n its }"

definition msgq_poll :: "u64 \<Rightarrow> int \<Rightarrow> (int \<times> msgq_seg list) list \<Rightarrow> pollitem list \<Rightarrow> (nat \<times> pollitem list) option" where
  "msgq_poll uid timeout turns its =
     do { its \<leftarrow> check_items uid its;
          poll_loop uid timeout turns (length (filter (\<lambda>it. revents it \<noteq> 0) its)) its }"

text \<open>The time \<open>nanosleep\<close> is asked for, in milliseconds, and its \<open>timespec\<close> in seconds and nanoseconds.\<close>

definition poll_timespec :: "int \<Rightarrow> int \<times> int" where
  "poll_timespec timeout =
     (let ms = (if timeout = - 1 then 100 else timeout) in (ms sdiv 1000, (ms smod 1000) * 1000 * 1000))"

definition msgq_all_readers_updated :: "msgq_seg \<Rightarrow> bool" where
  "msgq_all_readers_updated s =
     (if \<exists>i \<in> set [0..<unat (num_readers s)]. read_valids s ! i \<noteq> 0 \<and> write_pointer s \<noteq> read_pointers s ! i
      then False else 0 < num_readers s)"

end
