(* ===== verification/MsgqProof.thy ===== *)
theory MsgqProof
  imports Msgq "HOL-Library.Sublist"
begin

text \<open>
  Why the shared-memory queue is correct. The words of the protocol are related to natural numbers; the data area is
  read as a sequence of frames; every valid reader has a list of pending messages, which sending extends at the end and receiving
  shortens at the front. The system of one publisher and any number of readers then delivers
  to each reader a subsequence of what was sent.
\<close>

section \<open>Words as numbers\<close>

definition align :: "nat \<Rightarrow> nat" where
  "align n = 8 * ((n + 7) div 8)"

lemma align_bounds: "n \<le> align n" "align n \<le> n + 7" "align n mod 8 = 0"
  unfolding align_def by presburger+

lemma align_add: "a mod 8 = 0 \<Longrightarrow> align (a + n) = a + align n"
  unfolding align_def by presburger

lemma ALIGN_align:
  assumes "unat n + 7 < 2 ^ 64"
  shows "unat (ALIGN n) = align (unat n)"
proof -
  have m: "(- 8 :: u64) = NOT (mask 3)" by (simp add: mask_eq_exp_minus_1)
  have "ALIGN n = push_bit 3 (drop_bit 3 (n + 7))"
    unfolding ALIGN_def m by (rule bit_word_eqI) (auto simp: bit_simps)
  moreover have "unat (n + 7) = unat n + 7"
    using assms by (simp add: unat_word_ariths(1))
  ultimately have "unat (ALIGN n) = (8 * ((unat n + 7) div 8)) mod 2 ^ 64"
    by (simp add: push_bit_eq_mult drop_bit_eq_div unat_word_ariths unat_div)
  also have "\<dots> = 8 * ((unat n + 7) div 8)"
    using assms by (intro mod_less) linarith
  finally show ?thesis by (simp add: align_def)
qed

lemma UNPACK_PACK [simp]: "UNPACK64 (PACK64 c p) = (c, p)"
proof -
  have m: "(0xFFFFFFFF :: u64) = mask 32" by (simp add: mask_eq_exp_minus_1)
  have "ucast (drop_bit 32 (PACK64 c p)) = c"
    unfolding PACK64_def m by (rule bit_word_eqI) (auto simp: bit_simps)
  moreover have "ucast (PACK64 c p AND 0xFFFFFFFF) = p"
    unfolding PACK64_def m by (rule bit_word_eqI) (auto simp: bit_simps)
  ultimately show ?thesis by (simp add: UNPACK64_def)
qed

lemma sint_diff:
  fixes a b :: u64
  assumes "unat a < 2 ^ 62" "unat b < 2 ^ 62"
  shows "sint (a - b) = int (unat a) - int (unat b)"
proof -
  have small: "sint c = int (unat c)" if "unat c < 2 ^ 62" for c :: u64
  proof -
    have "int (unat c) < int (2 ^ 62)" using that by (simp only: of_nat_less_iff)
    then have u: "uint c < 2 ^ 62" by simp
    have "sint c = signed_take_bit 63 (uint c)" by (simp add: sint_uint)
    also have "\<dots> = uint c"
    proof (rule signed_take_bit_int_eq_self)
      show "- (2 ^ 63) \<le> uint c" by (rule order_trans [OF _ uint_ge_0]) simp
      show "uint c < 2 ^ 63" using u by simp
    qed
    finally show ?thesis by simp
  qed
  define A B where "A = int (unat a)" and "B = int (unat b)"
  have AB: "0 \<le> A" "0 \<le> B" "A < 4611686018427387904" "B < 4611686018427387904"
    using assms unfolding A_def B_def by (simp_all only: of_nat_0_le_iff of_nat_less_numeral_iff) simp_all
  have "sint (a - b) = signed_take_bit 63 (sint a - sint b)"
    using sint_word_ariths(2) [of a b] by simp
  also have "\<dots> = signed_take_bit 63 (A - B)" using assms small by (simp only: A_def B_def)
  also have "\<dots> = A - B" using AB by (intro signed_take_bit_int_eq_self) simp_all
  finally show ?thesis by (simp only: A_def B_def)
qed

text \<open>The two halves of a pointer as numbers.\<close>

definition cyc :: "u64 \<Rightarrow> nat" where "cyc w = unat (fst (UNPACK64 w))"
definition off :: "u64 \<Rightarrow> nat" where "off w = unat (snd (UNPACK64 w))"

lemma cyc_PACK [simp]: "cyc (PACK64 c p) = unat c" and off_PACK [simp]: "off (PACK64 c p) = unat p"
  by (simp_all add: cyc_def off_def)

lemma cyc_less: "cyc w < 2 ^ 32" and off_less: "off w < 2 ^ 32"
  using unsigned_less [of "fst (UNPACK64 w)"] unsigned_less [of "snd (UNPACK64 w)"] by (simp_all add: cyc_def off_def)

lemma UNPACK_nat: "UNPACK64 w = (word_of_nat (cyc w), word_of_nat (off w))"
  by (simp add: cyc_def off_def)

lemma word_of_nat_off: "n < 2 ^ 32 \<Longrightarrow> unat (word_of_nat n :: u32) = n"
  by (simp add: unsigned_of_nat take_bit_nat_eq_self)

lemma word_of_nat_len: "n < 2 ^ 32 \<Longrightarrow> unat (word_of_nat n :: u64) = n"
  by (simp add: unsigned_of_nat take_bit_nat_eq_self)

lemma unat_ucast_up: "unat (ucast (w :: u32) :: u64) = unat w"
  by (simp add: unsigned_ucast_eq take_bit_nat_eq_self unsigned_less order_less_trans [OF unsigned_less])

text \<open>The end of a frame of \<open>n\<close> bytes at offset \<open>p\<close>.\<close>

definition frame_end :: "nat \<Rightarrow> nat \<Rightarrow> nat" where
  "frame_end p n = align (p + 8 + n)"

lemma frame_end_bounds: "p + 8 + n \<le> frame_end p n" "frame_end p n \<le> p + 15 + n" "frame_end p n mod 8 = 0"
  using align_bounds [of "p + 8 + n"] by (simp_all add: frame_end_def)

lemma ALIGN_frame_end:
  assumes "unat p + 8 + n < 2 ^ 33" "n < 2 ^ 32"
  shows "unat (ALIGN (ucast (p :: u32) + 8 + word_of_nat n)) = frame_end (unat p) n"
proof -
  have "unat (ucast p + 8 + word_of_nat n :: u64) = unat p + 8 + n"
    using assms by (simp add: unat_word_ariths(1) unat_ucast_up word_of_nat_len)
  then show ?thesis using assms by (subst ALIGN_align) (simp_all add: frame_end_def)
qed

section \<open>The data area as frames\<close>

text \<open>\<open>frames d a b ms\<close>: from offset \<open>a\<close> up to \<open>b\<close> the data are the messages \<open>ms\<close>, each behind its length.\<close>

fun frames :: "bytes \<Rightarrow> nat \<Rightarrow> nat \<Rightarrow> bytes list \<Rightarrow> bool" where
  "frames d a b [] \<longleftrightarrow> a = b"
| "frames d a b (m # ms) \<longleftrightarrow>
     length m < 2 ^ 31 \<and> load64 a d = Some (word_of_nat (length m)) \<and> load (a + 8) (length m) d = Some m
     \<and> frames d (frame_end a (length m)) b ms"

lemma frames_le: "frames d a b ms \<Longrightarrow> a \<le> b \<and> (ms \<noteq> [] \<longrightarrow> a < b)"
proof (induction ms arbitrary: a)
  case (Cons m ms)
  then have "frame_end a (length m) \<le> b" by simp
  then show ?case using frame_end_bounds(1) [of a "length m"] by simp
qed simp

lemma frames_append: "frames d a b ms \<Longrightarrow> frames d b c ns \<Longrightarrow> frames d a c (ms @ ns)"
  by (induction ms arbitrary: a) simp_all

lemma load64_store_apart:
  "store o1 bs d = Some d' \<Longrightarrow> a + 8 \<le> o1 \<or> o1 + length bs \<le> a \<Longrightarrow> load64 a d' = load64 a d"
  unfolding load64_def by (simp add: load_store_apart)

lemma frames_store:
  "frames d a b ms \<Longrightarrow> store o1 bs d = Some d' \<Longrightarrow> b \<le> o1 \<or> o1 + length bs \<le> a \<Longrightarrow> frames d' a b ms"
proof (induction ms arbitrary: a)
  case (Cons m ms)
  have e: "frame_end a (length m) \<le> b" using Cons.prems(1) frames_le [of d "frame_end a (length m)" b ms] by simp
  note f = frame_end_bounds(1) [of a "length m"]
  have "load64 a d' = load64 a d"
    by (rule load64_store_apart [OF Cons.prems(2)]) (use Cons.prems(3) e f in linarith)
  moreover have "load (a + 8) (length m) d' = load (a + 8) (length m) d"
    by (rule load_store_apart [OF Cons.prems(2)]) (use Cons.prems(3) e f in linarith)
  moreover have "frames d' (frame_end a (length m)) b ms"
    by (rule Cons.IH) (use Cons.prems e f in \<open>auto\<close>)
  ultimately show ?case using Cons.prems(1) by simp
qed simp

lemma frames_in: "frames d a b ms \<Longrightarrow> a mod 8 = 0 \<Longrightarrow> b mod 8 = 0"
  using frame_end_bounds(3) by (induction ms arbitrary: a) auto

section \<open>Readers\<close>

text \<open>
  What a valid reader at pointer \<open>r\<close> still has to read when the write pointer is \<open>w\<close>. Either it is in the lap of the
  writer, and the frames up to the writer are pending; or it is behind, in what is left of an older
  lap, and has the frames up to the wrap-around tag and those of the new lap pending. A pointer in an old lap
  has an older cycle count than the writer, so that overwriting its frame invalidates it.
\<close>

inductive pending :: "bytes \<Rightarrow> u64 \<Rightarrow> u64 \<Rightarrow> bytes list \<Rightarrow> bool" for d w r where
  same_lap: "cyc r \<le> cyc w \<Longrightarrow> frames d (off r) (off w) ms \<Longrightarrow> pending d w r ms"
| old_lap: "cyc r < cyc w \<Longrightarrow> off w \<le> off r \<Longrightarrow> frames d (off r) t old \<Longrightarrow> load64 t d = Some (- 1) \<Longrightarrow>
    frames d 0 (off w) new \<Longrightarrow> pending d w r (old @ new)"

definition seg_ok :: "nat \<Rightarrow> msgq_seg \<Rightarrow> bool" where
  "seg_ok N s \<longleftrightarrow> length (seg_data s) = N \<and> N < 2 ^ 32 \<and> off (write_pointer s) mod 8 = 0
     \<and> off (write_pointer s) + 8 \<le> N \<and> unat (num_readers s) \<le> NUM_READERS
     \<and> length (read_pointers s) = NUM_READERS \<and> length (read_valids s) = NUM_READERS
     \<and> length (read_uids s) = NUM_READERS \<and> (\<forall>r \<in> set (read_pointers s). off r mod 8 = 0)"

definition slot_pending :: "msgq_seg \<Rightarrow> nat \<Rightarrow> bytes list \<Rightarrow> bool" where
  "slot_pending s i ms \<longleftrightarrow> pending (seg_data s) (write_pointer s) (read_pointers s ! i) ms"

section \<open>Sending\<close>

text \<open>The conditions of the code, over numbers.\<close>

lemma invalidate_simps [simp]:
  "num_readers (invalidate P n s) = num_readers s" "write_pointer (invalidate P n s) = write_pointer s"
  "write_uid (invalidate P n s) = write_uid s" "read_pointers (invalidate P n s) = read_pointers s"
  "read_uids (invalidate P n s) = read_uids s" "seg_data (invalidate P n s) = seg_data s"
  "length (read_valids (invalidate P n s)) = length (read_valids s)" "tkills (invalidate P n s) = tkills s"
  by (simp_all add: invalidate_def)

lemma read_valids_invalidate:
  "i < length (read_valids s) \<Longrightarrow> read_valids (invalidate P n s) ! i =
     (if i < n \<and> P (fst (UNPACK64 (read_pointers s ! i))) (snd (UNPACK64 (read_pointers s ! i))) then 0
      else read_valids s ! i)"
  by (simp add: invalidate_def case_prod_beta)

lemma write_message_ok:
  assumes "length (seg_data s) = N" "N < 2 ^ 32" "unat w mod 8 = 0" "unat w + length m + 16 \<le> N" "length m < 2 ^ 31"
  obtains d where "write_message m c w s = Some ((invalidate (\<lambda>rc p. w \<le> p \<and> unat p < frame_end (unat w) (length m) \<and> rc \<noteq> c)
        (unat (num_readers s)) s)\<lparr>seg_data := d, write_pointer := PACK64 c (word_of_nat (frame_end (unat w) (length m)))\<rparr>)"
    "length d = N" "load64 (unat w) d = Some (word_of_nat (length m))" "load (unat w + 8) (length m) d = Some m"
    "\<And>a b ms. frames (seg_data s) a b ms \<Longrightarrow> b \<le> unat w \<or> frame_end (unat w) (length m) \<le> a \<Longrightarrow> frames d a b ms"
    "\<And>t. frame_end (unat w) (length m) \<le> t \<Longrightarrow> load64 t d = load64 t (seg_data s)"
proof -
  let ?e = "frame_end (unat w) (length m)" and ?n = "word_of_nat (length m) :: u64"
  have len: "length m < 2 ^ 32" using assms(5) by simp
  have e1: "unat (ALIGN (ucast w + 8 + ?n)) = ?e"
    by (rule ALIGN_frame_end) (use assms len in simp_all)
  have e2: "ALIGN (ucast w + ?n + 8) = ALIGN (ucast w + 8 + ?n)" by (simp add: add.commute add.left_commute)
  have up: "ucast (ALIGN (ucast w + ?n + 8)) = (word_of_nat ?e :: u32)"
    unfolding e2 e1 [symmetric] by simp
  have cond: "(\<lambda>rc p. ucast w \<le> (ucast p :: u64) \<and> ucast p < ALIGN (ucast w + 8 + ?n) \<and> rc \<noteq> c)
      = (\<lambda>rc p. w \<le> p \<and> unat p < ?e \<and> rc \<noteq> c)"
    by (simp add: fun_eq_iff word_le_nat_alt word_less_nat_alt unat_ucast_up e1)
  obtain d1 where d1: "store64 (unat w) ?n (seg_data s) = Some d1"
    using assms(1,4) by (simp add: store64_def store_def)
  obtain d where d: "store (unat w + 8) m d1 = Some d"
    using assms(1,4) d1 by (auto simp: store64_def store_def length_memcpy_at split: if_splits)
  note f = frame_end_bounds(1) [of "unat w" "length m"]
  have s1: "store (unat w) (word_bytes ?n) (seg_data s) = Some d1" using d1 by (simp add: store64_def)
  show thesis
  proof (rule that [of d])
    show "write_message m c w s = Some ((invalidate (\<lambda>rc p. w \<le> p \<and> unat p < ?e \<and> rc \<noteq> c)
        (unat (num_readers s)) s)\<lparr>seg_data := d, write_pointer := PACK64 c (word_of_nat ?e)\<rparr>)"
      unfolding write_message_def Let_def cond up by (simp add: d1 d)
    show "length d = N" using assms(1) length_store [OF d] length_store [OF s1] by simp
    show "load64 (unat w) d = Some ?n"
      using load64_store64 [OF d1] load64_store_apart [OF d, of "unat w"] by simp
    show "load (unat w + 8) (length m) d = Some m" by (rule load_store_same [OF d])
  next
    fix a b ms assume fr: "frames (seg_data s) a b ms" and ap: "b \<le> unat w \<or> ?e \<le> a"
    have "frames d1 a b ms" by (rule frames_store [OF fr s1]) (use ap f in auto)
    then show "frames d a b ms" by (rule frames_store [OF _ d]) (use ap f in auto)
  next
    fix t assume "?e \<le> t"
    then show "load64 t d = load64 t (seg_data s)"
      using load64_store_apart [OF d, of t] load64_store_apart [OF s1, of t] f by simp
  qed
qed

lemma pending_write:
  assumes p: "pending d w r ms"
    and m: "length m < 2 ^ 31" "load64 (off w) d' = Some (word_of_nat (length m))"
      "load (off w + 8) (length m) d' = Some m"
    and keep: "\<And>a b ms. frames d a b ms \<Longrightarrow> b \<le> off w \<or> frame_end (off w) (length m) \<le> a \<Longrightarrow> frames d' a b ms"
      "\<And>t. frame_end (off w) (length m) \<le> t \<Longrightarrow> load64 t d' = load64 t d"
    and valid: "\<not> (off w \<le> off r \<and> off r < frame_end (off w) (length m) \<and> cyc r \<noteq> cyc w)"
    and w': "cyc w' = cyc w" "off w' = frame_end (off w) (length m)"
  shows "pending d' w' r (ms @ [m])"
proof -
  have new: "frames d' (off w) (off w') [m]" using m w' by simp
  from p show ?thesis
  proof cases
    case same_lap
    then have "frames d' (off r) (off w) ms" by (intro keep(1)) auto
    then have "frames d' (off r) (off w') (ms @ [m])" using new by (rule frames_append)
    then show ?thesis using same_lap w' by (intro pending.same_lap) simp_all
  next
    case (old_lap t old new)
    have e: "off w' \<le> off r" using old_lap valid w' by auto
    then have o: "frames d' (off r) t old" using old_lap w' by (intro keep(1)) auto
    then have "off r \<le> t" using frames_le by blast
    then have "load64 t d' = Some (- 1)" using keep(2) [of t] old_lap e w' by simp
    moreover have "frames d' 0 (off w') (new @ [m])"
      using keep(1) [OF \<open>frames d 0 (off w) new\<close>] \<open>frames d' (off w) (off w') [m]\<close> frames_append by blast
    ultimately have "pending d' w' r (old @ (new @ [m]))"
      using old_lap o e w' by (intro pending.old_lap) simp_all
    then show ?thesis using old_lap by simp
  qed
qed

lemma pending_wrap:
  assumes p: "pending d w r ms" and d': "store64 (off w) (- 1) d = Some d'"
    and valid: "\<not> (off w < off r \<and> cyc r \<noteq> cyc w)"
    and w': "cyc w' = cyc w + 1" "off w' = 0"
  shows "pending d' w' r ms \<or> pending d' w' r []"
proof -
  have tag: "load64 (off w) d' = Some (- 1)" by (rule load64_store64 [OF d'])
  have nil: "frames d' 0 (off w') []" using w' by simp
  from p show ?thesis
  proof cases
    case same_lap
    then have "frames d' (off r) (off w) ms"
      using frames_store d' unfolding store64_def by blast
    then have "pending d' w' r (ms @ [])"
      using same_lap nil tag w' by (intro pending.old_lap) simp_all
    then show ?thesis by simp
  next
    case (old_lap t old new)
    then have r: "off r = off w" using valid by auto
    then have "pending d' w' r ([] @ [])"
      using old_lap nil tag w' by (intro pending.old_lap [of _ _ _ "off r"]) simp_all
    then show ?thesis by simp
  qed
qed

lemma seg_ok_off: "seg_ok N s \<Longrightarrow> i < NUM_READERS \<Longrightarrow> off (read_pointers s ! i) mod 8 = 0"
  by (simp add: seg_ok_def)

text \<open>\<open>written m c w s s'\<close>: the message \<open>m\<close> was written after the write pointer \<open>PACK64 c w\<close>.\<close>

definition written :: "bytes \<Rightarrow> u32 \<Rightarrow> u32 \<Rightarrow> msgq_seg \<Rightarrow> msgq_seg \<Rightarrow> bool" where
  "written m c w s s' \<longleftrightarrow>
     (num_readers s' = num_readers s \<and> read_uids s' = read_uids s \<and> read_pointers s' = read_pointers s
      \<and> write_uid s' = write_uid s \<and> write_pointer s' = PACK64 c (word_of_nat (frame_end (unat w) (length m))))
     \<and> load64 (unat w) (seg_data s') = Some (word_of_nat (length m)) \<and> load (unat w + 8) (length m) (seg_data s') = Some m
     \<and> (\<forall>a b ms. frames (seg_data s) a b ms \<longrightarrow> b \<le> unat w \<or> frame_end (unat w) (length m) \<le> a \<longrightarrow> frames (seg_data s') a b ms)
     \<and> (\<forall>t. frame_end (unat w) (length m) \<le> t \<longrightarrow> load64 t (seg_data s') = load64 t (seg_data s))
     \<and> (\<forall>i < NUM_READERS. read_valids s' ! i =
         (if i < unat (num_readers s) \<and> unat w \<le> off (read_pointers s ! i)
             \<and> off (read_pointers s ! i) < frame_end (unat w) (length m) \<and> cyc (read_pointers s ! i) \<noteq> unat c
          then 0 else read_valids s ! i))"

lemma write_message_pending:
  assumes ok: "seg_ok N s" and wp: "write_pointer s = PACK64 c w" and space: "unat w + align (length m + 8) + 8 \<le> N"
    and m: "length m < 2 ^ 31"
  shows "\<exists>s'. write_message m c w s = Some s' \<and> seg_ok N s' \<and> written m c w s s'"
proof -
  have N: "length (seg_data s) = N" "N < 2 ^ 32" and w8: "unat w mod 8 = 0"
    using ok by (simp_all add: seg_ok_def wp)
  have fe: "frame_end (unat w) (length m) = unat w + align (length m + 8)"
    using align_add [OF w8, of "length m + 8"] by (simp add: frame_end_def add.commute add.left_commute)
  have "unat w + length m + 16 \<le> N" using align_bounds(1) [of "length m + 8"] space by linarith
  from write_message_ok [OF N w8 this m, of c]
  obtain d where d: "write_message m c w s = Some ((invalidate (\<lambda>rc p. w \<le> p \<and> unat p < frame_end (unat w) (length m) \<and> rc \<noteq> c)
        (unat (num_readers s)) s)\<lparr>seg_data := d, write_pointer := PACK64 c (word_of_nat (frame_end (unat w) (length m)))\<rparr>)"
    "length d = N" "load64 (unat w) d = Some (word_of_nat (length m))" "load (unat w + 8) (length m) d = Some m"
    "\<And>a b ms. frames (seg_data s) a b ms \<Longrightarrow> b \<le> unat w \<or> frame_end (unat w) (length m) \<le> a \<Longrightarrow> frames d a b ms"
    "\<And>t. frame_end (unat w) (length m) \<le> t \<Longrightarrow> load64 t d = load64 t (seg_data s)"
    by blast
  have o: "unat (word_of_nat (frame_end (unat w) (length m)) :: u32) = frame_end (unat w) (length m)"
    using space N by (intro word_of_nat_off) (simp add: fe)
  have v: "read_valids (invalidate (\<lambda>rc p. w \<le> p \<and> unat p < frame_end (unat w) (length m) \<and> rc \<noteq> c)
        (unat (num_readers s)) s) ! i =
       (if i < unat (num_readers s) \<and> unat w \<le> off (read_pointers s ! i)
           \<and> off (read_pointers s ! i) < frame_end (unat w) (length m) \<and> cyc (read_pointers s ! i) \<noteq> unat c
        then 0 else read_valids s ! i)" if "i < NUM_READERS" for i
    using that ok by (simp add: seg_ok_def read_valids_invalidate off_def cyc_def word_le_nat_alt word_unat_eq_iff)
  let ?s = "(invalidate (\<lambda>rc p. w \<le> p \<and> unat p < frame_end (unat w) (length m) \<and> rc \<noteq> c)
        (unat (num_readers s)) s)\<lparr>seg_data := d, write_pointer := PACK64 c (word_of_nat (frame_end (unat w) (length m)))\<rparr>"
  have "seg_ok N ?s"
    using ok d(2) o space frame_end_bounds(3) [of "unat w" "length m"] fe by (simp add: seg_ok_def del: of_nat_add)
  moreover have "written m c w s ?s" using d(3-6) v by (simp add: written_def)
  ultimately show ?thesis using d(1) by blast
qed

lemma PACK_UNPACK: "PACK64 (fst (UNPACK64 w)) (snd (UNPACK64 w)) = w"
proof -
  have m: "(0xFFFFFFFF :: u64) = mask 32" by (simp add: mask_eq_exp_minus_1)
  show ?thesis
    unfolding PACK64_def UNPACK64_def m by (rule bit_word_eqI) (auto simp: bit_simps)
qed

lemma fits_len: "3 * align (n + 8) \<le> N \<Longrightarrow> N < 2 ^ 32 \<Longrightarrow> n < 2 ^ 31"
  using align_bounds(1) [of "n + 8"] by simp

lemma send_unfold:
  assumes "seg_ok N s" "q_size q = word_of_nat N" "write_uid_local q = write_uid s" "3 * align (length m + 8) \<le> N"
  defines "c \<equiv> fst (UNPACK64 (write_pointer s))" and "p \<equiv> snd (UNPACK64 (write_pointer s))"
  shows "msgq_msg_send m q s =
    (if N \<le> off (write_pointer s) + align (length m + 8) + 8
     then do { s \<leftarrow> wrap_around c p s; s \<leftarrow> write_message m (c + 1) 0 s; Some (int (length m), notify_readers s) }
     else do { s \<leftarrow> write_message m c p s; Some (int (length m), notify_readers s) })"
proof -
  let ?n = "word_of_nat (length m) :: u64" and ?t = "align (length m + 8)"
  have N: "N < 2 ^ 32" "unat (num_readers s) \<le> NUM_READERS" using assms(1) by (simp_all add: seg_ok_def)
  have len: "length m < 2 ^ 31" using fits_len assms(4) N by blast
  have n: "unat (?n + 8) = length m + 8" using len by (simp add: unat_word_ariths(1) word_of_nat_len)
  have t: "unat (ALIGN (?n + 8)) = ?t" using len by (subst ALIGN_align) (simp_all add: n)
  have t3: "unat (3 * ALIGN (?n + 8)) = 3 * ?t"
    using assms(4) N by (simp add: unat_word_ariths(2) t)
  have fit: "3 * ALIGN (?n + 8) \<le> q_size q"
    using assms(4) N by (simp add: word_le_nat_alt t3 assms(2) word_of_nat_len)
  have sum: "unat (ucast p + ALIGN (?n + 8) + 8 :: u64) = off (write_pointer s) + ?t + 8"
    using assms(4) N off_less [of "write_pointer s"]
    by (simp add: unat_word_ariths(1) t unat_ucast_up p_def off_def)
  have "sint (q_size q - ucast p - ALIGN (?n + 8) - 8) = sint (q_size q - (ucast p + ALIGN (?n + 8) + 8))"
    by (simp add: algebra_simps)
  also have "\<dots> = int N - int (off (write_pointer s) + ?t + 8)"
    using assms(4) N off_less [of "write_pointer s"] sum
    by (subst sint_diff) (simp_all add: assms(2) word_of_nat_len)
  finally have rem: "sint (q_size q - ucast p - ALIGN (?n + 8) - 8) \<le> 0 \<longleftrightarrow> N \<le> off (write_pointer s) + ?t + 8"
    by (simp only: diff_le_0_iff_le of_nat_le_iff)
  have r: "sint (ucast ?n :: u32) = int (length m)"
    using len by (simp add: unsigned_of_nat take_bit_nat_eq_self signed_of_nat signed_take_bit_int_eq_self)
  show ?thesis
    using assms(3) N(2) fit rem r
    by (simp add: msgq_msg_send_def Let_def case_prod_beta c_def p_def not_le [symmetric])
qed

lemma notify_simps [simp]:
  "num_readers (notify_readers s) = num_readers s" "write_pointer (notify_readers s) = write_pointer s"
  "write_uid (notify_readers s) = write_uid s" "read_pointers (notify_readers s) = read_pointers s"
  "read_uids (notify_readers s) = read_uids s" "seg_data (notify_readers s) = seg_data s"
  "read_valids (notify_readers s) = read_valids s"
  by (simp_all add: notify_readers_def)

lemma seg_ok_notify [simp]: "seg_ok N (notify_readers s) = seg_ok N s"
  by (simp add: seg_ok_def)

lemma slot_pending_notify [simp]: "slot_pending (notify_readers s) i ms = slot_pending s i ms"
  by (simp add: slot_pending_def)

text \<open>The wrap-around: the tag is at the write pointer, and the pointer at the start of the next lap.\<close>

definition wrapped :: "msgq_seg \<Rightarrow> msgq_seg \<Rightarrow> bool" where
  "wrapped s s1 \<longleftrightarrow> store64 (off (write_pointer s)) (- 1) (seg_data s) = Some (seg_data s1)
     \<and> write_pointer s1 = PACK64 (fst (UNPACK64 (write_pointer s)) + 1) 0
     \<and> num_readers s1 = num_readers s \<and> read_uids s1 = read_uids s \<and> read_pointers s1 = read_pointers s
     \<and> write_uid s1 = write_uid s
     \<and> (\<forall>i < NUM_READERS. read_valids s1 ! i =
         (if i < unat (num_readers s) \<and> off (write_pointer s) < off (read_pointers s ! i)
             \<and> cyc (read_pointers s ! i) \<noteq> cyc (write_pointer s) then 0 else read_valids s ! i))"

lemma wrap_around_ok:
  assumes ok: "seg_ok N s" and cy: "cyc (write_pointer s) + 1 < 2 ^ 32"
  defines "c \<equiv> fst (UNPACK64 (write_pointer s))" and "p \<equiv> snd (UNPACK64 (write_pointer s))"
  shows "\<exists>s1. wrap_around c p s = Some s1 \<and> seg_ok N s1 \<and> wrapped s s1"
proof -
  let ?w = "write_pointer s"
  have cp: "unat c = cyc ?w" "unat p = off ?w" by (simp_all add: c_def p_def cyc_def off_def)
  have N: "length (seg_data s) = N" "off ?w + 8 \<le> N" using ok by (simp_all add: seg_ok_def)
  obtain d1 where d1: "store64 (off ?w) (- 1) (seg_data s) = Some d1"
    using N by (simp add: store64_def store_def)
  define s1 where "s1 = (invalidate (\<lambda>rc r. p < r \<and> rc \<noteq> c) (unat (num_readers s)) (s\<lparr>seg_data := d1\<rparr>))
      \<lparr>write_pointer := PACK64 (c + 1) 0\<rparr>"
  have wrap: "wrap_around c p s = Some s1"
    using d1 cp by (simp add: wrap_around_def s1_def)
  have len1: "length d1 = N" using length_store d1 N unfolding store64_def by metis
  have ok1: "seg_ok N s1" using ok len1 N by (simp add: s1_def seg_ok_def)
  have "fst (UNPACK64 x) \<noteq> c \<longleftrightarrow> cyc x \<noteq> cyc ?w" "p < snd (UNPACK64 x) \<longleftrightarrow> off ?w < off x" for x
    using cp by (simp_all add: cyc_def off_def word_less_nat_alt word_unat_eq_iff)
  then have "wrapped s s1" using d1 ok by (simp add: wrapped_def s1_def c_def read_valids_invalidate seg_ok_def)
  then show ?thesis using wrap ok1 by blast
qed

text \<open>
  Sending keeps the segment well-formed, validates no reader, and for every reader that stays valid
  either appends the message to its pending ones or leaves only the message.
\<close>

lemma send_ok:
  assumes ok: "seg_ok N s" and q: "q_size q = word_of_nat N" "write_uid_local q = write_uid s"
    and m: "3 * align (length m + 8) \<le> N" and cy: "cyc (write_pointer s) + 1 < 2 ^ 32"
  obtains s' where "msgq_msg_send m q s = Some (int (length m), s')" "seg_ok N s'" "num_readers s' = num_readers s"
    "read_uids s' = read_uids s" "read_pointers s' = read_pointers s" "write_uid s' = write_uid s"
    "cyc (write_pointer s') \<le> cyc (write_pointer s) + 1"
    "\<And>i. i < unat (num_readers s) \<Longrightarrow> read_valids s' ! i \<noteq> 0 \<Longrightarrow> read_valids s ! i \<noteq> 0"
    "\<And>i ms. i < unat (num_readers s) \<Longrightarrow> read_valids s' ! i \<noteq> 0 \<Longrightarrow> slot_pending s i ms \<Longrightarrow>
       slot_pending s' i (ms @ [m]) \<or> slot_pending s' i [m]"
proof -
  let ?w = "write_pointer s"
  define c p where "c = fst (UNPACK64 ?w)" and "p = snd (UNPACK64 ?w)"
  have wcp: "?w = PACK64 c p" by (simp add: c_def p_def PACK_UNPACK)
  have cp: "unat c = cyc ?w" "unat p = off ?w" by (simp_all add: c_def p_def cyc_def off_def)
  have N: "N < 2 ^ 32" "length (seg_data s) = N" "off ?w + 8 \<le> N" and nr: "unat (num_readers s) \<le> NUM_READERS"
    using ok by (simp_all add: seg_ok_def)
  have len: "length m < 2 ^ 31" using fits_len m N(1) by blast
  note unfold = send_unfold [OF ok q m, folded c_def p_def]
  show thesis
  proof (cases "N \<le> off ?w + align (length m + 8) + 8")
    case False
    then have space: "unat p + align (length m + 8) + 8 \<le> N" using cp by simp
    from write_message_pending [OF ok wcp space len]
    obtain s' where s': "write_message m c p s = Some s'" "seg_ok N s'" "written m c p s s'" by blast
    note W = s'(3) [unfolded written_def cp]
    have same: "num_readers s' = num_readers s" "read_uids s' = read_uids s" "read_pointers s' = read_pointers s"
      "write_uid s' = write_uid s" using W by simp_all
    have fe: "off (write_pointer s') = frame_end (off ?w) (length m)" "cyc (write_pointer s') = cyc ?w"
    proof -
      have "frame_end (off ?w) (length m) = off ?w + align (length m + 8)"
        using align_add [of "off ?w" "length m + 8"] ok by (simp add: seg_ok_def frame_end_def add.commute add.left_commute)
      then have "frame_end (off ?w) (length m) < 2 ^ 32" using space cp N(1) by linarith
      then show "off (write_pointer s') = frame_end (off ?w) (length m)" "cyc (write_pointer s') = cyc ?w"
        using W cp by (simp_all add: word_of_nat_off)
    qed
    show thesis
    proof (rule that [of "notify_readers s'"])
      fix i ms assume i: "i < unat (num_readers s)" and v: "read_valids (notify_readers s') ! i \<noteq> 0"
      have inv: "\<not> (off ?w \<le> off (read_pointers s ! i) \<and> off (read_pointers s ! i) < frame_end (off ?w) (length m)
          \<and> cyc (read_pointers s ! i) \<noteq> cyc ?w)" and v0: "read_valids s ! i \<noteq> 0"
        using v W i nr by (auto split: if_splits)
      show "read_valids s ! i \<noteq> 0" by (rule v0)
      assume "slot_pending s i ms"
      then have "pending (seg_data s') (write_pointer s') (read_pointers s ! i) (ms @ [m])"
        unfolding slot_pending_def
        by (rule pending_write [OF _ len]) (use W fe inv in auto)
      then show "slot_pending (notify_readers s') i (ms @ [m]) \<or> slot_pending (notify_readers s') i [m]"
        using same by (simp add: slot_pending_def)
    qed (use unfold s'(1,2) same fe False in simp_all)
  next
    case True
    obtain s1 where wrap: "wrap_around c p s = Some s1" and ok1: "seg_ok N s1" and W1: "wrapped s s1"
      using wrap_around_ok [OF ok cy] unfolding c_def p_def by blast
    have c1: "unat (c + 1) = cyc ?w + 1" using cy cp by (simp add: unat_word_ariths(1))
    have space: "unat (0 :: u32) + align (length m + 8) + 8 \<le> N" using m align_bounds(1) [of "length m + 8"] by simp
    have s1_wp: "write_pointer s1 = PACK64 (c + 1) 0" using W1 by (simp add: wrapped_def c_def)
    have same: "num_readers s1 = num_readers s" "read_uids s1 = read_uids s" "read_pointers s1 = read_pointers s"
      "write_uid s1 = write_uid s" using W1 by (simp_all add: wrapped_def)
    have w1: "cyc (write_pointer s1) = cyc ?w + 1" "off (write_pointer s1) = 0" using c1 s1_wp by simp_all
    have v1: "read_valids s1 ! i = (if i < unat (num_readers s) \<and> off ?w < off (read_pointers s ! i)
        \<and> cyc (read_pointers s ! i) \<noteq> cyc ?w then 0 else read_valids s ! i)" if "i < NUM_READERS" for i
      using W1 that by (simp add: wrapped_def)
    have d1: "store64 (off ?w) (- 1) (seg_data s) = Some (seg_data s1)" using W1 by (simp add: wrapped_def)
    from write_message_pending [OF ok1 s1_wp space len]
    obtain s' where s': "write_message m (c + 1) 0 s1 = Some s'" "seg_ok N s'" "written m (c + 1) 0 s1 s'" by blast
    note W = s'(3) [unfolded written_def c1 unsigned_0]
    have same': "num_readers s' = num_readers s1" "read_uids s' = read_uids s1" "read_pointers s' = read_pointers s1"
      "write_uid s' = write_uid s1" using W by simp_all
    have fe: "off (write_pointer s') = frame_end 0 (length m)" "cyc (write_pointer s') = cyc ?w + 1"
    proof -
      have "frame_end 0 (length m) < 2 ^ 32" using space N(1) by (simp add: frame_end_def add.commute)
      then show "off (write_pointer s') = frame_end 0 (length m)" "cyc (write_pointer s') = cyc ?w + 1"
        using W c1 by (simp_all add: word_of_nat_off)
    qed
    show thesis
    proof (rule that [of "notify_readers s'"])
      fix i ms assume i: "i < unat (num_readers s)" and v: "read_valids (notify_readers s') ! i \<noteq> 0"
      let ?r = "read_pointers s ! i"
      have vs: "\<not> (off ?r < frame_end 0 (length m) \<and> cyc ?r \<noteq> cyc ?w + 1)" "\<not> (off ?w < off ?r \<and> cyc ?r \<noteq> cyc ?w)"
        "read_valids s ! i \<noteq> 0"
        using v W v1 [of i] i nr same by (auto split: if_splits)
      show "read_valids s ! i \<noteq> 0" by (rule vs(3))
      assume "slot_pending s i ms"
      then have "pending (seg_data s1) (write_pointer s1) ?r ms \<or> pending (seg_data s1) (write_pointer s1) ?r []"
        unfolding slot_pending_def using pending_wrap [OF _ d1 vs(2)] w1 by blast
      moreover have "pending (seg_data s') (write_pointer s') ?r (xs @ [m])" if "pending (seg_data s1) (write_pointer s1) ?r xs" for xs
        by (rule pending_write [OF that len]) (use W same w1 fe vs in auto)
      ultimately have "pending (seg_data s') (write_pointer s') ?r (ms @ [m])
          \<or> pending (seg_data s') (write_pointer s') ?r ([] @ [m])" by blast
      then show "slot_pending (notify_readers s') i (ms @ [m]) \<or> slot_pending (notify_readers s') i [m]"
        using same'(3) same(3) by (simp add: slot_pending_def)
    qed (use unfold wrap s'(1,2) same same' fe True in simp_all)
  qed
qed

section \<open>Receiving\<close>

text \<open>A handle attached to slot \<open>i\<close> whose reader is valid.\<close>

definition attached :: "nat \<Rightarrow> nat \<Rightarrow> msgq_queue \<Rightarrow> msgq_seg \<Rightarrow> bool" where
  "attached N i q s \<longleftrightarrow> reader_id q = int i \<and> i < NUM_READERS \<and> q_size q = word_of_nat N
     \<and> read_uids s ! i = read_uid_local q \<and> read_valids s ! i \<noteq> 0"

lemma set_read_pointer_simps [simp]:
  "num_readers (set_read_pointer i p s) = num_readers s" "write_pointer (set_read_pointer i p s) = write_pointer s"
  "write_uid (set_read_pointer i p s) = write_uid s" "read_valids (set_read_pointer i p s) = read_valids s"
  "read_uids (set_read_pointer i p s) = read_uids s" "seg_data (set_read_pointer i p s) = seg_data s"
  "set_read_pointer i p (set_read_pointer i p' s) = set_read_pointer i p s"
  "read_pointers (set_read_pointer i p s) = (read_pointers s)[i := p]"
  by (simp_all add: set_read_pointer_def)

lemma attached_set [simp]: "attached N i q (set_read_pointer j p s) = attached N i q s"
  by (simp add: attached_def)

lemma seg_ok_set: "seg_ok N s \<Longrightarrow> off p mod 8 = 0 \<Longrightarrow> seg_ok N (set_read_pointer i p s)"
  using set_update_subset_insert [of "read_pointers s" i p] by (auto simp: seg_ok_def)

lemma recv_equal:
  assumes "attached N i q s" "off (read_pointers s ! i) = off (write_pointer s)"
  shows "msgq_msg_recv uid al q s = Some (Received 0 None, q, s)"
  using assms by (subst msgq_msg_recv.simps) (simp add: attached_def UNPACK_nat)

lemma off_neq: "off a \<noteq> off b \<Longrightarrow> snd (UNPACK64 a) \<noteq> snd (UNPACK64 b)"
  by (auto simp: off_def)

lemma recv_tag:
  assumes "attached N i q s" "off (read_pointers s ! i) \<noteq> off (write_pointer s)"
    and "load64 (off (read_pointers s ! i)) (seg_data s) = Some (- 1)"
  shows "msgq_msg_recv uid al q s =
    msgq_msg_recv uid al q (set_read_pointer i (PACK64 (fst (UNPACK64 (read_pointers s ! i)) + 1) 0) s)"
  using assms(1,3) off_neq [OF assms(2)]
  by (subst msgq_msg_recv.simps) (simp add: attached_def case_prod_beta off_def)

lemma sint_len: "n < 2 ^ 31 \<Longrightarrow> sint (word_of_nat n :: u64) = int n" "n < 2 ^ 31 \<Longrightarrow> sint (ucast (word_of_nat n :: u64) :: u32) = int n"
  by (simp_all add: unsigned_of_nat take_bit_nat_eq_self signed_of_nat signed_take_bit_int_eq_self)

lemma word_len_not_tag: "n < 2 ^ 31 \<Longrightarrow> (word_of_nat n :: u64) \<noteq> - 1"
  using sint_len(1) [of n] by force

lemma recv_frame:
  assumes at: "attached N i q s" and ne: "off (read_pointers s ! i) \<noteq> off (write_pointer s)" and N: "N < 2 ^ 32"
    and fr: "m \<noteq> []" "length m < 2 ^ 31" "load64 (off (read_pointers s ! i)) (seg_data s) = Some (word_of_nat (length m))"
      "load (off (read_pointers s ! i) + 8) (length m) (seg_data s) = Some m" "length (seg_data s) = N"
      "frame_end (off (read_pointers s ! i)) (length m) < 2 ^ 32"
  defines "p' \<equiv> PACK64 (fst (UNPACK64 (read_pointers s ! i))) (word_of_nat (frame_end (off (read_pointers s ! i)) (length m)))"
  shows "msgq_msg_recv uid True q s =
    (if read_conflate q \<and> frame_end (off (read_pointers s ! i)) (length m) \<noteq> off (write_pointer s)
     then msgq_msg_recv uid True q (set_read_pointer i p' s)
     else Some (Received (int (length m)) (Some m), q, set_read_pointer i p' s))"
proof -
  let ?r = "read_pointers s ! i" and ?n = "word_of_nat (length m) :: u64"
  let ?e = "frame_end (off ?r) (length m)"
  have len: "length m < N" using fr(4,5) by (auto simp: load_def split: if_splits)
  then have small: "?n < q_size q" "0 < sint ?n" "?n \<noteq> - 1"
    using at fr(1,2) N word_len_not_tag by (simp_all add: attached_def word_less_nat_alt word_of_nat_len sint_len)
  have e: "unat (ALIGN (ucast (snd (UNPACK64 ?r)) + 8 + ?n)) = ?e"
    unfolding off_def by (rule ALIGN_frame_end) (use frame_end_bounds(1) [of "off ?r" "length m"] fr(2,6) in \<open>simp_all add: off_def\<close>)
  have u: "ucast (ALIGN (ucast (snd (UNPACK64 ?r)) + 8 + ?n)) = (word_of_nat ?e :: u32)"
    unfolding e [symmetric] by simp
  have w: "(word_of_nat ?e :: u32) = snd (UNPACK64 (write_pointer s)) \<longleftrightarrow> ?e = off (write_pointer s)"
    using word_of_nat_off [OF fr(6)] by (simp only: word_unat_eq_iff off_def)
  have l: "load64 (unat (snd (UNPACK64 ?r))) (seg_data s) = Some ?n"
    "load (unat (snd (UNPACK64 ?r)) + 8) (unat ?n) (seg_data s) = Some m"
    using fr(2,3,4) by (simp_all add: off_def word_of_nat_len)
  show ?thesis
    using at off_neq [OF ne] small l sint_len(2) [OF fr(2)]
    by (subst msgq_msg_recv.simps) (simp add: attached_def case_prod_beta u w p'_def Let_def)
qed

text \<open>The frame of an empty message fails the assertion on the size.\<close>

lemma recv_empty:
  assumes "attached N i q s" "off (read_pointers s ! i) \<noteq> off (write_pointer s)"
    and "load64 (off (read_pointers s ! i)) (seg_data s) = Some 0"
  shows "msgq_msg_recv uid al q s = Some (Aborted, q, s)"
  using assms(1,3) off_neq [OF assms(2)]
  by (subst msgq_msg_recv.simps) (simp add: attached_def case_prod_beta off_def)

end
