(* ===== verification/MsgqRecv.thy ===== *)
theory MsgqRecv
  imports MsgqProof
begin

text \<open>
  Receiving from the shared-memory queue: a valid reader gets the first of its pending messages (the last one that it can
  reach when it conflates), or aborts when the message it comes to is empty; an evicted or invalidated one starts over at the
  write pointer.
\<close>

section \<open>A valid reader\<close>

text \<open>\<open>received conflate s ms res p\<close>: \<open>res\<close> and the new pointer \<open>p\<close> are right for a reader with the messages \<open>ms\<close> pending.\<close>

definition received :: "bool \<Rightarrow> msgq_seg \<Rightarrow> bytes list \<Rightarrow> recv_result \<Rightarrow> u64 \<Rightarrow> bool" where
  "received conflate s ms res p \<longleftrightarrow> off p mod 8 = 0 \<and>
     (res = Received 0 None
        \<and> (\<exists>sk rest. ms = sk @ rest \<and> (\<not> conflate \<longrightarrow> sk = []) \<and> pending (seg_data s) (write_pointer s) p rest)
      \<or> (\<exists>sk m rest. ms = sk @ m # rest \<and> (\<not> conflate \<longrightarrow> sk = []) \<and> res = Received (int (length m)) (Some m)
           \<and> pending (seg_data s) (write_pointer s) p rest)
      \<or> (\<exists>sk rest. ms = sk @ [] # rest \<and> (\<not> conflate \<longrightarrow> sk = []) \<and> res = Aborted
           \<and> pending (seg_data s) (write_pointer s) p ([] # rest)))"

lemma received_skip: "received True s ms res p \<Longrightarrow> received True s (m # ms) res p"
  unfolding received_def by (metis append_Cons)

lemma received_none:
  "off p mod 8 = 0 \<Longrightarrow> pending (seg_data s) (write_pointer s) p ms \<Longrightarrow> received conflate s ms (Received 0 None) p"
  unfolding received_def by (metis append_Nil)

lemma received_head:
  "off p mod 8 = 0 \<Longrightarrow> pending (seg_data s) (write_pointer s) p ms \<Longrightarrow>
   received conflate s (m # ms) (Received (int (length m)) (Some m)) p"
  unfolding received_def by fastforce

lemma received_empty:
  "off p mod 8 = 0 \<Longrightarrow> pending (seg_data s) (write_pointer s) p ([] # ms) \<Longrightarrow> received conflate s ([] # ms) Aborted p"
  unfolding received_def by fastforce

lemma set_read_pointer_id [simp]: "set_read_pointer i (read_pointers s ! i) s = s"
  by (simp add: set_read_pointer_def)

lemma recv_stops:
  assumes at: "attached N i q s" and i: "i < length (read_pointers s)" and ne: "off r \<noteq> off (write_pointer s)"
    and fr: "frames (seg_data s) (off r) b ([] # ms)"
  shows "msgq_msg_recv uid True q (set_read_pointer i r s) = Some (Aborted, q, set_read_pointer i r s)"
  using at i ne fr by (intro recv_empty [of N i]) simp_all

lemma recv_same_lap:
  assumes at: "attached N i q s" and i: "i < length (read_pointers s)" and N: "N < 2 ^ 32" "length (seg_data s) = N"
  shows "frames (seg_data s) (off r) (off (write_pointer s)) ms \<Longrightarrow> off r mod 8 = 0 \<Longrightarrow> cyc r \<le> cyc (write_pointer s) \<Longrightarrow>
    \<exists>res p. msgq_msg_recv uid True q (set_read_pointer i r s) = Some (res, q, set_read_pointer i p s)
      \<and> received (read_conflate q) s ms res p \<and> (ms \<noteq> [] \<longrightarrow> res \<noteq> Received 0 None)"
proof (induction ms arbitrary: r)
  case Nil
  then have "msgq_msg_recv uid True q (set_read_pointer i r s) = Some (Received 0 None, q, set_read_pointer i r s)"
    using at i by (intro recv_equal [of N i]) simp_all
  then show ?case using received_none [OF Nil(2) pending.same_lap [OF Nil(3,1)]] by blast
next
  case (Cons m ms)
  let ?w = "write_pointer s" and ?e = "frame_end (off r) (length m)"
  define p where "p = PACK64 (fst (UNPACK64 r)) (word_of_nat ?e)"
  have ne: "off r \<noteq> off ?w" using frames_le [OF Cons.prems(1)] by simp
  have fr: "frames (seg_data s) ?e (off ?w) ms" and f: "length m < 2 ^ 31"
      "load64 (off r) (seg_data s) = Some (word_of_nat (length m))" "load (off r + 8) (length m) (seg_data s) = Some m"
    using Cons.prems(1) by simp_all
  have e: "?e < 2 ^ 32" using frames_le [OF fr] off_less [of ?w] by simp
  have p: "off p = ?e" "cyc p = cyc r" using e by (simp_all add: p_def word_of_nat_off cyc_def)
  have step: "msgq_msg_recv uid True q (set_read_pointer i r s) =
      (if read_conflate q \<and> ?e \<noteq> off ?w then msgq_msg_recv uid True q (set_read_pointer i p s)
       else Some (Received (int (length m)) (Some m), q, set_read_pointer i p s))" if "m \<noteq> []"
    using recv_frame [of N i q "set_read_pointer i r s" m uid] that at i N ne f e by (simp add: p_def)
  have fp: "frames (seg_data s) (off p) (off ?w) ms" "off p mod 8 = 0" "cyc p \<le> cyc ?w"
    using fr p Cons.prems(3) frame_end_bounds(3) by simp_all
  consider (empty) "m = []" | (skip) "m \<noteq> []" "read_conflate q \<and> ?e \<noteq> off ?w" | (take) "m \<noteq> []" "\<not> (read_conflate q \<and> ?e \<noteq> off ?w)"
    by blast
  then show ?case
  proof cases
    case empty
    have "received (read_conflate q) s (m # ms) Aborted r"
      unfolding empty by (rule received_empty [OF Cons.prems(2) pending.same_lap])
        (use Cons.prems empty in auto)
    then show ?thesis using recv_stops [OF at i ne, of "off ?w" ms uid] Cons.prems(1) empty by blast
  next
    case skip
    then have "ms \<noteq> []" using fr by auto
    with Cons.IH [OF fp] obtain res p' where
      "msgq_msg_recv uid True q (set_read_pointer i p s) = Some (res, q, set_read_pointer i p' s)"
      "received (read_conflate q) s ms res p'" "res \<noteq> Received 0 None" by blast
    then show ?thesis using step skip received_skip [of s ms res p' m] by auto
  next
    case take
    have "received (read_conflate q) s (m # ms) (Received (int (length m)) (Some m)) p"
      by (rule received_head [OF fp(2) pending.same_lap [OF fp(3,1)]])
    then show ?thesis using step take by auto
  qed
qed

lemma recv_old_lap:
  assumes at: "attached N i q s" and i: "i < length (read_pointers s)" and N: "N < 2 ^ 32" "length (seg_data s) = N"
    and tag: "load64 t (seg_data s) = Some (- 1)" and new: "frames (seg_data s) 0 (off (write_pointer s)) new"
  shows "frames (seg_data s) (off r) t old \<Longrightarrow> off r mod 8 = 0 \<Longrightarrow> cyc r < cyc (write_pointer s) \<Longrightarrow>
    off (write_pointer s) \<le> off r \<Longrightarrow>
    \<exists>res p. msgq_msg_recv uid True q (set_read_pointer i r s) = Some (res, q, set_read_pointer i p s)
      \<and> received (read_conflate q) s (old @ new) res p
      \<and> (off r \<noteq> off (write_pointer s) \<longrightarrow> new \<noteq> [] \<or> old \<noteq> [] \<and> \<not> read_conflate q \<longrightarrow> res \<noteq> Received 0 None)"
proof (induction old arbitrary: r)
  case Nil
  let ?w = "write_pointer s"
  show ?case
  proof (cases "off r = off ?w")
    case True
    then have "msgq_msg_recv uid True q (set_read_pointer i r s) = Some (Received 0 None, q, set_read_pointer i r s)"
      using at i by (intro recv_equal [of N i]) simp_all
    moreover have "received (read_conflate q) s ([] @ new) (Received 0 None) r"
      by (rule received_none [OF Nil(2) pending.old_lap [OF Nil(3,4,1) tag new]])
    ultimately show ?thesis using True by blast
  next
    case False
    define p where "p = PACK64 (fst (UNPACK64 r) + 1) 0"
    have c: "unat (fst (UNPACK64 r) + 1) = cyc r + 1"
      using Nil(3) cyc_less [of ?w] by (simp add: cyc_def unat_word_ariths(1))
    have p: "off p = 0" "cyc p \<le> cyc ?w" using Nil(3) c by (simp_all add: p_def)
    have t: "load64 (off r) (seg_data s) = Some (- 1)" using Nil(1) tag by simp
    have "msgq_msg_recv uid True q (set_read_pointer i r s) = msgq_msg_recv uid True q (set_read_pointer i p s)"
      using recv_tag [of N i q "set_read_pointer i r s" uid True] at i False t by (simp add: p_def)
    moreover have "frames (seg_data s) (off p) (off ?w) new" using new p by simp
    ultimately show ?thesis using recv_same_lap [OF at i N, of p new uid] p by auto
  qed
next
  case (Cons m ms)
  let ?w = "write_pointer s" and ?e = "frame_end (off r) (length m)"
  define p where "p = PACK64 (fst (UNPACK64 r)) (word_of_nat ?e)"
  have fr: "frames (seg_data s) ?e t ms" and f: "length m < 2 ^ 31"
      "load64 (off r) (seg_data s) = Some (word_of_nat (length m))" "load (off r + 8) (length m) (seg_data s) = Some m"
    using Cons.prems(1) by simp_all
  have "t < N" using tag N by (auto simp: load64_def load_def split: if_splits)
  then have e: "?e < 2 ^ 32" using frames_le [OF fr] N by simp
  have p: "off p = ?e" "cyc p = cyc r" using e by (simp_all add: p_def word_of_nat_off cyc_def)
  have fp: "frames (seg_data s) (off p) t ms" "off p mod 8 = 0" "cyc p < cyc ?w" "off ?w \<le> off p"
    using fr p Cons.prems(3,4) frame_end_bounds [of "off r" "length m"] by simp_all
  show ?case
  proof (cases "off r = off ?w")
    case True
    then have "msgq_msg_recv uid True q (set_read_pointer i r s) = Some (Received 0 None, q, set_read_pointer i r s)"
      using at i by (intro recv_equal [of N i]) simp_all
    moreover have "received (read_conflate q) s ((m # ms) @ new) (Received 0 None) r"
      by (rule received_none [OF Cons.prems(2) pending.old_lap [OF Cons.prems(3,4,1) tag new]])
    ultimately show ?thesis using True by blast
  next
    case ne: False
    have step: "msgq_msg_recv uid True q (set_read_pointer i r s) =
        (if read_conflate q \<and> ?e \<noteq> off ?w then msgq_msg_recv uid True q (set_read_pointer i p s)
         else Some (Received (int (length m)) (Some m), q, set_read_pointer i p s))" if "m \<noteq> []"
      using recv_frame [of N i q "set_read_pointer i r s" m uid] that at i N ne f e by (simp add: p_def)
    consider (empty) "m = []" | (skip) "m \<noteq> []" "read_conflate q \<and> ?e \<noteq> off ?w" | (take) "m \<noteq> []" "\<not> (read_conflate q \<and> ?e \<noteq> off ?w)"
      by blast
    then show ?thesis
    proof cases
      case empty
      have "pending (seg_data s) ?w r (([] # ms) @ new)"
        by (rule pending.old_lap [OF Cons.prems(3,4) _ tag new]) (use Cons.prems(1) empty in simp)
      then have "received (read_conflate q) s ((m # ms) @ new) Aborted r"
        using received_empty [OF Cons.prems(2), of s "ms @ new"] empty by simp
      then show ?thesis using recv_stops [OF at i ne, of t ms uid] Cons.prems(1) empty by blast
    next
      case skip
      from Cons.IH [OF fp] obtain res p' where r:
        "msgq_msg_recv uid True q (set_read_pointer i p s) = Some (res, q, set_read_pointer i p' s)"
        "received (read_conflate q) s (ms @ new) res p'" "new \<noteq> [] \<longrightarrow> res \<noteq> Received 0 None"
        using skip p(1) by auto
      then have "received (read_conflate q) s ((m # ms) @ new) res p'" using received_skip [of s "ms @ new"] skip by auto
      then show ?thesis using step skip r by auto
    next
      case take
      have "received (read_conflate q) s (m # ms @ new) (Received (int (length m)) (Some m)) p"
        by (rule received_head [OF fp(2) pending.old_lap [OF fp(3,4,1) tag new]])
      then show ?thesis using step take by auto
    qed
  qed
qed

section \<open>Any reader\<close>

definition sub_ok :: "nat \<Rightarrow> msgq_queue \<Rightarrow> bool" where
  "sub_ok N q \<longleftrightarrow> 0 \<le> reader_id q \<and> nat (reader_id q) < NUM_READERS \<and> q_size q = word_of_nat N"

abbreviation slot :: "msgq_queue \<Rightarrow> nat" where "slot q \<equiv> nat (reader_id q)"

definition slot_same :: "msgq_seg \<Rightarrow> msgq_seg \<Rightarrow> nat \<Rightarrow> bool" where
  "slot_same s s' j \<longleftrightarrow> read_uids s' ! j = read_uids s ! j \<and> read_valids s' ! j = read_valids s ! j
     \<and> read_pointers s' ! j = read_pointers s ! j"

text \<open>Nothing but the reader slots changes, and the slots other than \<open>i\<close> are kept or given up.\<close>

definition only_slot :: "nat \<Rightarrow> msgq_seg \<Rightarrow> msgq_seg \<Rightarrow> bool" where
  "only_slot i s s' \<longleftrightarrow> write_pointer s' = write_pointer s \<and> write_uid s' = write_uid s \<and> seg_data s' = seg_data s
     \<and> (\<forall>j < NUM_READERS. j \<noteq> i \<longrightarrow> read_uids s' ! j = 0 \<or> slot_same s s' j)"

definition slots_free :: "msgq_seg \<Rightarrow> bool" where
  "slots_free s \<longleftrightarrow> (\<forall>j < NUM_READERS. unat (num_readers s) \<le> j \<longrightarrow> read_uids s ! j = 0)"

lemma pending_none: "pending d w w []"
  by (rule pending.same_lap) simp_all

lemma slot_pending_none: "read_pointers s ! i = write_pointer s \<Longrightarrow> slot_pending s i []"
  by (simp add: slot_pending_def pending_none)

lemma seg_ok_lengths:
  "seg_ok N s \<Longrightarrow> length (read_pointers s) = NUM_READERS" "seg_ok N s \<Longrightarrow> length (read_valids s) = NUM_READERS"
  "seg_ok N s \<Longrightarrow> length (read_uids s) = NUM_READERS" "seg_ok N s \<Longrightarrow> length (seg_data s) = N" "seg_ok N s \<Longrightarrow> N < 2 ^ 32"
  "seg_ok N s \<Longrightarrow> off (write_pointer s) mod 8 = 0" "seg_ok N s \<Longrightarrow> unat (num_readers s) \<le> NUM_READERS"
  by (simp_all add: seg_ok_def)

lemma reset_reader_ok:
  assumes "seg_ok N s" "sub_ok N q"
  shows "seg_ok N (msgq_reset_reader q s)" "only_slot (slot q) s (msgq_reset_reader q s)"
    "read_pointers (msgq_reset_reader q s) ! slot q = write_pointer s" "read_valids (msgq_reset_reader q s) ! slot q = 1"
    "read_uids (msgq_reset_reader q s) = read_uids s" "num_readers (msgq_reset_reader q s) = num_readers s"
    "write_pointer (msgq_reset_reader q s) = write_pointer s"
  using assms set_update_subset_insert [of "read_pointers s" "slot q" "write_pointer s"]
  by (auto simp: msgq_reset_reader_def Let_def seg_ok_def sub_ok_def only_slot_def slot_same_def)

text \<open>A subscription takes a slot of its own at the write pointer, if need be after evicting every reader.\<close>

lemma claim_slot_ok:
  assumes s: "seg_ok N s" "unat (num_readers s) < NUM_READERS" and q: "q_size q = word_of_nat N"
  shows "\<exists>q' s'. claim_slot uid q s = (q', s') \<and> q' = q\<lparr>reader_id := int (unat (num_readers s)), read_uid_local := uid\<rparr>
    \<and> sub_ok N q' \<and> seg_ok N s' \<and> only_slot (slot q') s s' \<and> read_uids s' ! slot q' = uid
    \<and> unat (num_readers s') = Suc (unat (num_readers s))"
proof -
  have "unat (num_readers s + 1) = Suc (unat (num_readers s))"
    using s(2) by (simp add: unat_word_ariths(1) NUM_READERS_def)
  moreover have "off 0 mod 8 = 0" by (simp add: off_def UNPACK64_def)
  ultimately show ?thesis
    using assms set_update_subset_insert [of "read_pointers s" "unat (num_readers s)" 0]
    by (auto simp: claim_slot_def Let_def seg_ok_def sub_ok_def only_slot_def slot_same_def)
qed

lemma evict_all_ok:
  assumes "seg_ok N s"
  shows "seg_ok N (evict_all s)" "only_slot i s (evict_all s)" "unat (num_readers (evict_all s)) = 0"
    "slots_free (evict_all s)"
  using assms by (simp_all add: evict_all_def seg_ok_def only_slot_def slots_free_def)

lemma only_slot_trans: "only_slot i s s' \<Longrightarrow> only_slot i s' s'' \<Longrightarrow> only_slot i s s''"
  unfolding only_slot_def slot_same_def by metis

lemma only_slot_refl: "only_slot i s s"
  by (simp add: only_slot_def slot_same_def)

text \<open>\<open>joined uid q s q' s'\<close>: the handle \<open>q'\<close> is \<open>q\<close> with a new subscription \<open>uid\<close> that has nothing pending.\<close>

definition joined :: "nat \<Rightarrow> u64 \<Rightarrow> msgq_queue \<Rightarrow> msgq_seg \<Rightarrow> msgq_queue \<Rightarrow> msgq_seg \<Rightarrow> bool" where
  "joined N uid q s q' s' \<longleftrightarrow> q' = q\<lparr>reader_id := reader_id q', read_uid_local := uid\<rparr> \<and> sub_ok N q' \<and> seg_ok N s'
     \<and> only_slot (slot q') s s' \<and> attached N (slot q') q' s' \<and> read_pointers s' ! slot q' = write_pointer s
     \<and> slots_free s' \<and> slot q' < unat (num_readers s')"

lemma init_subscriber_ok:
  assumes s: "seg_ok N s" "slots_free s" and q: "q_size q = word_of_nat N"
  shows "\<exists>q' s'. msgq_init_subscriber uid q s = (q', s') \<and> joined N uid q s q' s'"
proof -
  define t where "t = (if word_of_nat NUM_READERS < num_readers s + 1 then evict_all s else s)"
  have n: "unat (num_readers s) \<le> 15" using s(1) by (simp add: seg_ok_def NUM_READERS_def)
  have c: "(word_of_nat NUM_READERS < num_readers s + 1) \<longleftrightarrow> unat (num_readers s) = NUM_READERS"
    using n by (auto simp: word_less_nat_alt NUM_READERS_def unat_word_ariths(1))
  have t: "seg_ok N t" "unat (num_readers t) < NUM_READERS" "slots_free t" "only_slot i s t" "write_pointer t = write_pointer s" for i
    using evict_all_ok(1,3,4) [OF s(1)] evict_all_ok(2) [OF s(1)] s n c
    by (auto simp: t_def only_slot_refl NUM_READERS_def) (simp add: evict_all_def)
  obtain q' u where u: "claim_slot uid q t = (q', u)" "q' = q\<lparr>reader_id := int (unat (num_readers t)), read_uid_local := uid\<rparr>"
      "sub_ok N q'" "seg_ok N u" "only_slot (slot q') t u" "read_uids u ! slot q' = uid"
      "unat (num_readers u) = Suc (unat (num_readers t))"
    using claim_slot_ok [OF t(1,2) q, of uid] by blast
  note r = reset_reader_ok [OF u(4,3)]
  let ?s = "msgq_reset_reader q' u"
  have e: "msgq_init_subscriber uid q s = (q', ?s)"
    unfolding msgq_init_subscriber_def t_def [symmetric] by (simp add: u(1))
  have w: "write_pointer u = write_pointer s" using u(5) t(5) by (simp add: only_slot_def)
  have "only_slot (slot q') s ?s" using only_slot_trans [OF t(4) only_slot_trans [OF u(5) r(2)]] .
  moreover have "slots_free ?s"
    using t(3) u(2,5,7) r(5,6) by (auto simp: slots_free_def only_slot_def slot_same_def)
  moreover have "attached N (slot q') q' ?s"
    using u(2,3,6) r(4,5) q by (simp add: attached_def sub_ok_def)
  ultimately have "joined N uid q s q' ?s"
    using u(2,3,7) r(1,3,6) w by (auto simp: joined_def)
  then show ?thesis using e by blast
qed

lemma recv_attached:
  assumes s: "seg_ok N s" and at: "attached N i q s" and p: "slot_pending s i ms"
  shows "\<exists>res p. msgq_msg_recv uid True q s = Some (res, q, set_read_pointer i p s) \<and> received (read_conflate q) s ms res p"
proof -
  have i: "i < length (read_pointers s)" and N: "N < 2 ^ 32" "length (seg_data s) = N"
    using at seg_ok_lengths [OF s] by (simp_all add: attached_def)
  have o: "off (read_pointers s ! i) mod 8 = 0" using s at by (simp add: seg_ok_off attached_def)
  from p [unfolded slot_pending_def] show ?thesis
  proof cases
    case same_lap
    with recv_same_lap [OF at i N, of "read_pointers s ! i" ms uid] o show ?thesis by auto
  next
    case (old_lap t old new)
    with recv_old_lap [OF at i N old_lap(5,6), of "read_pointers s ! i" old uid] o show ?thesis by auto
  qed
qed

lemma recv_invalid:
  assumes s: "seg_ok N s" and q: "sub_ok N q" "read_uids s ! slot q = read_uid_local q" "read_valids s ! slot q = 0"
  shows "msgq_msg_recv uid True q s = Some (Received 0 None, q, msgq_reset_reader q s)"
proof -
  have "msgq_msg_recv uid True q s = msgq_msg_recv uid True q (msgq_reset_reader q s)"
    using q by (subst msgq_msg_recv.simps) (simp add: sub_ok_def)
  also have "\<dots> = Some (Received 0 None, q, msgq_reset_reader q s)"
    using q reset_reader_ok [OF s q(1)] by (intro recv_equal [of N "slot q"]) (simp_all add: attached_def sub_ok_def)
  finally show ?thesis .
qed

lemma recv_evicted:
  assumes s: "seg_ok N s" "slots_free s" and q: "sub_ok N q" "read_uids s ! slot q \<noteq> read_uid_local q"
  shows "\<exists>q' s'. msgq_msg_recv uid True q s = Some (Received 0 None, q', s') \<and> joined N uid q s q' s'"
proof -
  obtain q' s' where j: "msgq_init_subscriber uid q s = (q', s')" "joined N uid q s q' s'"
    using init_subscriber_ok [OF s, of q uid] q(1) unfolding sub_ok_def by blast
  have "msgq_msg_recv uid True q s = msgq_msg_recv uid True q' s'"
    using q by (subst msgq_msg_recv.simps) (simp add: sub_ok_def j(1))
  also have "\<dots> = Some (Received 0 None, q', s')"
    using j(2) by (intro recv_equal [of N "slot q'"]) (simp_all add: joined_def only_slot_def)
  finally show ?thesis using j(2) by blast
qed

section \<open>A reader that keeps up\<close>

text \<open>A reader at the write pointer is still valid after the next message, and has exactly that message pending.\<close>

definition drained :: "nat \<Rightarrow> msgq_queue \<Rightarrow> msgq_seg \<Rightarrow> bool" where
  "drained N q s \<longleftrightarrow> seg_ok N s \<and> sub_ok N q \<and> attached N (slot q) q s \<and> slot q < unat (num_readers s)
     \<and> read_pointers s ! slot q = write_pointer s"

text \<open>What both branches of sending leave behind, for a reader at \<open>r\<close> whose next frame is the message.\<close>

lemma recv_written:
  assumes s': "seg_ok N s'" and W: "write_pointer s' = PACK64 c (word_of_nat (frame_end (unat p) (length m)))"
      "load64 (unat p) (seg_data s') = Some (word_of_nat (length m))" "load (unat p + 8) (length m) (seg_data s') = Some m"
    and q: "attached N (slot q) q s'" and r: "read_pointers s' ! slot q = PACK64 c p"
    and m: "m \<noteq> []" "length m < 2 ^ 31" and fe: "frame_end (unat p) (length m) < 2 ^ 32"
  shows "msgq_msg_recv uid True q s' =
    Some (Received (int (length m)) (Some m), q, set_read_pointer (slot q) (write_pointer s') s')"
proof -
  have w: "off (write_pointer s') = frame_end (unat p) (length m)" using W(1) fe by (simp add: word_of_nat_off)
  note R = recv_frame [OF q, of m uid, unfolded r off_PACK UNPACK_PACK fst_conv w]
  show ?thesis
    by (subst R) (use W m fe seg_ok_lengths [OF s'] frame_end_bounds(1) [of "unat p" "length m"] in simp_all)
qed

lemma drained_after:
  assumes s': "seg_ok N s'" "read_pointers s' = read_pointers s" "num_readers s' = num_readers s" "read_uids s' = read_uids s"
    and d: "drained N q s" and v: "read_valids s' ! slot q = read_valids s ! slot q"
  shows "sub_ok N q" "attached N (slot q) q s'" "slot q < NUM_READERS"
    "drained N q (set_read_pointer (slot q) (write_pointer s') s')"
proof -
  show q: "sub_ok N q" "slot q < NUM_READERS" using d by (simp_all add: drained_def sub_ok_def)
  show a: "attached N (slot q) q s'" using d s' v by (simp add: drained_def attached_def)
  show "drained N q (set_read_pointer (slot q) (write_pointer s') s')"
    using q a d s' seg_ok_set [OF s'(1), of "write_pointer s'" "slot q"] seg_ok_lengths [OF s'(1)]
    by (simp add: drained_def)
qed

text \<open>
  The step \<open>send_recv m uid (pub, q, s)\<close>: the publisher sends and the reader receives; the result is what it got.
\<close>

definition send_recv :: "u64 \<Rightarrow> bytes \<Rightarrow> msgq_queue \<Rightarrow> msgq_queue \<Rightarrow> msgq_seg \<Rightarrow> (recv_result \<times> msgq_queue \<times> msgq_seg) option" where
  "send_recv uid m pub q s = do { (r, s) \<leftarrow> msgq_msg_send m pub s; msgq_msg_recv uid True q s }"

lemma drained_notify [simp]: "drained N q (notify_readers s) = drained N q s"
  by (simp add: drained_def attached_def)

lemma attached_notify [simp]: "attached N i q (notify_readers s) = attached N i q s"
  by (simp add: attached_def)

lemma written_notify [simp]: "written m c p s (notify_readers s') = written m c p s s'"
  by (simp add: written_def)

lemma recv_drained:
  assumes s': "seg_ok N s'" "written m c p s s'" "write_pointer s = PACK64 c p" and d: "drained N q s"
    and m: "m \<noteq> []" "length m < 2 ^ 31" and fe: "frame_end (unat p) (length m) < 2 ^ 32"
  shows "\<exists>s''. msgq_msg_recv uid True q (notify_readers s') = Some (Received (int (length m)) (Some m), q, s'')
    \<and> drained N q s'' \<and> write_uid s'' = write_uid s \<and> write_pointer s'' = write_pointer s'"
proof -
  let ?n = "notify_readers s'"
  note W = s'(2) [unfolded written_def]
  have n: "seg_ok N ?n" "written m c p s ?n" "read_pointers ?n = read_pointers s" "num_readers ?n = num_readers s"
      "read_uids ?n = read_uids s" "write_uid ?n = write_uid s" "write_pointer ?n = write_pointer s'"
    using s' W by simp_all
  have "read_valids ?n ! slot q = read_valids s ! slot q"
    using W d s'(3) by (auto simp: drained_def sub_ok_def)
  note D = drained_after [OF n(1,3-5) d this]
  have "read_pointers ?n ! slot q = PACK64 c p" using d s'(3) n(3) by (simp add: drained_def)
  from recv_written [OF n(1) _ _ _ D(2) this m fe, of uid] D(4) n(6,7) n(2) [unfolded written_def] show ?thesis by simp
qed

lemma send_recv_drained:
  assumes d: "drained N q s" and pub: "q_size pub = word_of_nat N" "write_uid_local pub = write_uid s"
    and m: "m \<noteq> []" "3 * align (length m + 8) \<le> N" and cy: "cyc (write_pointer s) + 1 < 2 ^ 32"
  shows "\<exists>s'. send_recv uid m pub q s = Some (Received (int (length m)) (Some m), q, s') \<and> drained N q s'
    \<and> write_uid s' = write_uid s \<and> cyc (write_pointer s') \<le> cyc (write_pointer s) + 1"
proof -
  let ?w = "write_pointer s"
  define c p where "c = fst (UNPACK64 ?w)" and "p = snd (UNPACK64 ?w)"
  have ok: "seg_ok N s" and r: "read_pointers s ! slot q = ?w" and i: "slot q < NUM_READERS"
    using d by (simp_all add: drained_def sub_ok_def)
  have wcp: "?w = PACK64 c p" by (simp add: c_def p_def PACK_UNPACK)
  have cp: "unat c = cyc ?w" "unat p = off ?w" by (simp_all add: c_def p_def cyc_def off_def)
  have N: "N < 2 ^ 32" "length (seg_data s) = N" "off ?w + 8 \<le> N" "off ?w mod 8 = 0" using ok by (simp_all add: seg_ok_def)
  have len: "length m < 2 ^ 31" using fits_len m(2) N(1) by blast
  note unfold = send_unfold [OF ok pub m(2), folded c_def p_def]
  show ?thesis
  proof (cases "N \<le> off ?w + align (length m + 8) + 8")
    case False
    then have space: "unat p + align (length m + 8) + 8 \<le> N" using cp by simp
    from write_message_pending [OF ok wcp space len]
    obtain s' where s': "write_message m c p s = Some s'" "seg_ok N s'" "written m c p s s'" by blast
    have "frame_end (unat p) (length m) = unat p + align (length m + 8)"
      using align_add [of "unat p" "length m + 8"] N(4) cp by (simp add: frame_end_def add.commute add.left_commute)
    then have fe: "frame_end (unat p) (length m) < 2 ^ 32" using space N(1) by linarith
    from recv_drained [OF s'(2,3) wcp d m(1) len fe, of uid] s'(3) cp show ?thesis
      using unfold s'(1) False by (auto simp: send_recv_def written_def)
  next
    case True
    obtain s1 where wrap: "wrap_around c p s = Some s1" and ok1: "seg_ok N s1" and W1: "wrapped s s1"
      using wrap_around_ok [OF ok cy] unfolding c_def p_def by blast
    have c1: "unat (c + 1) = cyc ?w + 1" using cy cp by (simp add: unat_word_ariths(1))
    have space: "unat (0 :: u32) + align (length m + 8) + 8 \<le> N" using m(2) align_bounds(1) [of "length m + 8"] by simp
    have s1_wp: "write_pointer s1 = PACK64 (c + 1) 0" using W1 by (simp add: wrapped_def c_def)
    from write_message_pending [OF ok1 s1_wp space len]
    obtain s' where s': "write_message m (c + 1) 0 s1 = Some s'" "seg_ok N s'" "written m (c + 1) 0 s1 s'" by blast
    have fe: "frame_end (unat (0 :: u32)) (length m) < 2 ^ 32"
      using space N(1) by (simp add: frame_end_def add.commute)
    have lt: "frame_end 0 (length m) < off ?w"
      using True m(2) align_bounds(1) [of "length m + 8"] m(1) by (cases m) (simp_all add: frame_end_def add.commute)
    let ?n = "notify_readers s'"
    note W = s'(3) [unfolded written_def]
    have n: "seg_ok N ?n" "read_pointers ?n = read_pointers s" "num_readers ?n = num_readers s"
      "read_uids ?n = read_uids s" "write_uid ?n = write_uid s" using s' W W1 by (simp_all add: wrapped_def)
    have "read_valids ?n ! slot q = read_valids s ! slot q"
      using W W1 lt r i by (auto simp: wrapped_def)
    note D = drained_after [OF n(1-4) d this]
    have tag: "load64 (off ?w) (seg_data s') = Some (- 1)"
      using W W1 lt load64_store64 by (auto simp: wrapped_def)
    let ?t = "set_read_pointer (slot q) (PACK64 (c + 1) 0) ?n"
    have ow: "off (write_pointer ?n) = frame_end 0 (length m)" using W fe by (simp add: word_of_nat_off)
    have "msgq_msg_recv uid True q ?n = msgq_msg_recv uid True q ?t"
      using recv_tag [OF D(2), of uid True] n(2) r lt tag ow by (simp add: c_def)
    also have "\<dots> = Some (Received (int (length m)) (Some m), q, set_read_pointer (slot q) (write_pointer ?t) ?t)"
      by (rule recv_written [OF seg_ok_set [OF n(1)] _ _ _ _ _ m(1) len fe])
        (use W D(2) i seg_ok_lengths [OF n(1)] in simp_all)
    finally show ?thesis
      using unfold wrap s'(1) True D(4) n(5) W c1 by (simp add: send_recv_def)
  qed
qed

end
