(* ===== verification/MsgqSystem.thy ===== *)
theory MsgqSystem
  imports MsgqRecv
begin

text \<open>
  The shared-memory queue as a system: any number of publishers and readers of one segment, each step one operation of one
  of them. The ghost components \<open>net_sent\<close> and the lists beside the readers record what was sent and what
  each reader got; \<open>net_uids\<close> are the identities in use, which new ones differ from. A publisher sends messages of any length,
  empty ones too, that an address space can hold; where the assertion on the space fails there is no step. The one limit of the runs is
  the 32-bit cycle count of the writer, which does not overflow.
\<close>

section \<open>Steps\<close>

definition fresh_seg :: "nat \<Rightarrow> msgq_seg" where
  "fresh_seg N = \<lparr>num_readers = 0, write_pointer = 0, write_uid = 0, read_pointers = replicate NUM_READERS 0,
     read_valids = replicate NUM_READERS 0, read_uids = replicate NUM_READERS 0,
     seg_data = replicate N 0, tkills = []\<rparr>"

text \<open>A handle as \<open>msgq_new_queue\<close> leaves it.\<close>

definition opened :: "nat \<Rightarrow> msgq_queue \<Rightarrow> bool" where
  "opened N q \<longleftrightarrow> q_size q = word_of_nat N \<and> q_mapped q \<and> reader_id q = - 1 \<and> \<not> read_conflate q"

lemma msgq_new_queue_opened:
  "msgq_new_queue pre fd rc mapped path (word_of_nat N) q = Some (0, full, q') \<Longrightarrow> opened N q'"
  by (auto simp: msgq_new_queue_def opened_def Let_def split: if_splits)

fun delivered :: "recv_result \<Rightarrow> bytes list" where
  "delivered (Received r (Some m)) = [m]"
| "delivered res = []"

record msgq_net =
  net_seg :: msgq_seg
  net_pubs :: "msgq_queue list"
  net_readers :: "(msgq_queue \<times> bytes list) list"
  net_sent :: "bytes list"
  net_uids :: "u64 set"

definition net_init :: "nat \<Rightarrow> msgq_net" where
  "net_init N = \<lparr>net_seg = fresh_seg N, net_pubs = [], net_readers = [], net_sent = [], net_uids = {}\<rparr>"

definition fresh_uid :: "u64 \<Rightarrow> msgq_net \<Rightarrow> bool" where
  "fresh_uid uid n \<longleftrightarrow> uid \<noteq> 0 \<and> uid \<notin> net_uids n"

inductive net_step :: "nat \<Rightarrow> msgq_net \<Rightarrow> msgq_net \<Rightarrow> bool" for N where
  publish: "fresh_uid uid n \<Longrightarrow> opened N q \<Longrightarrow> msgq_init_publisher uid q (net_seg n) = (q', s') \<Longrightarrow>
    net_step N n (n\<lparr>net_seg := s', net_pubs := net_pubs n @ [q'], net_uids := insert uid (net_uids n)\<rparr>)"
| subscribe: "fresh_uid uid n \<Longrightarrow> opened N q \<Longrightarrow>
    msgq_init_subscriber uid (q\<lparr>read_conflate := conflate\<rparr>) (net_seg n) = (q', s') \<Longrightarrow>
    net_step N n (n\<lparr>net_seg := s', net_readers := net_readers n @ [(q', [])], net_uids := insert uid (net_uids n)\<rparr>)"
| send: "k < length (net_pubs n) \<Longrightarrow> length m < 2 ^ 62 \<Longrightarrow>
    cyc (write_pointer (net_seg n)) + 1 < 2 ^ 32 \<Longrightarrow> msgq_msg_send m (net_pubs n ! k) (net_seg n) = Some (r, s') \<Longrightarrow>
    net_step N n (n\<lparr>net_seg := s', net_sent := net_sent n @ (if r < 0 then [] else [m])\<rparr>)"
| recv: "k < length (net_readers n) \<Longrightarrow> net_readers n ! k = (q, got) \<Longrightarrow> fresh_uid uid n \<Longrightarrow>
    msgq_msg_recv uid True q (net_seg n) = Some (res, q', s') \<Longrightarrow>
    net_step N n (n\<lparr>net_seg := s', net_readers := (net_readers n)[k := (q', got @ delivered res)],
                    net_uids := insert uid (net_uids n)\<rparr>)"
| ready: "k < length (net_readers n) \<Longrightarrow> net_readers n ! k = (q, got) \<Longrightarrow> fresh_uid uid n \<Longrightarrow>
    msgq_msg_ready uid q (net_seg n) = Some (b, q', s') \<Longrightarrow>
    net_step N n (n\<lparr>net_seg := s', net_readers := (net_readers n)[k := (q', got)], net_uids := insert uid (net_uids n)\<rparr>)"

inductive net_reachable :: "nat \<Rightarrow> msgq_net \<Rightarrow> bool" for N where
  init: "net_reachable N (net_init N)"
| step: "net_reachable N n \<Longrightarrow> net_step N n n' \<Longrightarrow> net_reachable N n'"

section \<open>Readiness\<close>

lemma ready_attached: "sub_ok N q \<Longrightarrow> attached N (slot q) q s \<Longrightarrow>
    msgq_msg_ready uid q s = Some (Some (off (read_pointers s ! slot q) \<noteq> off (write_pointer s)), q, s)"
  by (subst msgq_msg_ready.simps) (simp add: sub_ok_def attached_def case_prod_beta off_def unsigned_word_eqI word_unat_eq_iff)

lemma ready_invalid:
  assumes s: "seg_ok N s" and q: "sub_ok N q" "read_uids s ! slot q = read_uid_local q" "read_valids s ! slot q = 0"
  shows "msgq_msg_ready uid q s = Some (Some False, q, msgq_reset_reader q s)"
proof -
  have "msgq_msg_ready uid q s = msgq_msg_ready uid q (msgq_reset_reader q s)"
    using q by (subst msgq_msg_ready.simps) (simp add: sub_ok_def)
  also have "\<dots> = Some (Some False, q, msgq_reset_reader q s)"
    using q reset_reader_ok [OF s q(1)] ready_attached [OF q(1), of "msgq_reset_reader q s" uid]
    by (simp add: attached_def sub_ok_def)
  finally show ?thesis .
qed

lemma ready_evicted:
  assumes s: "seg_ok N s" "slots_free s" and q: "sub_ok N q" "read_uids s ! slot q \<noteq> read_uid_local q"
  shows "\<exists>q' s'. msgq_msg_ready uid q s = Some (Some False, q', s') \<and> joined N uid q s q' s'"
proof -
  obtain q' s' where j: "msgq_init_subscriber uid q s = (q', s')" "joined N uid q s q' s'"
    using init_subscriber_ok [OF s, of q uid] q(1) unfolding sub_ok_def by blast
  have "msgq_msg_ready uid q s = msgq_msg_ready uid q' s'"
    using q by (subst msgq_msg_ready.simps) (simp add: sub_ok_def j(1))
  also have "\<dots> = Some (Some False, q', s')"
    using j(2) ready_attached [of N q' s' uid] by (simp add: joined_def only_slot_def)
  finally show ?thesis using j(2) by blast
qed

section \<open>The invariant\<close>

text \<open>What a reader got, followed by what it has pending if it is valid, is a subsequence of what was sent.\<close>

definition reader_ok :: "nat \<Rightarrow> msgq_seg \<Rightarrow> bytes list \<Rightarrow> msgq_queue \<Rightarrow> bytes list \<Rightarrow> bool" where
  "reader_ok N s sent q got \<longleftrightarrow> sub_ok N q \<and> subseq got sent
     \<and> (attached N (slot q) q s \<longrightarrow> (\<exists>ms. slot_pending s (slot q) ms \<and> subseq (got @ ms) sent))"

definition net_ok :: "nat \<Rightarrow> msgq_net \<Rightarrow> bool" where
  "net_ok N n \<longleftrightarrow> seg_ok N (net_seg n) \<and> slots_free (net_seg n) \<and> 0 \<notin> net_uids n
     \<and> (\<forall>q \<in> set (net_pubs n). q_size q = word_of_nat N)
     \<and> (\<forall>(q, got) \<in> set (net_readers n). read_uid_local q \<in> net_uids n \<and> reader_ok N (net_seg n) (net_sent n) q got)
     \<and> distinct (map (read_uid_local \<circ> fst) (net_readers n))"

lemma net_okI:
  assumes "seg_ok N (net_seg n)" "slots_free (net_seg n)" "0 \<notin> net_uids n"
    "\<And>q. q \<in> set (net_pubs n) \<Longrightarrow> q_size q = word_of_nat N"
    "\<And>q got. (q, got) \<in> set (net_readers n) \<Longrightarrow> read_uid_local q \<in> net_uids n"
    "\<And>q got. (q, got) \<in> set (net_readers n) \<Longrightarrow> reader_ok N (net_seg n) (net_sent n) q got"
    "distinct (map (read_uid_local \<circ> fst) (net_readers n))"
  shows "net_ok N n"
  using assms unfolding net_ok_def by blast

lemma net_okD:
  assumes "net_ok N n"
  shows "seg_ok N (net_seg n)" "slots_free (net_seg n)" "0 \<notin> net_uids n"
    "q \<in> set (net_pubs n) \<Longrightarrow> q_size q = word_of_nat N"
    "(r, got) \<in> set (net_readers n) \<Longrightarrow> read_uid_local r \<in> net_uids n"
    "(r, got) \<in> set (net_readers n) \<Longrightarrow> reader_ok N (net_seg n) (net_sent n) r got"
    "distinct (map (read_uid_local \<circ> fst) (net_readers n))"
  using assms unfolding net_ok_def by blast+

lemma reader_ok_other:
  assumes o: "only_slot i s s'" and ne: "read_uids s' ! i \<noteq> read_uid_local q" "read_uid_local q \<noteq> 0"
    and r: "reader_ok N s sent q got"
  shows "reader_ok N s' sent q got"
proof -
  have "attached N (slot q) q s \<and> (\<forall>ms. slot_pending s' (slot q) ms \<longleftrightarrow> slot_pending s (slot q) ms)"
    if a: "attached N (slot q) q s'"
  proof -
    have j: "slot q < NUM_READERS" "slot q \<noteq> i" "read_uids s' ! slot q \<noteq> 0" using a ne by (auto simp: attached_def)
    then have "slot_same s s' (slot q)" using o unfolding only_slot_def by blast
    then show ?thesis using a o by (simp add: attached_def slot_same_def only_slot_def slot_pending_def)
  qed
  then show ?thesis using r unfolding reader_ok_def by blast
qed

lemma distinct_update:
  assumes "distinct (map f xs)" "k < length xs" "f y = f (xs ! k) \<or> f y \<notin> f ` set xs"
  shows "distinct (map f (xs[k := y]))"
  using assms(3)
proof
  assume "f y = f (xs ! k)"
  then have "map f (xs[k := y]) = map f xs" using assms(2) by (simp add: map_update list_update_same_conv)
  then show ?thesis using assms(1) by simp
next
  assume "f y \<notin> f ` set xs"
  then show ?thesis using assms(1,2) by (simp add: map_update distinct_list_update)
qed

text \<open>
  The step of one reader: it ends attached to a slot of its own, with a pointer it is right to have. The other
  readers are not affected.
\<close>

definition reader_step :: "nat \<Rightarrow> msgq_seg \<Rightarrow> msgq_queue \<Rightarrow> u64 \<Rightarrow> msgq_seg \<Rightarrow> msgq_queue \<Rightarrow> bool" where
  "reader_step N s q uid s' q' \<longleftrightarrow> seg_ok N s' \<and> slots_free s' \<and> only_slot (slot q') s s'
     \<and> read_uids s' ! slot q' = read_uid_local q' \<and> (read_uid_local q' = read_uid_local q \<or> read_uid_local q' = uid)"

lemma net_ok_reader_step:
  assumes ok: "net_ok N n" and k: "k < length (net_readers n)" "net_readers n ! k = (q, got)" and uid: "fresh_uid uid n"
    and st: "reader_step N (net_seg n) q uid s' q'" and r: "reader_ok N s' (net_sent n) q' got'"
  shows "net_ok N (n\<lparr>net_seg := s', net_readers := (net_readers n)[k := (q', got')], net_uids := insert uid (net_uids n)\<rparr>)"
proof -
  let ?R = "net_readers n" and ?f = "read_uid_local \<circ> fst"
  have used: "?f y \<in> net_uids n" if "y \<in> set ?R" for y
    using net_okD(5) [OF ok, of "fst y" "snd y"] that by simp
  have q: "read_uid_local q \<in> net_uids n" using used [of "(q, got)"] k nth_mem by fastforce
  have loc: "read_uid_local q' = read_uid_local q \<or> read_uid_local q' = uid" using st by (simp add: reader_step_def)
  have new: "uid \<notin> ?f ` set ?R" using used uid by (auto simp: fresh_uid_def)
  have d: "distinct (map ?f (?R[k := (q', got')]))"
    by (rule distinct_update [OF net_okD(7) [OF ok] k(1)]) (use loc new k(2) in auto)
  have other: "reader_ok N s' (net_sent n) (fst (?R ! j)) (snd (?R ! j))" if j: "j < length ?R" "j \<noteq> k" for j
  proof (rule reader_ok_other)
    have mem: "(fst (?R ! j), snd (?R ! j)) \<in> set ?R" using j(1) by simp
    show "only_slot (slot q') (net_seg n) s'" using st by (simp add: reader_step_def)
    show "read_uid_local (fst (?R ! j)) \<noteq> 0" using net_okD(3,5) [OF ok] mem by metis
    show "reader_ok N (net_seg n) (net_sent n) (fst (?R ! j)) (snd (?R ! j))" by (rule net_okD(6) [OF ok mem])
    have "?f (?R ! j) \<noteq> read_uid_local q" 
      using nth_eq_iff_index_eq [OF net_okD(7) [OF ok], of j k] j k by simp
    moreover have "?f (?R ! j) \<noteq> uid" using new j(1) by (metis imageI nth_mem)
    ultimately show "read_uids s' ! slot q' \<noteq> read_uid_local (fst (?R ! j))"
      using st loc by (auto simp: reader_step_def)
  qed
  show ?thesis
  proof (rule net_okI)
    fix p g assume "(p, g) \<in> set (net_readers (n\<lparr>net_seg := s', net_readers := ?R[k := (q', got')], net_uids := insert uid (net_uids n)\<rparr>))"
    then obtain j where j: "j < length ?R" "?R[k := (q', got')] ! j = (p, g)" by (auto simp: in_set_conv_nth)
    show "read_uid_local p \<in> net_uids (n\<lparr>net_seg := s', net_readers := ?R[k := (q', got')], net_uids := insert uid (net_uids n)\<rparr>)"
      using j loc q used [OF nth_mem [OF j(1)]] by (cases "j = k") auto
    show "reader_ok N (net_seg (n\<lparr>net_seg := s', net_readers := ?R[k := (q', got')], net_uids := insert uid (net_uids n)\<rparr>))
      (net_sent (n\<lparr>net_seg := s', net_readers := ?R[k := (q', got')], net_uids := insert uid (net_uids n)\<rparr>)) p g"
      using j r other [of j] by (cases "j = k") (auto simp: nth_list_update)
  qed (use st d uid net_okD(3,4) [OF ok] in \<open>simp_all add: reader_step_def fresh_uid_def\<close>)
qed

section \<open>Every step keeps it\<close>

text \<open>The three cases of a receiving (or polling) reader.\<close>

lemma reader_step_set:
  assumes "seg_ok N s" "slots_free s" "sub_ok N q" "attached N (slot q) q s" "off p mod 8 = 0"
  shows "reader_step N s q uid (set_read_pointer (slot q) p s) q"
  using assms seg_ok_set [OF assms(1,5), of "slot q"]
  by (auto simp: reader_step_def slots_free_def only_slot_def slot_same_def attached_def)

lemma reader_step_reset:
  assumes "seg_ok N s" "slots_free s" "sub_ok N q" "read_uids s ! slot q = read_uid_local q"
  shows "reader_step N s q uid (msgq_reset_reader q s) q"
  using assms reset_reader_ok [OF assms(1,3)] by (simp add: reader_step_def slots_free_def)

lemma subseq_suffix: "subseq xs (sk @ xs)"
  by (rule list_emb_append2) simp

lemma subseq_leftD: "subseq (xs @ ys) zs \<Longrightarrow> subseq xs zs"
  by (rule subseq_order.order_trans [OF list_emb_prefix]) simp_all

lemma subseq_append_trans: "subseq ys' ys \<Longrightarrow> subseq (xs @ ys) zs \<Longrightarrow> subseq (xs @ ys') zs"
  by (rule subseq_order.order_trans [of _ "xs @ ys"]) (simp_all add: list_emb_append_mono)

lemma reader_step_joined: "joined N uid q s q' s' \<Longrightarrow> reader_step N s q uid s' q'"
  by (auto simp: joined_def reader_step_def attached_def) (metis msgq_queue.select_convs(4) msgq_queue.surjective msgq_queue.update_convs(3,4))

lemma reader_ok_none:
  assumes "sub_ok N q'" "subseq got sent" "read_pointers s' ! slot q' = write_pointer s'"
  shows "reader_ok N s' sent q' got"
  using assms slot_pending_none [OF assms(3)] unfolding reader_ok_def by (metis append_Nil2)

text \<open>
  What a reception may yield after \<open>got\<close>: nothing, a message that was sent after them, or, when an empty message was sent
  after them, a failed assertion.
\<close>

definition result_ok :: "bytes list \<Rightarrow> bytes list \<Rightarrow> recv_result \<Rightarrow> bool" where
  "result_ok got sent res \<longleftrightarrow>
     (case res of
        Aborted \<Rightarrow> subseq (got @ [[]]) sent
      | Received r None \<Rightarrow> r = 0
      | Received r (Some m) \<Rightarrow> r = int (length m) \<and> subseq (got @ [m]) sent)"

lemma received_delivered:
  assumes "received c s ms res p" "subseq (got @ ms) sent"
  obtains rest where "pending (seg_data s) (write_pointer s) p rest" "subseq ((got @ delivered res) @ rest) sent"
    "result_ok got sent res" "off p mod 8 = 0"
proof -
  obtain sk rest where r: "pending (seg_data s) (write_pointer s) p rest" "ms = sk @ delivered res @ rest"
      "res = Received 0 None \<or> (\<exists>m. res = Received (int (length m)) (Some m)) \<or> res = Aborted \<and> (\<exists>rest'. rest = [] # rest')"
    using assms(1) by (fastforce simp: received_def)
  have all: "subseq ((got @ delivered res) @ rest) sent"
    using subseq_append_trans [OF subseq_suffix assms(2) [unfolded r(2)]] by simp
  from r(3) have "result_ok got sent res"
  proof (elim disjE conjE exE)
    fix m assume "res = Received (int (length m)) (Some m)"
    then show ?thesis using subseq_leftD [OF all] by (simp add: result_ok_def)
  next
    fix rest' assume "res = Aborted" "rest = [] # rest'"
    then show ?thesis using all subseq_leftD [of "got @ [[]]" rest' sent] by (simp add: result_ok_def)
  qed (simp add: result_ok_def)
  moreover have "off p mod 8 = 0" using assms(1) by (simp add: received_def)
  ultimately show ?thesis by (intro that [OF r(1) all])
qed

text \<open>An evicted and an invalidated reader.\<close>

lemma joined_step:
  assumes "joined N uid q s q' s'" "subseq got sent"
  shows "reader_step N s q uid s' q' \<and> reader_ok N s' sent q' got"
  using assms reader_step_joined [OF assms(1)] by (auto simp: joined_def only_slot_def intro!: reader_ok_none)

lemma reset_step:
  assumes "seg_ok N s" "slots_free s" "sub_ok N q" "read_uids s ! slot q = read_uid_local q" "subseq got sent"
  shows "reader_step N s q uid (msgq_reset_reader q s) q \<and> reader_ok N (msgq_reset_reader q s) sent q got"
  using assms reader_step_reset [OF assms(1-4)] reset_reader_ok [OF assms(1,3)] by (auto intro!: reader_ok_none)

lemma reader_cases:
  assumes "reader_ok N s sent q got"
  obtains (evicted) "read_uids s ! slot q \<noteq> read_uid_local q"
    | (invalid) "read_uids s ! slot q = read_uid_local q" "read_valids s ! slot q = 0"
    | (valid) ms where "attached N (slot q) q s" "slot_pending s (slot q) ms" "subseq (got @ ms) sent"
  using assms unfolding reader_ok_def attached_def sub_ok_def by fastforce

lemma recv_step:
  assumes s: "seg_ok N s" "slots_free s" and r: "reader_ok N s sent q got"
  shows "\<exists>res q' s'. msgq_msg_recv uid True q s = Some (res, q', s') \<and> result_ok got sent res \<and> reader_step N s q uid s' q'
    \<and> reader_ok N s' sent q' (got @ delivered res)"
proof -
  have q: "sub_ok N q" and g: "subseq got sent" using r by (simp_all add: reader_ok_def)
  from r show ?thesis
  proof (cases rule: reader_cases)
    case evicted
    with recv_evicted [OF s q, of uid] obtain q' s' where
      "msgq_msg_recv uid True q s = Some (Received 0 None, q', s')" "joined N uid q s q' s'" by blast
    then show ?thesis using joined_step [OF _ g] by (simp add: result_ok_def)
  next
    case invalid
    then show ?thesis using recv_invalid [OF s(1) q, of uid] reset_step [OF s q _ g] by (simp add: result_ok_def)
  next
    case (valid ms)
    from recv_attached [OF s(1) valid(1,2), of uid] obtain res p where e:
      "msgq_msg_recv uid True q s = Some (res, q, set_read_pointer (slot q) p s)" "received (read_conflate q) s ms res p" by blast
    obtain rest where rest: "pending (seg_data s) (write_pointer s) p rest" "subseq ((got @ delivered res) @ rest) sent"
      "result_ok got sent res" "off p mod 8 = 0" by (rule received_delivered [OF e(2) valid(3)])
    have "slot_pending (set_read_pointer (slot q) p s) (slot q) rest"
      using rest(1) q seg_ok_lengths [OF s(1)] by (simp add: slot_pending_def sub_ok_def)
    then have "reader_ok N (set_read_pointer (slot q) p s) sent q (got @ delivered res)"
      using q rest(2) subseq_leftD [OF rest(2)] unfolding reader_ok_def by blast
    then show ?thesis using e rest(3) reader_step_set [OF s q valid(1) rest(4)] by blast
  qed
qed

lemma ready_step:
  assumes s: "seg_ok N s" "slots_free s" and r: "reader_ok N s sent q got"
  shows "\<exists>b q' s'. msgq_msg_ready uid q s = Some (Some b, q', s') \<and> reader_step N s q uid s' q' \<and> reader_ok N s' sent q' got"
proof -
  have q: "sub_ok N q" and g: "subseq got sent" using r by (simp_all add: reader_ok_def)
  from r show ?thesis
  proof (cases rule: reader_cases)
    case evicted
    then show ?thesis using ready_evicted [OF s q, of uid] joined_step [OF _ g] by fastforce
  next
    case invalid
    then show ?thesis using ready_invalid [OF s(1) q, of uid] reset_step [OF s q _ g] by fastforce
  next
    case (valid ms)
    have "reader_step N s q uid s q"
      using reader_step_set [OF s q valid(1), of "read_pointers s ! slot q" uid] valid(1) s(1)
      by (simp add: seg_ok_off attached_def)
    then show ?thesis using ready_attached [OF q valid(1), of uid] r by simp
  qed
qed

lemma publisher_ok:
  assumes "net_ok N n" "fresh_uid uid n" "opened N q" "msgq_init_publisher uid q (net_seg n) = (q', s')"
  shows "net_ok N (n\<lparr>net_seg := s', net_pubs := net_pubs n @ [q'], net_uids := insert uid (net_uids n)\<rparr>)"
proof -
  have s': "seg_ok N s'" "slots_free s'" "read_uids s' = replicate NUM_READERS 0" and q': "q_size q' = word_of_nat N"
    using assms(3,4) net_okD(1) [OF assms(1)]
    by (auto simp: msgq_init_publisher_def seg_ok_def slots_free_def opened_def)
  have r: "reader_ok N s' (net_sent n) r got" if "(r, got) \<in> set (net_readers n)" for r got
  proof -
    have "read_uid_local r \<noteq> 0" using net_okD(3,5) [OF assms(1)] that by metis
    then show ?thesis using net_okD(6) [OF assms(1) that] s'(3) by (auto simp: reader_ok_def attached_def)
  qed
  show ?thesis
    by (rule net_okI) (use s' q' r assms(2) net_okD [OF assms(1)] in \<open>auto simp: fresh_uid_def\<close>)
qed

lemma send_reader_ok:
  assumes r: "reader_ok N s sent q got" and u: "read_uids s' = read_uids s"
    and v: "slot q < NUM_READERS \<Longrightarrow> read_uids s ! slot q = read_uid_local q \<Longrightarrow> slot q < unat (num_readers s)"
    and valid: "\<And>i. i < unat (num_readers s) \<Longrightarrow> read_valids s' ! i \<noteq> 0 \<Longrightarrow> read_valids s ! i \<noteq> 0"
    and pend: "\<And>i ms. i < unat (num_readers s) \<Longrightarrow> read_valids s' ! i \<noteq> 0 \<Longrightarrow> slot_pending s i ms \<Longrightarrow>
       slot_pending s' i (ms @ [m]) \<or> slot_pending s' i [m]"
  shows "reader_ok N s' (sent @ [m]) q got"
proof -
  have g: "subseq got sent" and q: "sub_ok N q" using r by (simp_all add: reader_ok_def)
  have "\<exists>ms. slot_pending s' (slot q) ms \<and> subseq (got @ ms) (sent @ [m])" if a: "attached N (slot q) q s'"
  proof -
    have i: "slot q < unat (num_readers s)" "read_valids s' ! slot q \<noteq> 0" using a u v by (simp_all add: attached_def)
    then have "attached N (slot q) q s" using a u valid by (simp add: attached_def)
    then obtain ms where ms: "slot_pending s (slot q) ms" "subseq (got @ ms) sent" using r by (auto simp: reader_ok_def)
    have "subseq ((got @ ms) @ [m]) (sent @ [m])" using ms(2) by (simp only: subseq_append)
    moreover have "subseq (got @ [m]) (sent @ [m])" using g by (simp only: subseq_append)
    ultimately show ?thesis using pend [OF i ms(1)] by auto
  qed
  then show ?thesis using g q by (simp add: reader_ok_def list_emb_prefix)
qed

lemma subscriber_ok:
  assumes ok: "net_ok N n" and uid: "fresh_uid uid n" and q: "q_size q = word_of_nat N"
    and e: "msgq_init_subscriber uid q (net_seg n) = (q', s')"
  shows "net_ok N (n\<lparr>net_seg := s', net_readers := net_readers n @ [(q', [])], net_uids := insert uid (net_uids n)\<rparr>)"
proof -
  have j: "joined N uid q (net_seg n) q' s'"
    using init_subscriber_ok [OF net_okD(1,2) [OF ok] q, of uid] e by auto
  then have st: "reader_step N (net_seg n) q uid s' q'" and u: "read_uid_local q' = uid"
    using reader_step_joined by (auto simp: joined_def) (metis msgq_queue.select_convs(4) msgq_queue.surjective msgq_queue.update_convs(3,4))
  have r: "reader_ok N s' (net_sent n) q' []" using joined_step [OF j] by simp
  have old: "reader_ok N s' (net_sent n) p got" if m: "(p, got) \<in> set (net_readers n)" for p got
  proof (rule reader_ok_other)
    show "only_slot (slot q') (net_seg n) s'" using st by (simp add: reader_step_def)
    show "reader_ok N (net_seg n) (net_sent n) p got" by (rule net_okD(6) [OF ok m])
    show "read_uid_local p \<noteq> 0" using net_okD(3,5) [OF ok] m by metis
    show "read_uids s' ! slot q' \<noteq> read_uid_local p"
      using st u uid net_okD(5) [OF ok m] by (auto simp: reader_step_def fresh_uid_def)
  qed
  have "uid \<notin> (read_uid_local \<circ> fst) ` set (net_readers n)"
    using uid net_okD(5) [OF ok] by (fastforce simp: fresh_uid_def)
  then show ?thesis
    by (intro net_okI) (use st u r old uid net_okD [OF ok] in \<open>auto simp: reader_step_def fresh_uid_def\<close>)
qed

text \<open>A message is sent only if three of its size fit: otherwise the assertion fails.\<close>

lemma send_fits:
  assumes "q_size q = word_of_nat N" "N < 2 ^ 32" "write_uid_local q = write_uid s" "length m < 2 ^ 62"
    "msgq_msg_send m q s = Some (r, s')"
  shows "3 * align (length m + 8) \<le> N"
proof -
  let ?n = "word_of_nat (length m) :: u64" and ?t = "align (length m + 8)"
  have l: "unat ?n = length m" using assms(4) by (simp add: unsigned_of_nat take_bit_nat_eq_self)
  have n: "unat (?n + 8) = length m + 8" using assms(4) by (simp add: unat_word_ariths(1) l)
  have t: "unat (ALIGN (?n + 8)) = ?t" using assms(4) by (subst ALIGN_align) (simp_all add: n)
  have "?t < 2 ^ 62 + 16" using align_bounds(2) [of "length m + 8"] assms(4) by simp
  then have t3: "unat (3 * ALIGN (?n + 8)) = 3 * ?t" by (simp add: unat_word_ariths(2) t)
  have "3 * ALIGN (?n + 8) \<le> q_size q"
    using assms(3,5) by (simp add: msgq_msg_send_def Let_def case_prod_beta split: if_splits)
  then show ?thesis using assms(2) by (simp add: word_le_nat_alt t3 assms(1) word_of_nat_len)
qed

lemma send_net_ok:
  assumes ok: "net_ok N n" and k: "k < length (net_pubs n)" and m: "3 * align (length m + 8) \<le> N"
    and cy: "cyc (write_pointer (net_seg n)) + 1 < 2 ^ 32"
  shows "\<exists>r s'. msgq_msg_send m (net_pubs n ! k) (net_seg n) = Some (r, s')
    \<and> r = (if write_uid_local (net_pubs n ! k) = write_uid (net_seg n) then int (length m) else - 1)
    \<and> net_ok N (n\<lparr>net_seg := s', net_sent := net_sent n @ (if r < 0 then [] else [m])\<rparr>)"
proof (cases "write_uid_local (net_pubs n ! k) = write_uid (net_seg n)")
  case False
  then have "msgq_msg_send m (net_pubs n ! k) (net_seg n) = Some (- 1, net_seg n)" by (simp add: msgq_msg_send_def)
  then show ?thesis using ok False by simp
next
  case True
  let ?s = "net_seg n"
  have q: "q_size (net_pubs n ! k) = word_of_nat N" using net_okD(4) [OF ok] k by simp
  obtain s' where s': "msgq_msg_send m (net_pubs n ! k) ?s = Some (int (length m), s')" "seg_ok N s'"
      "num_readers s' = num_readers ?s" "read_uids s' = read_uids ?s" "read_pointers s' = read_pointers ?s"
      "write_uid s' = write_uid ?s" "cyc (write_pointer s') \<le> cyc (write_pointer ?s) + 1"
    and v: "\<And>i. i < unat (num_readers ?s) \<Longrightarrow> read_valids s' ! i \<noteq> 0 \<Longrightarrow> read_valids ?s ! i \<noteq> 0"
    and p: "\<And>i ms. i < unat (num_readers ?s) \<Longrightarrow> read_valids s' ! i \<noteq> 0 \<Longrightarrow> slot_pending ?s i ms \<Longrightarrow>
       slot_pending s' i (ms @ [m]) \<or> slot_pending s' i [m]"
    by (rule send_ok [OF net_okD(1) [OF ok] q True m cy]) (rule that; assumption)
  have r: "reader_ok N s' (net_sent n @ [m]) r got" if g: "(r, got) \<in> set (net_readers n)" for r got
  proof (rule send_reader_ok [OF net_okD(6) [OF ok g] s'(4) _ v p])
    assume "slot r < NUM_READERS" "read_uids ?s ! slot r = read_uid_local r"
    moreover have "read_uid_local r \<noteq> 0" using net_okD(3,5) [OF ok] g by metis
    ultimately show "slot r < unat (num_readers ?s)" using net_okD(2) [OF ok] by (force simp: slots_free_def not_less)
  qed
  have "net_ok N (n\<lparr>net_seg := s', net_sent := net_sent n @ [m]\<rparr>)"
    by (intro net_okI) (use s' r net_okD [OF ok] in \<open>auto simp: slots_free_def\<close>)
  then show ?thesis using s'(1) True by simp
qed

lemma net_ok_init: "8 \<le> N \<Longrightarrow> N < 2 ^ 32 \<Longrightarrow> net_ok N (net_init N)"
  by (simp add: net_ok_def net_init_def fresh_seg_def seg_ok_def slots_free_def off_def UNPACK64_def)

lemma net_ok_step:
  assumes ok: "net_ok N n" and st: "net_step N n n'"
  shows "net_ok N n'"
  using st
proof cases
  case (publish uid q q' s')
  then show ?thesis using publisher_ok [OF ok] by simp
next
  case (subscribe uid q conflate q' s')
  then show ?thesis using subscriber_ok [OF ok subscribe(2) _ subscribe(4)] by (simp add: opened_def)
next
  case (send k m r s')
  show ?thesis
  proof (cases "write_uid_local (net_pubs n ! k) = write_uid (net_seg n)")
    case True
    then have "3 * align (length m + 8) \<le> N"
      using send_fits [OF _ _ _ send(3,5)] net_okD(1,4) [OF ok] send(2) by (simp add: seg_ok_def)
    from send_net_ok [OF ok send(2) this send(4)] show ?thesis using send(1,5) by auto
  next
    case False
    then have "r = - 1" "s' = net_seg n" using send(5) by (simp_all add: msgq_msg_send_def)
    then show ?thesis using send(1) ok by simp
  qed
next
  case (recv k q got uid res q' s')
  have r: "reader_ok N (net_seg n) (net_sent n) q got" using net_okD(6) [OF ok] recv(2,3) by (metis nth_mem)
  from recv_step [OF net_okD(1,2) [OF ok] r, of uid] recv(5)
  show ?thesis unfolding recv(1) using net_ok_reader_step [OF ok recv(2-4)] by auto
next
  case (ready k q got uid b q' s')
  have r: "reader_ok N (net_seg n) (net_sent n) q got" using net_okD(6) [OF ok] ready(2,3) by (metis nth_mem)
  from ready_step [OF net_okD(1,2) [OF ok] r, of uid] ready(5)
  show ?thesis unfolding ready(1) using net_ok_reader_step [OF ok ready(2-4)] by auto
qed

lemma net_reachable_ok: "net_reachable N n \<Longrightarrow> 8 \<le> N \<Longrightarrow> N < 2 ^ 32 \<Longrightarrow> net_ok N n"
  by (induction rule: net_reachable.induct) (simp_all add: net_ok_init net_ok_step)

section \<open>A run\<close>

text \<open>A publisher and a reader on a segment of 48 bytes, one message sent and received.\<close>

definition demo_queue :: msgq_queue where
  "demo_queue = \<lparr>q_mapped = True, q_size = 48, reader_id = - 1, read_uid_local = 0, write_uid_local = 0,
     read_conflate = False, q_endpoint = ''can''\<rparr>"

definition demo_pub :: "msgq_queue \<times> msgq_seg" where
  "demo_pub = msgq_init_publisher 5 demo_queue (fresh_seg 48)"

definition demo_sub :: "msgq_queue \<times> msgq_seg" where
  "demo_sub = msgq_init_subscriber 7 demo_queue (snd demo_pub)"

definition demo_sent :: msgq_seg where
  "demo_sent = snd (the (msgq_msg_send [1, 2, 3] (fst demo_pub) (snd demo_sub)))"

definition demo_got :: msgq_seg where
  "demo_got = snd (snd (the (msgq_msg_recv 9 True (fst demo_sub) demo_sent)))"

definition demo_net :: msgq_net where
  "demo_net = \<lparr>net_seg = demo_got, net_pubs = [fst demo_pub], net_readers = [(fst demo_sub, [[1, 2, 3]])],
     net_sent = [[1, 2, 3]], net_uids = {9, 7, 5}\<rparr>"

lemma demo_send: "msgq_msg_send [1, 2, 3] (fst demo_pub) (snd demo_sub) = Some (3, demo_sent)"
  by code_simp

lemma demo_recv: "msgq_msg_recv 9 True (fst demo_sub) demo_sent = Some (Received 3 (Some [1, 2, 3]), fst demo_sub, demo_got)"
  by code_simp

lemma demo_cyc: "cyc (write_pointer (snd demo_sub)) = 0" "cyc (write_pointer demo_got) = 0"
  by code_simp+

lemma demo_reachable: "net_reachable 48 demo_net"
proof -
  have o: "opened 48 demo_queue" by (simp add: opened_def demo_queue_def)
  let ?n1 = "\<lparr>net_seg = snd demo_pub, net_pubs = [fst demo_pub], net_readers = [], net_sent = [], net_uids = {5}\<rparr>"
  let ?n2 = "\<lparr>net_seg = snd demo_sub, net_pubs = [fst demo_pub], net_readers = [(fst demo_sub, [])], net_sent = [], net_uids = {7, 5}\<rparr>"
  let ?n3 = "\<lparr>net_seg = demo_sent, net_pubs = [fst demo_pub], net_readers = [(fst demo_sub, [])], net_sent = [[1, 2, 3]], net_uids = {7, 5}\<rparr>"
  have "net_step 48 (net_init 48) ?n1"
    using net_step.publish [of 5 "net_init 48" 48 demo_queue "fst demo_pub" "snd demo_pub"] o
    by (simp add: net_init_def fresh_uid_def demo_pub_def)
  moreover have "net_step 48 ?n1 ?n2"
    using net_step.subscribe [of 7 ?n1 48 demo_queue False "fst demo_sub" "snd demo_sub"] o
    by (simp add: fresh_uid_def demo_sub_def demo_queue_def)
  moreover have "net_step 48 ?n2 ?n3"
    using net_step.send [of 0 ?n2 "[1, 2, 3]" 3 demo_sent] demo_send demo_cyc by simp
  moreover have "net_step 48 ?n3 demo_net"
    using net_step.recv [of 0 ?n3 "fst demo_sub" "[]" 9 "Received 3 (Some [1, 2, 3])" "fst demo_sub" demo_got 48] demo_recv
    by (simp add: fresh_uid_def demo_net_def)
  ultimately show ?thesis by (metis net_reachable.init net_reachable.step)
qed

section \<open>What the queue promises\<close>

text \<open>
  C28. Order and integrity. In every run of the system, from a new segment of 8 bytes to 4 GiB, what a reader has
  received is a subsequence of the messages sent: nothing is invented, torn, repeated or reordered, whatever is dropped by
  overrun, eviction and changes of the publisher. The messages sent may be empty; the writer makes fewer than 2^32 laps.
\<close>

theorem msgq_fifo:
  assumes "net_reachable N n" "8 \<le> N" "N < 2 ^ 32" "(q, got) \<in> set (net_readers n)"
  shows "subseq got (net_sent n)"
  using net_okD(6) [OF net_reachable_ok [OF assms(1-3)] assms(4)] by (simp add: reader_ok_def)

theorem msgq_fifo_witness:
  "net_reachable 48 demo_net \<and> net_readers demo_net = [(fst demo_sub, [[1, 2, 3]])] \<and> subseq [[1, 2, 3]] (net_sent demo_net)"
  using demo_reachable msgq_fifo [OF demo_reachable, of "fst demo_sub" "[[1, 2, 3]]"] by (simp add: demo_net_def)

text \<open>
  C29. Operations return. In every reachable state of the system, whatever messages were sent, receiving returns for
  every reader: with nothing, or with a message that was sent after those it has, or, only when an empty message was sent after
  those, by the failed assertion on the size. The active publisher's sending succeeds for every message, an empty one too, of which
  three fit. The limits are those of a run: fewer than 2^32 laps of the writer, and allocations that succeed.
\<close>

theorem msgq_operations_return:
  assumes "net_reachable N n" "8 \<le> N" "N < 2 ^ 32"
  shows "((q, got) \<in> set (net_readers n) \<longrightarrow>
      (\<exists>res q' s'. msgq_msg_recv uid True q (net_seg n) = Some (res, q', s')
         \<and> (case res of
              Aborted \<Rightarrow> subseq (got @ [[]]) (net_sent n)
            | Received r None \<Rightarrow> r = 0
            | Received r (Some m) \<Rightarrow> r = int (length m) \<and> subseq (got @ [m]) (net_sent n))))
    \<and> (k < length (net_pubs n) \<longrightarrow> write_uid_local (net_pubs n ! k) = write_uid (net_seg n) \<longrightarrow>
       3 * align (length m + 8) \<le> N \<longrightarrow> cyc (write_pointer (net_seg n)) + 1 < 2 ^ 32 \<longrightarrow>
       (\<exists>s'. msgq_msg_send m (net_pubs n ! k) (net_seg n) = Some (int (length m), s')))"
proof -
  note ok = net_reachable_ok [OF assms]
  have "\<exists>res q' s'. msgq_msg_recv uid True q (net_seg n) = Some (res, q', s') \<and> result_ok got (net_sent n) res"
    if "(q, got) \<in> set (net_readers n)"
    using recv_step [OF net_okD(1,2) [OF ok] net_okD(6) [OF ok that], of uid] by blast
  moreover have "\<exists>s'. msgq_msg_send m (net_pubs n ! k) (net_seg n) = Some (int (length m), s')"
    if "k < length (net_pubs n)" "write_uid_local (net_pubs n ! k) = write_uid (net_seg n)"
      "3 * align (length m + 8) \<le> N" "cyc (write_pointer (net_seg n)) + 1 < 2 ^ 32"
    using send_net_ok [OF ok that(1,3-4)] that(2) by auto
  ultimately show ?thesis unfolding result_ok_def by blast
qed

theorem msgq_operations_return_witness:
  "(\<exists>res q' s'. msgq_msg_recv 11 True (fst demo_sub) (net_seg demo_net) = Some (res, q', s') \<and> res \<noteq> Aborted)
    \<and> (\<exists>s'. msgq_msg_send [] (fst demo_pub) (net_seg demo_net) = Some (0, s'))"
proof -
  have u: "write_uid_local (fst demo_pub) = write_uid demo_got" by code_simp
  note ops = msgq_operations_return [OF demo_reachable, of "fst demo_sub" "[[1, 2, 3]]" 11 0 "[]"]
  obtain res q' s' where "msgq_msg_recv 11 True (fst demo_sub) demo_got = Some (res, q', s')"
      "res = Aborted \<longrightarrow> subseq [[1, 2, 3], []] [[1, 2, 3 :: 8 word]]"
    using conjunct1 [OF ops] by (fastforce simp: demo_net_def)
  then have "\<exists>res q' s'. msgq_msg_recv 11 True (fst demo_sub) demo_got = Some (res, q', s') \<and> res \<noteq> Aborted"
    by fastforce
  then show ?thesis using conjunct2 [OF ops] u demo_cyc by (simp add: demo_net_def align_def)
qed

text \<open>
  The reader takes every message as soon as it was sent; the result is what it received.
\<close>

fun exchange :: "u64 \<Rightarrow> bytes list \<Rightarrow> msgq_queue \<Rightarrow> msgq_queue \<Rightarrow> msgq_seg \<Rightarrow> (bytes list \<times> msgq_queue \<times> msgq_seg) option" where
  "exchange uid [] pub q s = Some ([], q, s)"
| "exchange uid (m # ms) pub q s =
     do { (res, q, s) \<leftarrow> send_recv uid m pub q s; (got, q, s) \<leftarrow> exchange uid ms pub q s;
          Some (delivered res @ got, q, s) }"

lemma exchange_drained:
  "drained N q s \<Longrightarrow> q_size pub = word_of_nat N \<Longrightarrow> write_uid_local pub = write_uid s \<Longrightarrow>
   \<forall>m \<in> set ms. m \<noteq> [] \<and> 3 * align (length m + 8) \<le> N \<Longrightarrow> cyc (write_pointer s) + length ms < 2 ^ 32 \<Longrightarrow>
   \<exists>s'. exchange uid ms pub q s = Some (ms, q, s') \<and> drained N q s'"
proof (induction ms arbitrary: s)
  case (Cons m ms)
  obtain s' where s': "send_recv uid m pub q s = Some (Received (int (length m)) (Some m), q, s')" "drained N q s'"
      "write_uid s' = write_uid s" "cyc (write_pointer s') \<le> cyc (write_pointer s) + 1"
    using send_recv_drained [OF Cons.prems(1-3), of m uid] Cons.prems(4,5) by auto
  obtain s'' where "exchange uid ms pub q s' = Some (ms, q, s'')" "drained N q s''"
    using Cons.IH [OF s'(2) Cons.prems(2)] Cons.prems(3-5) s'(3,4) by auto
  then show ?case using s'(1) by simp
qed simp

text \<open>
  C30. No loss for a reader that keeps up. Subscribing at any moment of any run, and receiving after every message the active
  publisher sends, a reader gets exactly the messages sent, wrap-arounds included.
\<close>

theorem msgq_lossless:
  assumes "net_reachable N n" "8 \<le> N" "N < 2 ^ 32" "k < length (net_pubs n)"
    "write_uid_local (net_pubs n ! k) = write_uid (net_seg n)" "q_size q = word_of_nat N"
    "msgq_init_subscriber uid q (net_seg n) = (q', s')"
    "\<forall>m \<in> set ms. m \<noteq> [] \<and> 3 * align (length m + 8) \<le> N" "cyc (write_pointer (net_seg n)) + length ms < 2 ^ 32"
  shows "\<exists>s''. exchange uid' ms (net_pubs n ! k) q' s' = Some (ms, q', s'')"
proof -
  note ok = net_reachable_ok [OF assms(1-3)]
  have j: "joined N uid q (net_seg n) q' s'"
    using init_subscriber_ok [OF net_okD(1,2) [OF ok] assms(6), of uid] assms(7) by auto
  then have "drained N q' s'" "write_uid s' = write_uid (net_seg n)" "write_pointer s' = write_pointer (net_seg n)"
    by (simp_all add: drained_def joined_def only_slot_def)
  then show ?thesis
    using exchange_drained [of N q' s' "net_pubs n ! k" ms uid'] net_okD(4) [OF ok] assms(4,5,8,9) by auto
qed

theorem msgq_lossless_witness:
  "(case msgq_init_subscriber 11 demo_queue (net_seg demo_net) of (q, s) \<Rightarrow>
      \<exists>s''. exchange 13 [[1], [2, 3], [4], [5]] (fst demo_pub) q s = Some ([[1], [2, 3], [4], [5]], q, s''))"
proof -
  have "write_uid_local (fst demo_pub) = write_uid demo_got" by code_simp
  moreover obtain q s where "msgq_init_subscriber 11 demo_queue demo_got = (q, s)" by fastforce
  ultimately show ?thesis
    using msgq_lossless [OF demo_reachable, of 0 demo_queue 11 q s "[[1], [2, 3], [4], [5]]" 13] demo_cyc
    by (simp add: demo_net_def align_def demo_queue_def)
qed

section \<open>What it does not promise\<close>

text \<open>\<open>run_script\<close>: \<open>Some m\<close> sends the message, \<open>None\<close> receives; the results of the receptions.\<close>

fun run_script :: "bytes option list \<Rightarrow> msgq_queue \<Rightarrow> msgq_queue \<Rightarrow> msgq_seg \<Rightarrow> recv_result list option" where
  "run_script [] pub q s = Some []"
| "run_script (Some m # xs) pub q s = do { (r, s) \<leftarrow> msgq_msg_send m pub s; run_script xs pub q s }"
| "run_script (None # xs) pub q s =
     do { (res, q, s) \<leftarrow> msgq_msg_recv 9 True q s; rs \<leftarrow> run_script xs pub q s; Some (res # rs) }"

text \<open>An empty message is sent without an error, and receiving it fails the assertion on the size.\<close>

lemma msgq_empty_message:
  "run_script [Some [], None] (fst demo_pub) (fst demo_sub) (snd demo_sub) = Some [Aborted]"
  by code_simp

text \<open>
  A reader exactly one lap behind the writer is told that there is nothing; it then loses the lap, and goes on
  with a cycle count that is one behind. Being up to date again it is invalidated by the next message, and loses it too.
\<close>

lemma msgq_stale_cycle:
  "run_script [Some [1], Some [2], None, None, Some [3], Some [4], None, Some [5], None, None, Some [6], None]
     (fst demo_pub) (fst demo_sub) (snd demo_sub) =
   Some [Received 1 (Some [1]), Received 1 (Some [2]), Received 0 None, Received 1 (Some [5]), Received 0 None, Received 0 None]"
  by code_simp

end
