(* ===== verification/Interfaces.thy ===== *)
theory Interfaces
  imports Prelude
begin

text \<open>
  The contracts of the abstract classes of \<open>bridge/msgq/ipc.h\<close> that the clients rely on, as locales: \<open>Message\<close>, a buffer
  that owns a copy of its data until it is closed, and \<open>Poller\<close>, which takes a bounded number of sockets. Each transport
  interprets them on its own operations.
\<close>

section \<open>Messages\<close>

text \<open>\<open>allocs\<close> and \<open>frees\<close> count the buffers a message got and gave back; deleting a message closes it.\<close>

locale message_buffer =
  fixes init :: "bytes \<Rightarrow> 'm \<Rightarrow> 'm"
    and close :: "'m \<Rightarrow> 'm"
    and getData :: "'m \<Rightarrow> bytes option"
    and getSize :: "'m \<Rightarrow> nat"
    and allocs :: "'m \<Rightarrow> nat"
    and frees :: "'m \<Rightarrow> nat"
  assumes getData_init: "getData (init d m) = Some d"
    and getSize_init: "getSize (init d m) = length d"
    and allocs_init: "allocs (init d m) = allocs m + 1"
    and frees_init: "frees (init d m) = frees m"
    and getSize_close: "getSize (close m) = 0"
    and getData_close: "0 < getSize m \<Longrightarrow> getData (close m) = None"
    and allocs_close: "allocs (close m) = allocs m"
    and frees_close: "frees (close m) = (if 0 < getSize m then frees m + 1 else frees m)"
begin

lemma close_again: "frees (close (close m)) = frees (close m)"
  by (simp add: frees_close [of "close m"] getSize_close)

lemma freed_once:
  assumes "allocs m = frees m"
  shows "allocs (close (close (init d m))) = frees (close (close (init d m))) \<longleftrightarrow> d \<noteq> []"
  using assms by (simp add: close_again allocs_close allocs_init frees_close [of "init d m"] getSize_init frees_init)

end

section \<open>Pollers\<close>

text \<open>\<open>Poller::create(sockets)\<close>: every socket is registered, in order; a failed assertion is \<open>None\<close>.\<close>

fun register_all :: "('x \<Rightarrow> 'p \<Rightarrow> 'p option) \<Rightarrow> 'x list \<Rightarrow> 'p \<Rightarrow> 'p option" where
  "register_all register [] p = Some p"
| "register_all register (x # xs) p = do { p \<leftarrow> register x p; register_all register xs p }"

locale bounded_poller =
  fixes register :: "'x \<Rightarrow> 'p \<Rightarrow> 'p option"
    and sock :: "'x \<Rightarrow> 's"
    and registered :: "'p \<Rightarrow> 's list"
    and count :: "'p \<Rightarrow> nat"
    and limit :: nat
  assumes register_iff: "register x p = None \<longleftrightarrow> \<not> count p + 1 < limit"
    and register_Some: "register x p = Some p' \<Longrightarrow> registered p' = registered p @ [sock x] \<and> count p' = count p + 1"
begin

lemma register_all_ok:
  "count p + length xs < limit \<Longrightarrow> \<exists>p'. register_all register xs p = Some p' \<and> registered p' = registered p @ map sock xs
     \<and> count p' = count p + length xs"
proof (induction xs arbitrary: p)
  case (Cons x xs)
  then obtain p1 where p1: "register x p = Some p1" using register_iff [of x p] by fastforce
  then show ?case using Cons.IH [of p1] Cons.prems register_Some [OF p1] by auto
qed simp

lemma register_all_too_many:
  "xs \<noteq> [] \<Longrightarrow> limit \<le> count p + length xs \<Longrightarrow> register_all register xs p = None"
proof (induction xs arbitrary: p)
  case (Cons x xs)
  show ?case
  proof (cases "register x p")
    case (Some p1)
    then have c: "count p1 = count p + 1" "count p + 1 < limit" using register_Some register_iff [of x p] by auto
    then have "xs \<noteq> []" using Cons.prems by auto
    then show ?thesis using Cons.IH [of p1] Cons.prems Some c by simp
  qed simp
qed simp

end

end
