(* ===== verification/Zmq.thy ===== *)
theory Zmq
  imports CStrings Interfaces
begin

text \<open>
  The ZeroMQ transport, from \<open>bridge/msgq/impl_zmq.h\<close> and \<open>bridge/msgq/impl_zmq.cc\<close>: the port
  number of an endpoint (\<open>fnv1a_hash\<close>, \<open>get_port\<close>), the message buffer, the subscriber and
  publisher sockets and the poller.

  The library itself is not part of the repository. What its calls return is an argument of the
  definitions; the calls a function makes are a list of values of type \<open>zmq_call\<close>, in order.
  A failed assertion is \<open>None\<close>.
\<close>

section \<open>Port numbers\<close>

text \<open>
  The hash is computed in \<open>size_t\<close>, a type \<open>'w word\<close> that is 32 or 64 bits wide; narrower, it keeps the low bits of the
  constants. So is the port, up to the final narrowing to \<open>int\<close>.
\<close>

definition fnv_prime :: "'w::len word" where "fnv_prime = 0x100000001b3"

definition fnv1a_hash :: "string \<Rightarrow> 'w::len word" where
  "fnv1a_hash s = fold (\<lambda>c h. (h XOR word_of_nat (of_char c)) * fnv_prime) s 0xcbf29ce484222325"

definition hash_port :: "'w::len word \<Rightarrow> int" where
  "hash_port h = sint (ucast (8023 + h mod (65535 - 8023)) :: u32)"

definition get_port :: "data_model \<Rightarrow> string \<Rightarrow> int" where
  "get_port dm endpoint =
     (case dm of ILP32 \<Rightarrow> hash_port (fnv1a_hash endpoint :: u32) | LP64 \<Rightarrow> hash_port (fnv1a_hash endpoint :: u64))"

section \<open>The message buffer\<close>

text \<open>\<open>zm_data\<close> is the buffer that \<open>data\<close> points to; \<open>None\<close> is a dangling pointer or one that was
  never set. \<open>zm_allocs\<close> and \<open>zm_frees\<close> count the calls of \<open>new[]\<close> and \<open>delete[]\<close>.\<close>

record zmq_message =
  zm_data :: "bytes option"
  zm_size :: nat
  zm_allocs :: nat
  zm_frees :: nat

definition zmq_message_init :: "bytes \<Rightarrow> zmq_message \<Rightarrow> zmq_message" where
  "zmq_message_init d m = m\<lparr>zm_size := length d, zm_data := Some d, zm_allocs := zm_allocs m + 1\<rparr>"

text \<open>\<open>init(size_t)\<close> leaves the contents indeterminate: they are an argument.\<close>

definition zmq_message_init_size :: "nat \<Rightarrow> bytes \<Rightarrow> zmq_message \<Rightarrow> zmq_message" where
  "zmq_message_init_size sz junk m =
     m\<lparr>zm_size := sz, zm_data := Some (take sz (junk @ replicate sz 0)), zm_allocs := zm_allocs m + 1\<rparr>"

definition zmq_message_close :: "zmq_message \<Rightarrow> zmq_message" where
  "zmq_message_close m =
     (if 0 < zm_size m then m\<lparr>zm_data := None, zm_frees := zm_frees m + 1, zm_size := 0\<rparr>
      else m\<lparr>zm_size := 0\<rparr>)"

section \<open>Sockets\<close>

datatype zmq_call =
    Zmq_socket_sub
  | Zmq_socket_pub
  | Set_subscribe string
  | Set_conflate int
  | Set_reconnect_ivl_max int
  | Set_rcvtimeo int
  | Zmq_connect string
  | Zmq_bind string
  | Zmq_send bytes
  | Zmq_close

record zmq_socket =
  zs_open :: bool
  full_endpoint :: string
  zs_pid :: int

definition endpoint_port :: "data_model \<Rightarrow> string \<Rightarrow> bool \<Rightarrow> string" where
  "endpoint_port dm endpoint check_endpoint =
     (if check_endpoint then int_str (get_port dm endpoint) else endpoint)"

text \<open>\<open>connect\<close>: \<open>sock_ok\<close> says whether \<open>zmq_socket\<close> returned a socket, \<open>rc\<close> what
  \<open>zmq_connect\<close> returned.\<close>

definition sub_connect :: "data_model \<Rightarrow> bool \<Rightarrow> int \<Rightarrow> string \<Rightarrow> string \<Rightarrow> bool \<Rightarrow> bool \<Rightarrow> zmq_socket
    \<Rightarrow> zmq_call list \<times> int \<times> zmq_socket" where
  "sub_connect dm sock_ok rc endpoint address conflate check_endpoint s =
     (if \<not> sock_ok then ([Zmq_socket_sub], - 1, s\<lparr>zs_open := False\<rparr>)
      else (let full = ''tcp://'' @ address @ '':'' @ endpoint_port dm endpoint check_endpoint
            in ([Zmq_socket_sub, Set_subscribe []] @ (if conflate then [Set_conflate 1] else [])
                  @ [Set_reconnect_ivl_max 500, Zmq_connect full],
                rc, s\<lparr>zs_open := True, full_endpoint := full\<rparr>)))"

definition pub_connect :: "data_model \<Rightarrow> bool \<Rightarrow> int \<Rightarrow> int \<Rightarrow> string \<Rightarrow> bool \<Rightarrow> zmq_socket \<Rightarrow> zmq_call list \<times> int \<times> zmq_socket" where
  "pub_connect dm sock_ok rc pid endpoint check_endpoint s =
     (if \<not> sock_ok then ([Zmq_socket_pub], - 1, s\<lparr>zs_open := False\<rparr>)
      else (let full = ''tcp://*:'' @ endpoint_port dm endpoint check_endpoint
            in ([Zmq_socket_pub, Zmq_bind full], rc,
                s\<lparr>zs_open := True, full_endpoint := full, zs_pid := pid\<rparr>)))"

text \<open>\<open>receive\<close>: \<open>init_rc\<close> and \<open>rc\<close> are the results of \<open>zmq_msg_init\<close> and \<open>zmq_msg_recv\<close>, \<open>d\<close> the
  received data. The result is a copy, or \<open>nullptr\<close>.\<close>

definition sub_receive :: "int \<Rightarrow> int \<Rightarrow> bytes \<Rightarrow> zmq_message option option" where
  "sub_receive init_rc rc d =
     (if init_rc \<noteq> 0 then None
      else Some (if 0 \<le> rc
                 then Some (zmq_message_init d \<lparr>zm_data = None, zm_size = 0, zm_allocs = 0, zm_frees = 0\<rparr>)
                 else None))"

definition sub_setTimeout :: "int \<Rightarrow> zmq_call list" where
  "sub_setTimeout t = [Set_rcvtimeo t]"

text \<open>\<open>send\<close> and \<open>sendMessage\<close> assert that the process has not been forked since \<open>connect\<close>.\<close>

definition pub_send :: "int \<Rightarrow> int \<Rightarrow> bytes \<Rightarrow> zmq_socket \<Rightarrow> (zmq_call list \<times> int) option" where
  "pub_send pid rc d s = (if zs_pid s = pid then Some ([Zmq_send d], rc) else None)"

definition pub_sendMessage :: "int \<Rightarrow> int \<Rightarrow> zmq_message \<Rightarrow> zmq_socket \<Rightarrow> (zmq_call list \<times> int) option" where
  "pub_sendMessage pid rc m s =
     do { d \<leftarrow> zm_data m;
          if zs_pid s = pid then Some ([Zmq_send (take (zm_size m) d)], rc) else None }"

definition pub_all_readers_updated :: "bool option" where
  "pub_all_readers_updated = None"

definition socket_close :: "zmq_socket \<Rightarrow> zmq_call list" where
  "socket_close s = [Zmq_close]"

section \<open>The poller\<close>

definition MAX_POLLERS :: nat where "MAX_POLLERS = 128"

text \<open>\<open>'s\<close> is the type of socket pointers; \<open>polls\<close> holds the raw sockets in the first
  \<open>num_polls\<close> entries.\<close>

record 's zmq_poller =
  sockets :: "'s list"
  polls :: "'s list"
  num_polls :: nat

definition poller_init :: "'s zmq_poller" where
  "poller_init = \<lparr>sockets = [], polls = [], num_polls = 0\<rparr>"

definition registerSocket :: "'s \<Rightarrow> 's zmq_poller \<Rightarrow> 's zmq_poller option" where
  "registerSocket s p =
     (if num_polls p + 1 < MAX_POLLERS
      then Some (p\<lparr>polls := polls p @ [s], sockets := sockets p @ [s], num_polls := num_polls p + 1\<rparr>)
      else None)"

text \<open>\<open>poll\<close>: \<open>rc\<close> and the \<open>revents\<close> are what \<open>zmq_poll\<close> left.\<close>

definition zmq_poller_poll :: "int \<Rightarrow> (nat \<Rightarrow> bool) \<Rightarrow> 's zmq_poller \<Rightarrow> 's list" where
  "zmq_poller_poll rc revents p =
     (if rc < 0 then []
      else map (\<lambda>i. sockets p ! i) (filter revents [0..<num_polls p]))"

section \<open>Facts\<close>

lemma hash_port_nat:
  fixes h :: "'w::len word"
  assumes w: "32 \<le> LENGTH('w)"
  shows "hash_port h = 8023 + int (unat h mod 57512)"
proof -
  define n where "n = unat h mod 57512"
  have n: "n < 57512" by (simp add: n_def)
  have big: "(2 :: nat) ^ 32 \<le> 2 ^ LENGTH('w)" using w by (rule power_increasing) simp
  have m: "unat (65535 - 8023 :: 'w word) = 57512" 
    using big by (simp add: unsigned_numeral take_bit_nat_eq_self)
  have "unat (8023 + h mod (65535 - 8023)) = 8023 + n"
    using n big by (simp add: unat_word_ariths(1) unat_mod_distrib m n_def unsigned_numeral take_bit_nat_eq_self)
  moreover have "ucast v = (word_of_nat (unat v) :: u32)" for v :: "'w word" by simp
  ultimately have "ucast (8023 + h mod (65535 - 8023)) = (word_of_nat (8023 + n) :: u32)" by metis
  moreover have "sint (word_of_nat k :: u32) = int k" if "k < 2 ^ 31" for k
    using that by (simp add: signed_of_nat signed_take_bit_int_eq_self)
  moreover have "8023 + n < 2 ^ 31" using n by simp
  ultimately have "hash_port h = int (8023 + n)" by (simp only: hash_port_def)
  then show ?thesis by (simp add: n_def)
qed

text \<open>The 32-bit hash is the low half of the 64-bit one.\<close>

lemma ucast_hash: "fnv1a_hash e = (ucast (fnv1a_hash e :: u64) :: u32)"
proof -
  have step: "ucast ((h XOR word_of_nat k) * (fnv_prime :: u64)) = (ucast h XOR word_of_nat k) * (fnv_prime :: u32)"
    for h :: u64 and k
  proof -
    have "ucast (a * b) = (ucast a * ucast b :: u32)" for a b :: u64
    proof -
      have "uint (a * b) = take_bit 64 (uint a * uint b)" by (simp add: uint_word_ariths(3) take_bit_eq_mod)
      then have "(word_of_int (uint (a * b)) :: u32) = word_of_int (uint a * uint b)"
        by (simp only: word_of_int_eq_iff take_bit_take_bit) simp
      also have "\<dots> = ucast a * ucast b" by simp
      finally show ?thesis by simp
    qed
    moreover have "ucast (a XOR b) = (ucast a XOR ucast b :: u32)" for a b :: u64
      by (rule bit_word_eqI) (simp add: bit_simps)
    moreover have "ucast (word_of_nat k :: u64) = (word_of_nat k :: u32)" by (rule bit_word_eqI) (simp add: bit_simps)
    moreover have "ucast (fnv_prime :: u64) = (fnv_prime :: u32)" by (simp add: fnv_prime_def)
    ultimately show ?thesis by simp
  qed
  have "ucast (fold (\<lambda>c h. (h XOR word_of_nat (of_char c)) * fnv_prime) e h :: u64) =
      (fold (\<lambda>c h. (h XOR word_of_nat (of_char c)) * fnv_prime) e (ucast h) :: u32)" for h
    by (induction e arbitrary: h) (simp_all add: step)
  then show ?thesis by (simp add: fnv1a_hash_def)
qed

lemma get_port_hash:
  "get_port LP64 e = 8023 + int (unat (fnv1a_hash e :: u64) mod 57512)"
  "get_port ILP32 e = 8023 + int (unat (fnv1a_hash e :: u64) mod 2 ^ 32 mod 57512)"
  by (simp_all add: get_port_def hash_port_nat ucast_hash [of e] unsigned_ucast_eq take_bit_eq_mod)

text \<open>The contracts of the messaging interface.\<close>

interpretation zmsg: message_buffer zmq_message_init zmq_message_close zm_data zm_size zm_allocs zm_frees
  by unfold_locales (simp_all add: zmq_message_init_def zmq_message_close_def)

interpretation zpoll: bounded_poller registerSocket "\<lambda>s. s" sockets num_polls MAX_POLLERS
  by unfold_locales (auto simp: registerSocket_def split: if_splits)

end
