(* ===== verification/ImplMsgq.thy ===== *)
theory ImplMsgq
  imports Msgq Interfaces
begin

text \<open>
  The shared-memory transport behind the messaging interface, from \<open>bridge/msgq/impl_msgq.h\<close> and
  \<open>bridge/msgq/impl_msgq.cc\<close>: the message, the subscriber and publisher sockets and the poller, over the operations
  of theory Msgq.

  The results of the calls that open the queue are a record; a handle that \<open>new\<close> has just made has
  indeterminate contents, which are an argument. A failed assertion, a null dereference and a loop that is still
  waiting are \<open>None\<close>.
\<close>

section \<open>The message\<close>

text \<open>As for the other transport, \<open>None\<close> is a dangling pointer or one that was never set.\<close>

record mq_message =
  mm_data :: "bytes option"
  mm_size :: nat
  mm_allocs :: nat
  mm_frees :: nat

definition mq_message_init_size :: "nat \<Rightarrow> bytes \<Rightarrow> mq_message \<Rightarrow> mq_message" where
  "mq_message_init_size sz junk m =
     m\<lparr>mm_size := sz, mm_data := Some (take sz (junk @ replicate sz 0)), mm_allocs := mm_allocs m + 1\<rparr>"

definition mq_message_init :: "bytes \<Rightarrow> mq_message \<Rightarrow> mq_message" where
  "mq_message_init d m = m\<lparr>mm_size := length d, mm_data := Some d, mm_allocs := mm_allocs m + 1\<rparr>"

text \<open>The buffer was allocated by the caller.\<close>

definition takeOwnership :: "bytes option \<Rightarrow> nat \<Rightarrow> mq_message \<Rightarrow> mq_message" where
  "takeOwnership d sz m = m\<lparr>mm_size := sz, mm_data := d, mm_allocs := mm_allocs m + 1\<rparr>"

definition mq_message_close :: "mq_message \<Rightarrow> mq_message" where
  "mq_message_close m =
     (if 0 < mm_size m then m\<lparr>mm_data := None, mm_frees := mm_frees m + 1, mm_size := 0\<rparr>
      else m\<lparr>mm_size := 0\<rparr>)"

definition mq_message_new :: mq_message where
  "mq_message_new = \<lparr>mm_data = None, mm_size = 0, mm_allocs = 0, mm_frees = 0\<rparr>"

section \<open>Sockets\<close>

text \<open>\<open>ss_q\<close> is \<open>None\<close> for the null pointer, \<open>ss_timeout\<close> while the member is not initialised.\<close>

record mq_sub_socket =
  ss_q :: "msgq_queue option"
  ss_timeout :: "int option"

definition mq_sub_socket_new :: mq_sub_socket where
  "mq_sub_socket_new = \<lparr>ss_q = None, ss_timeout = None\<rparr>"

record queue_results =
  qr_prefix :: "string option"
  qr_fd :: int
  qr_truncate :: int
  qr_mapped :: bool
  qr_uid :: u64
  qr_new :: msgq_queue

definition segment_size_of :: "u64 \<Rightarrow> u64" where
  "segment_size_of segment_size = (if 0 < segment_size then segment_size else DEFAULT_SEGMENT_SIZE)"

definition mq_open :: "queue_results \<Rightarrow> string \<Rightarrow> u64 \<Rightarrow> (int \<times> msgq_queue) option" where
  "mq_open R endpoint segment_size =
     map_option (\<lambda>(r, path, q). (r, q))
       (msgq_new_queue (qr_prefix R) (qr_fd R) (qr_truncate R) (qr_mapped R) endpoint (segment_size_of segment_size) (qr_new R))"

definition mq_sub_connect :: "queue_results \<Rightarrow> bool \<Rightarrow> string \<Rightarrow> string \<Rightarrow> bool \<Rightarrow> u64 \<Rightarrow> mq_sub_socket \<Rightarrow> msgq_seg
    \<Rightarrow> (int \<times> mq_sub_socket \<times> msgq_seg) option" where
  "mq_sub_connect R context endpoint address conflate segment_size s seg =
     (if \<not> context then None
      else if address \<noteq> ''127.0.0.1'' then None
      else do { (r, q) \<leftarrow> mq_open R endpoint segment_size;
                if r \<noteq> 0 then Some (r, s\<lparr>ss_q := Some q\<rparr>, seg)
                else (let (q, seg) = msgq_init_subscriber (qr_uid R) q seg;
                          q = (if conflate then q\<lparr>read_conflate := True\<rparr> else q)
                      in Some (0, s\<lparr>ss_q := Some q, ss_timeout := Some (- 1)\<rparr>, seg)) })"

definition mq_sub_setTimeout :: "int \<Rightarrow> mq_sub_socket \<Rightarrow> mq_sub_socket" where
  "mq_sub_setTimeout t s = s\<lparr>ss_timeout := Some t\<rparr>"

text \<open>
  \<open>receive\<close>. One element of \<open>rounds\<close> is what happens during one \<open>msgq_poll\<close>: its list of turns. \<open>uid\<close> and \<open>alloc\<close> are as for
  \<open>msgq_msg_recv\<close>. The result is the last return code with the message, the handle and the segment.
\<close>

fun recv_code :: "recv_result \<times> msgq_queue \<times> msgq_seg \<Rightarrow> (int \<times> bytes option \<times> msgq_queue \<times> msgq_seg) option" where
  "recv_code (Aborted, q, s) = None"
| "recv_code (Received rc d, q, s) = Some (rc, d, q, s)"

fun mq_receive_loop :: "u64 \<Rightarrow> bool \<Rightarrow> int \<Rightarrow> (int \<times> msgq_seg list) list list \<Rightarrow> int \<times> bytes option \<times> msgq_queue \<times> msgq_seg
    \<Rightarrow> (int \<times> bytes option \<times> msgq_queue \<times> msgq_seg) option" where
  "mq_receive_loop uid alloc timeout [] (rc, d, q, s) = (if rc = 0 then None else Some (rc, d, q, s))"
| "mq_receive_loop uid alloc timeout (turns # rounds) (rc, d, q, s) =
     (if rc \<noteq> 0 then Some (rc, d, q, s)
      else do { let t = (if timeout \<noteq> - 1 then timeout else 100);
                (n, items) \<leftarrow> msgq_poll uid t turns [\<lparr>pi_q = q, pi_seg = s, revents = 0\<rparr>];
                r \<leftarrow> msgq_msg_recv uid alloc (pi_q (hd items)) (pi_seg (hd items));
                (rc, d, q, s) \<leftarrow> recv_code r;
                if n = 1 \<and> rc = 0 then mq_receive_loop uid alloc timeout rounds (rc, d, q, s)
                else if timeout \<noteq> - 1 then Some (rc, d, q, s)
                else mq_receive_loop uid alloc timeout rounds (rc, d, q, s) })"

definition mq_sub_receive :: "u64 \<Rightarrow> bool \<Rightarrow> bool \<Rightarrow> (int \<times> msgq_seg list) list list \<Rightarrow> mq_sub_socket \<Rightarrow> msgq_seg
    \<Rightarrow> (mq_message option \<times> mq_sub_socket \<times> msgq_seg) option" where
  "mq_sub_receive uid alloc non_blocking rounds s seg =
     do { q \<leftarrow> ss_q s;
          r \<leftarrow> msgq_msg_recv uid alloc q seg;
          r \<leftarrow> recv_code r;
          (rc, d, q, seg) \<leftarrow>
            (if non_blocking then Some r
             else do { timeout \<leftarrow> ss_timeout s; mq_receive_loop uid alloc timeout rounds r });
          Some (if 0 < rc then Some (takeOwnership d (nat rc) mq_message_new) else None, s\<lparr>ss_q := Some q\<rparr>, seg) }"

text \<open>The destructors: what is unmapped. A handle that was never mapped passes its indeterminate \<open>mmap_p\<close>.\<close>

definition mq_socket_delete :: "msgq_queue option \<Rightarrow> u64 option" where
  "mq_socket_delete q = (case q of None \<Rightarrow> None | Some q \<Rightarrow> msgq_close_queue q)"

record mq_pub_socket =
  ps_q :: "msgq_queue option"

definition mq_pub_connect :: "queue_results \<Rightarrow> bool \<Rightarrow> string \<Rightarrow> u64 \<Rightarrow> mq_pub_socket \<Rightarrow> msgq_seg
    \<Rightarrow> (int \<times> mq_pub_socket \<times> msgq_seg) option" where
  "mq_pub_connect R context endpoint segment_size s seg =
     (if \<not> context then None
      else do { (r, q) \<leftarrow> mq_open R endpoint segment_size;
                if r \<noteq> 0 then Some (r, s\<lparr>ps_q := Some q\<rparr>, seg)
                else (case msgq_init_publisher (qr_uid R) q seg of (q, seg) \<Rightarrow> Some (0, s\<lparr>ps_q := Some q\<rparr>, seg)) })"

definition mq_pub_send :: "bytes \<Rightarrow> mq_pub_socket \<Rightarrow> msgq_seg \<Rightarrow> (int \<times> msgq_seg) option" where
  "mq_pub_send d s seg = do { q \<leftarrow> ps_q s; msgq_msg_send d q seg }"

definition mq_pub_sendMessage :: "mq_message \<Rightarrow> mq_pub_socket \<Rightarrow> msgq_seg \<Rightarrow> (int \<times> msgq_seg) option" where
  "mq_pub_sendMessage m s seg = do { q \<leftarrow> ps_q s; d \<leftarrow> mm_data m; msgq_msg_send (take (mm_size m) d) q seg }"

definition mq_pub_socket_delete :: "mq_pub_socket \<Rightarrow> u64 option" where
  "mq_pub_socket_delete s = (case ps_q s of None \<Rightarrow> None | Some q \<Rightarrow> msgq_close_queue q)"

definition mq_all_readers_updated :: "mq_pub_socket \<Rightarrow> msgq_seg \<Rightarrow> bool option" where
  "mq_all_readers_updated s seg = (case ps_q s of None \<Rightarrow> None | Some q \<Rightarrow> Some (msgq_all_readers_updated seg))"

section \<open>The poller\<close>

definition MQ_MAX_POLLERS :: nat where "MQ_MAX_POLLERS = 128"

text \<open>A registered socket with its handle and segment; \<open>mp_polls\<close> holds the items in use.\<close>

record 's mq_poller =
  mp_sockets :: "'s list"
  mp_polls :: "pollitem list"
  mp_num_polls :: nat

definition mq_poller_init :: "'s mq_poller" where
  "mq_poller_init = \<lparr>mp_sockets = [], mp_polls = [], mp_num_polls = 0\<rparr>"

definition mq_registerSocket :: "'s \<times> msgq_queue \<times> msgq_seg \<Rightarrow> 's mq_poller \<Rightarrow> 's mq_poller option" where
  "mq_registerSocket = (\<lambda>(s, q, seg) p.
     if mp_num_polls p + 1 < MQ_MAX_POLLERS
     then Some (p\<lparr>mp_polls := mp_polls p @ [\<lparr>pi_q = q, pi_seg = seg, revents = 0\<rparr>],
                  mp_sockets := mp_sockets p @ [s], mp_num_polls := mp_num_polls p + 1\<rparr>)
     else None)"

definition mq_poller_poll :: "u64 \<Rightarrow> int \<Rightarrow> (int \<times> msgq_seg list) list \<Rightarrow> 's mq_poller \<Rightarrow> ('s list \<times> 's mq_poller) option" where
  "mq_poller_poll uid timeout turns p =
     do { (n, items) \<leftarrow> msgq_poll uid timeout turns (mp_polls p);
          Some (map (\<lambda>i. mp_sockets p ! i) (filter (\<lambda>i. revents (items ! i) \<noteq> 0) [0..<mp_num_polls p]),
                p\<lparr>mp_polls := items\<rparr>) }"

section \<open>The contracts of the messaging interface\<close>

interpretation mqmsg: message_buffer mq_message_init mq_message_close mm_data mm_size mm_allocs mm_frees
  by unfold_locales (simp_all add: mq_message_init_def mq_message_close_def)

interpretation mqpoll: bounded_poller mq_registerSocket fst mp_sockets mp_num_polls MQ_MAX_POLLERS
  by unfold_locales (auto simp: mq_registerSocket_def split: if_splits)

end
