(* ===== verification/EventFd.thy ===== *)
theory EventFd
  imports CStrings
begin

text \<open>
  The events that make a test driver and a faked socket take turns, from \<open>bridge/msgq/event.h\<close> and
  \<open>bridge/msgq/event.cc\<close>: \<open>event_state_shm_mmap\<close>, \<open>SocketEventHandle\<close> and \<open>Event\<close>.

  The event descriptors belong to the operating system: its calls are the record \<open>fd_ops\<close>, a parameter of the
  definitions, over a type \<open>'w\<close> of system states. What the code relies on is \<open>eventfd_laws\<close>. The results of the calls
  that open and map the shared file are arguments. Mapped memory is a map from addresses to contents, and
  the environment a function from names to values. A result is an option of a sum and a state: \<open>None\<close> is a
  failed assertion, an access to memory that is not mapped or a wait that never ends, the left of the sum a thrown exception.
\<close>

section \<open>Descriptors\<close>

text \<open>
  \<open>fd_ppoll\<close> gets the descriptors and the timeout in seconds, if there is one; it yields what \<open>ppoll\<close> returns and whether
  \<open>POLLIN\<close> is set for each descriptor, or \<open>None\<close> when the call never returns.
\<close>

record 'w fd_ops =
  fd_write :: "int \<Rightarrow> u64 \<Rightarrow> 'w \<Rightarrow> int \<times> 'w"
  fd_read :: "int \<Rightarrow> 'w \<Rightarrow> u64 option \<times> 'w"
  fd_ppoll :: "int list \<Rightarrow> int option \<Rightarrow> 'w \<Rightarrow> ((int \<times> bool list) \<times> 'w) option"
  sys_errno :: "'w \<Rightarrow> int"
  sys_getpid :: "'w \<Rightarrow> int"

type_synonym ('a, 'w) sys = "('a result \<times> 'w) option"

fun bindS :: "('a, 'w) sys \<Rightarrow> ('a \<Rightarrow> 'w \<Rightarrow> ('b, 'w) sys) \<Rightarrow> ('b, 'w) sys" where
  "bindS None f = None"
| "bindS (Some (Inl e, w)) f = Some (Inl e, w)"
| "bindS (Some (Inr x, w)) f = f x w"

lemma bindS_Inr: "bindS r f = Some (Inr y, w') \<longleftrightarrow> (\<exists>x w. r = Some (Inr x, w) \<and> f x w = Some (Inr y, w'))"
  by (induction r f rule: bindS.induct) auto

lemma bindS_assoc: "bindS (bindS r f) g = bindS r (\<lambda>x w. bindS (f x w) g)"
  by (induction r f rule: bindS.induct) simp_all

record fd_event =
  event_fd :: int

definition event_new :: "int \<Rightarrow> fd_event" where
  "event_new fd = \<lparr>event_fd = fd\<rparr>"

definition is_valid :: "fd_event \<Rightarrow> bool" where
  "is_valid e \<longleftrightarrow> event_fd e \<noteq> - 1"

definition ev_fd :: "fd_event \<Rightarrow> int" where
  "ev_fd e = event_fd e"

definition throw_if_invalid :: "fd_event \<Rightarrow> 'w \<Rightarrow> (unit, 'w) sys" where
  "throw_if_invalid e w =
     Some (if \<not> is_valid e then Inl (Runtime_error ''Event does not have valid file descriptor.'') else Inr (), w)"

definition ev_set :: "'w fd_ops \<Rightarrow> fd_event \<Rightarrow> 'w \<Rightarrow> (unit, 'w) sys" where
  "ev_set K e w =
     bindS (throw_if_invalid e w) (\<lambda>_ w.
       case fd_write K (event_fd e) 1 w of (count, w) \<Rightarrow> if count = 8 then Some (Inr (), w) else None)"

text \<open>The value read is narrowed to \<open>int\<close>; when nothing is read it is 0.\<close>

definition ev_clear :: "'w fd_ops \<Rightarrow> fd_event \<Rightarrow> 'w \<Rightarrow> (int, 'w) sys" where
  "ev_clear K e w =
     bindS (throw_if_invalid e w) (\<lambda>_ w.
       case fd_read K (event_fd e) w of (r, w) \<Rightarrow>
         Some (Inr (sint (ucast (case r of None \<Rightarrow> 0 | Some v \<Rightarrow> v) :: u32)), w))"

definition timed_out :: "'w fd_ops \<Rightarrow> 'w \<Rightarrow> exn" where
  "timed_out K w = Runtime_error (''Event timed out pid: '' @ int_str (sys_getpid K w))"

definition poll_failed :: "'w fd_ops \<Rightarrow> 'w \<Rightarrow> exn" where
  "poll_failed K w =
     Runtime_error (''Event poll failed, errno: '' @ int_str (sys_errno K w) @ '' pid: '' @ int_str (sys_getpid K w))"

definition ev_timeout :: "int \<Rightarrow> int option" where
  "ev_timeout timeout_sec = (if timeout_sec < 0 then None else Some timeout_sec)"

definition ev_wait :: "'w fd_ops \<Rightarrow> int \<Rightarrow> fd_event \<Rightarrow> 'w \<Rightarrow> (unit, 'w) sys" where
  "ev_wait K timeout_sec e w =
     bindS (throw_if_invalid e w) (\<lambda>_ w.
       do { ((event_count, _), w) \<leftarrow> fd_ppoll K [event_fd e] (ev_timeout timeout_sec) w;
            Some (if event_count = 0 then Inl (timed_out K w)
                  else if event_count < 0 then Inl (poll_failed K w) else Inr (), w) })"

definition ev_peek :: "'w fd_ops \<Rightarrow> fd_event \<Rightarrow> 'w \<Rightarrow> (bool, 'w) sys" where
  "ev_peek K e w =
     bindS (throw_if_invalid e w) (\<lambda>_ w.
       do { ((event_count, _), w) \<leftarrow> fd_ppoll K [event_fd e] (Some 0) w; Some (Inr (event_count \<noteq> 0), w) })"

definition wait_for_one :: "'w fd_ops \<Rightarrow> int \<Rightarrow> fd_event list \<Rightarrow> 'w \<Rightarrow> (nat, 'w) sys" where
  "wait_for_one K timeout_sec events w =
     do { ((event_count, revents), w) \<leftarrow> fd_ppoll K (map ev_fd events) (ev_timeout timeout_sec) w;
          Some (if event_count = 0 then Inl (timed_out K w)
                else if event_count < 0 then Inl (poll_failed K w)
                else (case find_index (\<lambda>i. revents ! i) [0..<length events] of
                        Some i \<Rightarrow> Inr i
                      | None \<Rightarrow> Inl (Runtime_error ''Event poll failed, no events ready'')), w) }"

section \<open>The shared state\<close>

text \<open>The indices of the two events.\<close>

datatype event_purpose = RECV_CALLED | RECV_READY

record event_state =
  fd_called :: int
  fd_ready :: int
  enabled :: bool

definition fd_at :: "event_purpose \<Rightarrow> event_state \<Rightarrow> int" where
  "fd_at p st = (case p of RECV_CALLED \<Rightarrow> fd_called st | RECV_READY \<Rightarrow> fd_ready st)"

type_synonym env = "string \<Rightarrow> string option"
type_synonym mapped = "int \<Rightarrow> event_state option"

definition CEREAL_EVENTS_PREFIX :: string where
  "CEREAL_EVENTS_PREFIX = ''cereal_events''"

definition event_dir :: "env \<Rightarrow> string \<Rightarrow> string" where
  "event_dir env identifier =
     ''/dev/shm/msgq_'' @ (case env ''OPENPILOT_PREFIX'' of None \<Rightarrow> [] | Some p \<Rightarrow> p @ ''/'')
       @ CEREAL_EVENTS_PREFIX @ ''/'' @ (if 0 < length identifier then identifier @ ''/'' else [])"

text \<open>
  What the calls return: the text of an exception of \<open>create_directories\<close>, the results of \<open>open\<close> and
  \<open>ftruncate\<close>, and the address from \<open>mmap\<close>, which is - 1 when it fails.
\<close>

record shm_results =
  shm_mkdir :: "string option"
  shm_fd :: int
  shm_truncate :: int
  shm_mem :: int

text \<open>The result is the address and the path. The comparison with \<open>nullptr\<close> is the code's.\<close>

definition event_state_shm_mmap :: "env \<Rightarrow> shm_results \<Rightarrow> string \<Rightarrow> string \<Rightarrow> (int \<times> string) result" where
  "event_state_shm_mmap env R endpoint identifier =
     (case shm_mkdir R of
        Some e \<Rightarrow> Inl (Runtime_error e)
      | None \<Rightarrow>
          if shm_fd R < 0 then Inl (Runtime_error ''Could not open shared memory file.'')
          else if shm_truncate R < 0 then Inl (Runtime_error ''Could not truncate shared memory file.'')
          else if shm_mem R = 0 then Inl (Runtime_error ''Could not map shared memory file.'')
          else Inr (shm_mem R, event_dir env identifier @ endpoint))"

record socket_event_handle =
  shm_path :: string
  handle_state :: int

text \<open>The constructor; \<open>e0\<close> and \<open>e1\<close> are the new event descriptors.\<close>

definition event_handle_new :: "env \<Rightarrow> shm_results \<Rightarrow> int \<Rightarrow> int \<Rightarrow> string \<Rightarrow> string \<Rightarrow> bool \<Rightarrow> mapped
    \<Rightarrow> (socket_event_handle, mapped) sys" where
  "event_handle_new env R e0 e1 endpoint identifier override h =
     (case event_state_shm_mmap env R endpoint identifier of
        Inl e \<Rightarrow> Some (Inl e, h)
      | Inr (mem, path) \<Rightarrow>
          (if override then
             (case h mem of
                None \<Rightarrow> None
              | Some st \<Rightarrow> Some (Inr \<lparr>shm_path = path, handle_state = mem\<rparr>,
                              h(mem \<mapsto> st\<lparr>fd_called := e0, fd_ready := e1\<rparr>)))
           else Some (Inr \<lparr>shm_path = path, handle_state = mem\<rparr>, h)))"

text \<open>The destructor: the descriptors it closes, the path it unlinks and the memory afterwards.\<close>

definition event_handle_delete :: "socket_event_handle \<Rightarrow> mapped \<Rightarrow> (int list \<times> string \<times> mapped) option" where
  "event_handle_delete s h =
     do { st \<leftarrow> h (handle_state s);
          Some ([fd_called st, fd_ready st], shm_path s, h(handle_state s := None)) }"

definition is_enabled :: "socket_event_handle \<Rightarrow> mapped \<Rightarrow> bool option" where
  "is_enabled s h = map_option enabled (h (handle_state s))"

definition set_enabled :: "bool \<Rightarrow> socket_event_handle \<Rightarrow> mapped \<Rightarrow> mapped option" where
  "set_enabled b s h = map_option (\<lambda>st. h(handle_state s \<mapsto> st\<lparr>enabled := b\<rparr>)) (h (handle_state s))"

definition recv_called :: "socket_event_handle \<Rightarrow> mapped \<Rightarrow> fd_event option" where
  "recv_called s h = map_option (\<lambda>st. event_new (fd_called st)) (h (handle_state s))"

definition recv_ready :: "socket_event_handle \<Rightarrow> mapped \<Rightarrow> fd_event option" where
  "recv_ready s h = map_option (\<lambda>st. event_new (fd_ready st)) (h (handle_state s))"

definition toggle_fake_events :: "bool \<Rightarrow> env \<Rightarrow> env" where
  "toggle_fake_events b env = (if b then env(''CEREAL_FAKE'' \<mapsto> ''1'') else env(''CEREAL_FAKE'' := None))"

definition set_fake_prefix :: "string \<Rightarrow> env \<Rightarrow> env" where
  "set_fake_prefix p env =
     (if length p = 0 then env(''CEREAL_FAKE_PREFIX'' := None) else env(''CEREAL_FAKE_PREFIX'' \<mapsto> p))"

definition fake_prefix :: "env \<Rightarrow> string" where
  "fake_prefix env = (case env ''CEREAL_FAKE_PREFIX'' of None \<Rightarrow> [] | Some p \<Rightarrow> p)"

section \<open>The stubs for Darwin\<close>

text \<open>
  There the constructor of the handle fails its assertion, the setters do nothing, and the events are
  never valid, ready or cleared.
\<close>

definition apple_event_handle_new :: "mapped \<Rightarrow> (socket_event_handle, mapped) sys" where
  "apple_event_handle_new h = None"

definition apple_set_enabled :: "bool \<Rightarrow> socket_event_handle \<Rightarrow> mapped \<Rightarrow> mapped option" where
  "apple_set_enabled b s h = Some h"

definition apple_event :: fd_event where
  "apple_event = event_new (- 1)"

definition apple_toggle_fake_events :: "bool \<Rightarrow> env \<Rightarrow> env" where
  "apple_toggle_fake_events b env = env"

definition apple_set_fake_prefix :: "string \<Rightarrow> env \<Rightarrow> env" where
  "apple_set_fake_prefix p env = env"

definition apple_fake_prefix :: "env \<Rightarrow> string" where
  "apple_fake_prefix env = []"

definition apple_ev_set :: "fd_event \<Rightarrow> 'w \<Rightarrow> (unit, 'w) sys" where
  "apple_ev_set e w = Some (Inr (), w)"

definition apple_ev_clear :: "fd_event \<Rightarrow> 'w \<Rightarrow> (int, 'w) sys" where
  "apple_ev_clear e w = Some (Inr 0, w)"

definition apple_ev_wait :: "int \<Rightarrow> fd_event \<Rightarrow> 'w \<Rightarrow> (unit, 'w) sys" where
  "apple_ev_wait timeout_sec e w = Some (Inr (), w)"

definition apple_ev_peek :: "fd_event \<Rightarrow> 'w \<Rightarrow> (bool, 'w) sys" where
  "apple_ev_peek e w = Some (Inr False, w)"

definition apple_is_valid :: "fd_event \<Rightarrow> bool" where
  "apple_is_valid e = False"

definition apple_wait_for_one :: "int \<Rightarrow> fd_event list \<Rightarrow> 'w \<Rightarrow> (int, 'w) sys" where
  "apple_wait_for_one timeout_sec events w = Some (Inr (- 1), w)"

section \<open>What the code relies on\<close>

text \<open>
  The documented behaviour of descriptors from \<open>eventfd(0, EFD_NONBLOCK)\<close>: \<open>live fd w\<close> says that \<open>fd\<close> is open, and \<open>count fd w\<close>
  is its counter. Writing 1 adds it while the counter does not overflow, and fails otherwise; reading takes the counter, or nothing
  when it is 0.

  \<open>ppoll\<close> may fail at any time, as when a signal arrives, and while it waits the other threads and processes run: \<open>env w w'\<close> says
  that they may take the system from \<open>w\<close> to \<open>w'\<close>. It does not wait when one of its descriptors is readable. When it
  succeeds, it reports the descriptors that are readable as it returns; none of them only after a timeout. It never returns only if it
  has no timeout and none was readable. What the others do between two calls is counted as happening during the next wait.
\<close>

definition eventfd_laws :: "'w fd_ops \<Rightarrow> (int \<Rightarrow> 'w \<Rightarrow> nat) \<Rightarrow> (int \<Rightarrow> 'w \<Rightarrow> bool) \<Rightarrow> ('w \<Rightarrow> 'w \<Rightarrow> bool) \<Rightarrow> bool" where
  "eventfd_laws K count live env \<longleftrightarrow>
     (\<forall>fd w. live fd w \<longrightarrow> 0 \<le> fd)
     \<and> (\<forall>fd w. live fd w \<longrightarrow> (let fits = count fd w + 1 < 2 ^ 64 - 1 in
          \<exists>w'. fd_write K fd 1 w = (if fits then 8 else - 1, w')
            \<and> (\<forall>f. count f w' = (if f = fd \<and> fits then count fd w + 1 else count f w) \<and> live f w' = live f w)))
     \<and> (\<forall>fd w. live fd w \<longrightarrow>
          (\<exists>w'. fd_read K fd w = (if count fd w = 0 then None else Some (word_of_nat (count fd w)), w')
            \<and> (\<forall>f. count f w' = (if f = fd then 0 else count f w) \<and> live f w' = live f w)))
     \<and> (\<forall>fds t w. (\<forall>fd \<in> set fds. live fd w) \<longrightarrow>
          (case fd_ppoll K fds t w of
             None \<Rightarrow> t = None \<and> (\<forall>fd \<in> set fds. count fd w = 0)
           | Some ((n, revents), w') \<Rightarrow> env w w'
               \<and> ((\<exists>fd \<in> set fds. 0 < count fd w) \<longrightarrow> (\<forall>f. count f w' = count f w))
               \<and> (n = - 1 \<or> revents = map (\<lambda>fd. 0 < count fd w') fds
                    \<and> n = int (length (filter (\<lambda>fd. 0 < count fd w') fds)) \<and> (n = 0 \<longrightarrow> t \<noteq> None))))"

end
