(* ===== verification/Ipc.thy ===== *)
theory Ipc
  imports Zmq ImplMsgq EventFd
begin

text \<open>
  The messaging interface, from \<open>bridge/msgq/ipc.h\<close>, \<open>bridge/msgq/ipc.cc\<close>, \<open>bridge/msgq/impl_fake.h\<close> and
  \<open>bridge/msgq/impl_fake.cc\<close>: the factories that choose a transport, and the faked sockets that take turns with a test
  driver. A socket is a datatype with a constructor per class, and a virtual call is a function by cases on it.

  The results of system and library calls, and the data model of the platform, are the record \<open>conn_results\<close>; what the calls act on is the record
  \<open>ipc_world\<close>.
\<close>

section \<open>The transports\<close>

definition messaging_use_zmq :: bool where "messaging_use_zmq = True"

definition messaging_use_fake :: "env \<Rightarrow> bool" where
  "messaging_use_fake env \<longleftrightarrow> env ''CEREAL_FAKE'' \<noteq> None"

datatype context_kind = ZMQContext | MSGQContext

definition context_create :: context_kind where
  "context_create = (if messaging_use_zmq then ZMQContext else MSGQContext)"

text \<open>The members of \<open>FakeSubSocket\<close>; \<open>None\<close> is the null pointer.\<close>

record fake_members =
  fk_recv_called :: "fd_event option"
  fk_recv_ready :: "fd_event option"
  fk_state :: "int option"

definition fake_members_new :: fake_members where
  "fake_members_new = \<lparr>fk_recv_called = None, fk_recv_ready = None, fk_state = None\<rparr>"

datatype sub_socket = Zmq_sub zmq_socket | Msgq_sub mq_sub_socket | Fake_sub fake_members sub_socket
datatype pub_socket = Zmq_pub zmq_socket | Msgq_pub mq_pub_socket

record conn_results =
  cr_model :: data_model
  cr_sock_ok :: bool
  cr_rc :: int
  cr_pid :: int
  cr_queue :: queue_results
  cr_shm :: shm_results

record ipc_world =
  iw_calls :: "zmq_call list"
  iw_seg :: msgq_seg
  iw_mapped :: mapped
  iw_unmapped :: "u64 list"
  iw_cerr :: "string list"

text \<open>A received message, with the virtual calls of \<open>Message\<close>; deleting it closes it.\<close>

datatype message = Zmq_msg zmq_message | Mq_msg mq_message

fun message_getData :: "message \<Rightarrow> bytes option" where
  "message_getData (Zmq_msg m) = zm_data m"
| "message_getData (Mq_msg m) = mm_data m"

fun message_getSize :: "message \<Rightarrow> nat" where
  "message_getSize (Zmq_msg m) = zm_size m"
| "message_getSize (Mq_msg m) = mm_size m"

fun message_delete :: "message \<Rightarrow> message" where
  "message_delete (Zmq_msg m) = Zmq_msg (zmq_message_close m)"
| "message_delete (Mq_msg m) = Mq_msg (mq_message_close m)"

section \<open>Connecting and deleting\<close>

definition zmq_socket_new :: zmq_socket where
  "zmq_socket_new = \<lparr>zs_open = False, full_endpoint = [], zs_pid = - 1\<rparr>"

text \<open>\<open>FakeSubSocket::connect\<close> up to the call of the base class.\<close>

definition fake_connect :: "env \<Rightarrow> conn_results \<Rightarrow> string \<Rightarrow> fake_members \<Rightarrow> ipc_world \<Rightarrow> fake_members result option" where
  "fake_connect env R endpoint f w =
     (case event_state_shm_mmap env (cr_shm R) endpoint (fake_prefix env) of
        Inl e \<Rightarrow> Some (Inl e)
      | Inr (mem, path) \<Rightarrow>
          do { st \<leftarrow> iw_mapped w mem;
               Some (Inr \<lparr>fk_recv_called = Some (event_new (fd_at RECV_CALLED st)),
                          fk_recv_ready = Some (event_new (fd_at RECV_READY st)), fk_state = Some mem\<rparr>) })"

fun sub_socket_connect :: "env \<Rightarrow> conn_results \<Rightarrow> bool \<Rightarrow> string \<Rightarrow> string \<Rightarrow> bool \<Rightarrow> bool \<Rightarrow> u64 \<Rightarrow> sub_socket \<Rightarrow> ipc_world
    \<Rightarrow> (int \<times> sub_socket, ipc_world) sys" where
  "sub_socket_connect env R ctx endpoint address conflate check_endpoint segment_size (Zmq_sub s) w =
     (case sub_connect (cr_model R) (cr_sock_ok R) (cr_rc R) endpoint address conflate check_endpoint s of
        (calls, rc, s) \<Rightarrow> Some (Inr (rc, Zmq_sub s), w\<lparr>iw_calls := iw_calls w @ calls\<rparr>))"
| "sub_socket_connect env R ctx endpoint address conflate check_endpoint segment_size (Msgq_sub s) w =
     do { (rc, s, seg) \<leftarrow> mq_sub_connect (cr_queue R) ctx endpoint address conflate segment_size s (iw_seg w);
          Some (Inr (rc, Msgq_sub s), w\<lparr>iw_seg := seg\<rparr>) }"
| "sub_socket_connect env R ctx endpoint address conflate check_endpoint segment_size (Fake_sub f s) w =
     do { r \<leftarrow> fake_connect env R endpoint f w;
          bindS (Some (r, w)) (\<lambda>f w.
            bindS (sub_socket_connect env R ctx endpoint address conflate check_endpoint segment_size s w)
              (\<lambda>(rc, s) w. Some (Inr (rc, Fake_sub f s), w))) }"

fun sub_socket_delete :: "sub_socket \<Rightarrow> ipc_world \<Rightarrow> ipc_world" where
  "sub_socket_delete (Zmq_sub s) w = w\<lparr>iw_calls := iw_calls w @ socket_close s\<rparr>"
| "sub_socket_delete (Msgq_sub s) w =
     w\<lparr>iw_unmapped := iw_unmapped w @ (case mq_socket_delete (ss_q s) of None \<Rightarrow> [] | Some n \<Rightarrow> [n])\<rparr>"
| "sub_socket_delete (Fake_sub f s) w =
     sub_socket_delete s (case fk_state f of None \<Rightarrow> w | Some a \<Rightarrow> w\<lparr>iw_mapped := (iw_mapped w)(a := None)\<rparr>)"

definition pub_socket_connect :: "conn_results \<Rightarrow> bool \<Rightarrow> string \<Rightarrow> bool \<Rightarrow> u64 \<Rightarrow> pub_socket \<Rightarrow> ipc_world
    \<Rightarrow> (int \<times> pub_socket \<times> ipc_world) option" where
  "pub_socket_connect R ctx endpoint check_endpoint segment_size p w =
     (case p of
        Zmq_pub s \<Rightarrow>
          (case pub_connect (cr_model R) (cr_sock_ok R) (cr_rc R) (cr_pid R) endpoint check_endpoint s of
             (calls, rc, s) \<Rightarrow> Some (rc, Zmq_pub s, w\<lparr>iw_calls := iw_calls w @ calls\<rparr>))
      | Msgq_pub s \<Rightarrow>
          do { (rc, s, seg) \<leftarrow> mq_pub_connect (cr_queue R) ctx endpoint segment_size s (iw_seg w);
               Some (rc, Msgq_pub s, w\<lparr>iw_seg := seg\<rparr>) })"

definition pub_socket_delete :: "pub_socket \<Rightarrow> ipc_world \<Rightarrow> ipc_world" where
  "pub_socket_delete p w =
     (case p of
        Zmq_pub s \<Rightarrow> w\<lparr>iw_calls := iw_calls w @ socket_close s\<rparr>
      | Msgq_pub s \<Rightarrow> w\<lparr>iw_unmapped := iw_unmapped w @ (case mq_pub_socket_delete s of None \<Rightarrow> [] | Some n \<Rightarrow> [n])\<rparr>)"

section \<open>The factories\<close>

definition sub_socket_new :: "env \<Rightarrow> sub_socket" where
  "sub_socket_new env =
     (if messaging_use_fake env
      then Fake_sub fake_members_new (if messaging_use_zmq then Zmq_sub zmq_socket_new else Msgq_sub mq_sub_socket_new)
      else if messaging_use_zmq then Zmq_sub zmq_socket_new else Msgq_sub mq_sub_socket_new)"

text \<open>\<open>strerror\<close> is the text of the last error. An exception of \<open>connect\<close> passes through.\<close>

definition sub_socket_create :: "env \<Rightarrow> conn_results \<Rightarrow> string \<Rightarrow> bool \<Rightarrow> string \<Rightarrow> string \<Rightarrow> bool \<Rightarrow> bool \<Rightarrow> u64
    \<Rightarrow> ipc_world \<Rightarrow> (sub_socket option, ipc_world) sys" where
  "sub_socket_create env R strerror ctx endpoint address conflate check_endpoint segment_size w =
     bindS (sub_socket_connect env R ctx endpoint address conflate check_endpoint segment_size (sub_socket_new env) w)
       (\<lambda>(r, s) w.
          if r = 0 then Some (Inr (Some s), w)
          else Some (Inr None, sub_socket_delete s
                 (w\<lparr>iw_cerr := iw_cerr w @ [''Error, failed to connect SubSocket to '' @ endpoint @ '': '' @ strerror]\<rparr>)))"

definition pub_socket_new :: pub_socket where
  "pub_socket_new =
     (if messaging_use_zmq then Zmq_pub zmq_socket_new else Msgq_pub \<lparr>ps_q = None\<rparr>)"

definition pub_socket_create :: "conn_results \<Rightarrow> string \<Rightarrow> bool \<Rightarrow> string \<Rightarrow> bool \<Rightarrow> u64 \<Rightarrow> ipc_world
    \<Rightarrow> (pub_socket option \<times> ipc_world) option" where
  "pub_socket_create R strerror ctx endpoint check_endpoint segment_size w =
     do { (r, s, w) \<leftarrow> pub_socket_connect R ctx endpoint check_endpoint segment_size pub_socket_new w;
          if r = 0 then Some (Some s, w)
          else Some (None, pub_socket_delete s
                 (w\<lparr>iw_cerr := iw_cerr w @ [''Error, failed to bind PubSocket to '' @ endpoint @ '': '' @ strerror]\<rparr>)) }"

section \<open>Pollers\<close>

text \<open>\<open>'s\<close> is the type of socket pointers; the shared-memory poller also takes the handle and segment.\<close>

datatype 's poller = ZMQPoller "'s zmq_poller" | MSGQPoller "'s mq_poller" | FakePoller "'s list"

definition poller_new :: "env \<Rightarrow> 's poller" where
  "poller_new env =
     (if messaging_use_fake env then FakePoller []
      else if messaging_use_zmq then ZMQPoller poller_init else MSGQPoller mq_poller_init)"

definition fake_registerSocket :: "'s \<Rightarrow> 's list \<Rightarrow> 's list" where
  "fake_registerSocket s ss = ss @ [s]"

definition fake_poll :: "int \<Rightarrow> 's list \<Rightarrow> 's list" where
  "fake_poll timeout ss = ss"

definition poller_register :: "'s \<times> msgq_queue \<times> msgq_seg \<Rightarrow> 's poller \<Rightarrow> 's poller option" where
  "poller_register x p =
     (case p of
        ZMQPoller z \<Rightarrow> map_option ZMQPoller (registerSocket (fst x) z)
      | MSGQPoller q \<Rightarrow> map_option MSGQPoller (mq_registerSocket x q)
      | FakePoller ss \<Rightarrow> Some (FakePoller (fake_registerSocket (fst x) ss)))"

definition poller_create :: "env \<Rightarrow> ('s \<times> msgq_queue \<times> msgq_seg) list \<Rightarrow> 's poller option" where
  "poller_create env xs = register_all poller_register xs (poller_new env)"

section \<open>Receiving from a faked socket\<close>

text \<open>
  The turn \<open>FakeSubSocket::receive\<close> takes before it receives: it announces itself and waits to be released. The system
  state holds the mapped memory through \<open>mem\<close>, as the driver may change it.
\<close>

definition fake_turn :: "'w fd_ops \<Rightarrow> ('w \<Rightarrow> mapped) \<Rightarrow> fake_members \<Rightarrow> 'w \<Rightarrow> (unit, 'w) sys" where
  "fake_turn K mem f w =
     do { a \<leftarrow> fk_state f; st \<leftarrow> mem w a;
          if enabled st then
            do { called \<leftarrow> fk_recv_called f; ready \<leftarrow> fk_recv_ready f;
                 bindS (ev_set K called w) (\<lambda>_ w.
                   bindS (ev_wait K (- 1) ready w) (\<lambda>_ w.
                     bindS (ev_clear K ready w) (\<lambda>_ w. Some (Inr (), w)))) }
          else Some (Inr (), w) }"

definition fake_receive :: "'w fd_ops \<Rightarrow> ('w \<Rightarrow> mapped) \<Rightarrow> (sub_socket \<Rightarrow> 'w \<Rightarrow> ('m, 'w) sys) \<Rightarrow> fake_members \<Rightarrow> sub_socket
    \<Rightarrow> 'w \<Rightarrow> ('m, 'w) sys" where
  "fake_receive K mem base f s w = bindS (fake_turn K mem f w) (\<lambda>_ w. base s w)"

end
