(* ===== verification/IpcProps.thy ===== *)
theory IpcProps
  imports Ipc
begin

text \<open>
  What the messaging layer promises: port numbers in range, and the same on platforms with the same data model only; messages
  that own their data, events that are reported when they are set, and faked sockets that wait for their turn.
\<close>

section \<open>Ports and messages\<close>

text \<open>
  C31. Every endpoint name has a port number between 8023 and 65534. On platforms with a 64-bit \<open>size_t\<close> it is that of the 64-bit
  hash, on those with a 32-bit one that of its low half; so the two do not agree, and for each of the endpoints the apps subscribe to
  they differ: a subscriber on the 32-bit ABI of the Android build connects to other ports than a 64-bit publisher binds.
  On either kind of platform the endpoints have different ports.
\<close>

theorem endpoint_ports:
  "8023 \<le> get_port dm e \<and> get_port dm e \<le> 65534
    \<and> get_port LP64 e = 8023 + int (unat (fnv1a_hash e :: u64) mod 57512)
    \<and> get_port ILP32 e = 8023 + int (unat (fnv1a_hash e :: u64) mod 2 ^ 32 mod 57512)
    \<and> map (get_port LP64) [''can'', ''selfdriveState'', ''selfdriveStateSP''] = [62300, 9797, 17252]
    \<and> map (get_port ILP32) [''can'', ''selfdriveState'', ''selfdriveStateSP''] = [63900, 55005, 34172]"
proof -
  have "n mod 57512 < 57512" for n :: nat by simp
  then have "8023 \<le> get_port dm e \<and> get_port dm e \<le> 65534"
    by (cases dm) (simp_all only: get_port_hash, simp_all)
  moreover have "map (get_port LP64) [''can'', ''selfdriveState'', ''selfdriveStateSP''] = [62300, 9797, 17252]"
    by code_simp
  moreover have "map (get_port ILP32) [''can'', ''selfdriveState'', ''selfdriveStateSP''] = [63900, 55005, 34172]"
    by code_simp
  ultimately show ?thesis by (simp only: get_port_hash)
qed

text \<open>
  C32. A message that was received over ZeroMQ is a copy of the data; closing and then deleting it frees the copy exactly
  once, unless it is empty: the buffer of an empty message is never freed.
\<close>

theorem message_freed_once:
  assumes "sub_receive 0 rc d = Some (Some m)"
  shows "zm_data m = Some d \<and> zm_size m = length d
    \<and> (zm_allocs (zmq_message_close (zmq_message_close m)) = zm_frees (zmq_message_close (zmq_message_close m)) \<longleftrightarrow> d \<noteq> [])"
proof -
  have "m = zmq_message_init d \<lparr>zm_data = None, zm_size = 0, zm_allocs = 0, zm_frees = 0\<rparr>"
    using assms by (simp add: sub_receive_def split: if_splits)
  then show ?thesis by (simp add: zmsg.freed_once zmsg.getData_init zmsg.getSize_init)
qed

theorem message_freed_once_witness:
  "\<exists>m. sub_receive 0 3 [1, 2, 3] = Some (Some m) \<and> zm_data m = Some [1, 2, 3] \<and> zm_size m = 3
     \<and> zm_allocs (zmq_message_close (zmq_message_close m)) = zm_frees (zmq_message_close (zmq_message_close m))"
proof -
  obtain m where m: "sub_receive 0 3 [1, 2, 3] = Some (Some m)" by (simp add: sub_receive_def)
  then show ?thesis using message_freed_once [OF m] by simp
qed

section \<open>Events\<close>

text \<open>The laws, one at a time.\<close>

lemma law_open: "eventfd_laws K count live env \<Longrightarrow> live fd w \<Longrightarrow> fd \<noteq> - 1"
  unfolding eventfd_laws_def by fastforce

lemma law_write:
  assumes "eventfd_laws K count live env" "live fd w" "count fd w + 1 < 2 ^ 64 - 1"
  obtains w' where "fd_write K fd 1 w = (8, w')"
    "\<And>f. count f w' = (if f = fd then count fd w + 1 else count f w)" "\<And>f. live f w' = live f w"
proof -
  from assms(1,2) have "let fits = count fd w + 1 < 2 ^ 64 - 1 in \<exists>w'. fd_write K fd 1 w = (if fits then 8 else - 1, w')
      \<and> (\<forall>f. count f w' = (if f = fd \<and> fits then count fd w + 1 else count f w) \<and> live f w' = live f w)"
    unfolding eventfd_laws_def by blast
  then have "\<exists>w'. fd_write K fd 1 w = (8, w')
      \<and> (\<forall>f. count f w' = (if f = fd then count fd w + 1 else count f w) \<and> live f w' = live f w)"
    using assms(3) by (simp add: Let_def)
  then show ?thesis using that by blast
qed

lemma law_read:
  assumes "eventfd_laws K count live env" "live fd w"
  obtains w' where "fd_read K fd w = (if count fd w = 0 then None else Some (word_of_nat (count fd w)), w')"
    "\<And>f. count f w' = (if f = fd then 0 else count f w)"
proof -
  from assms have "\<exists>w'. fd_read K fd w = (if count fd w = 0 then None else Some (word_of_nat (count fd w)), w')
      \<and> (\<forall>f. count f w' = (if f = fd then 0 else count f w) \<and> live f w' = live f w)"
    unfolding eventfd_laws_def by blast
  then show ?thesis using that by blast
qed

text \<open>The outcomes of \<open>ppoll\<close>: it never returns, fails, times out, or some descriptor is readable.\<close>

lemma law_ppoll:
  assumes "eventfd_laws K count live env" "\<forall>fd \<in> set fds. live fd w"
  obtains (never) "fd_ppoll K fds t w = None" "t = None" "\<forall>fd \<in> set fds. count fd w = 0"
    | (failed) pollin w' where "fd_ppoll K fds t w = Some ((- 1, pollin), w')" "env w w'"
        "(\<exists>fd \<in> set fds. 0 < count fd w) \<longrightarrow> (\<forall>f. count f w' = count f w)"
    | (timeout) pollin w' where "fd_ppoll K fds t w = Some ((0, pollin), w')" "env w w'" "t \<noteq> None"
        "\<forall>fd \<in> set fds. count fd w' = 0" "\<forall>fd \<in> set fds. count fd w = 0"
    | (ready) n w' where "fd_ppoll K fds t w = Some ((n, map (\<lambda>fd. 0 < count fd w') fds), w')" "env w w'" "0 < n"
        "\<exists>fd \<in> set fds. 0 < count fd w'" "(\<exists>fd \<in> set fds. 0 < count fd w) \<longrightarrow> (\<forall>f. count f w' = count f w)"
proof -
  have law: "case fd_ppoll K fds t w of
      None \<Rightarrow> t = None \<and> (\<forall>fd \<in> set fds. count fd w = 0)
    | Some ((n, pollin), w') \<Rightarrow> env w w' \<and> ((\<exists>fd \<in> set fds. 0 < count fd w) \<longrightarrow> (\<forall>f. count f w' = count f w))
        \<and> (n = - 1 \<or> pollin = map (\<lambda>fd. 0 < count fd w') fds
             \<and> n = int (length (filter (\<lambda>fd. 0 < count fd w') fds)) \<and> (n = 0 \<longrightarrow> t \<noteq> None))"
    using assms unfolding eventfd_laws_def by blast
  show ?thesis
  proof (cases "fd_ppoll K fds t w")
    case None
    then show ?thesis using law never by simp
  next
    case (Some x)
    obtain n pollin w' where x: "fd_ppoll K fds t w = Some ((n, pollin), w')" using Some by (cases x) auto
    have e: "env w w'" and k: "(\<exists>fd \<in> set fds. 0 < count fd w) \<longrightarrow> (\<forall>f. count f w' = count f w)"
      and n: "n = - 1 \<or> pollin = map (\<lambda>fd. 0 < count fd w') fds
             \<and> n = int (length (filter (\<lambda>fd. 0 < count fd w') fds)) \<and> (n = 0 \<longrightarrow> t \<noteq> None)"
      using law by (simp_all add: x)
    consider "n = - 1" | "n = 0" "n \<noteq> - 1" | "n \<noteq> - 1" "n \<noteq> 0" by blast
    then show ?thesis
    proof cases
      case 1
      then show ?thesis using failed [of pollin w'] x e k by simp
    next
      case 2
      then have z: "\<forall>fd \<in> set fds. count fd w' = 0" and "t \<noteq> None" using n by (auto simp: filter_empty_conv)
      moreover have "\<forall>fd \<in> set fds. count fd w = 0" using z k by fastforce
      ultimately show ?thesis using timeout [of pollin w'] x e 2 by simp
    next
      case 3
      then have l: "n = int (length (filter (\<lambda>fd. 0 < count fd w') fds))" "pollin = map (\<lambda>fd. 0 < count fd w') fds"
        using n by simp_all
      then have "0 < n" "filter (\<lambda>fd. 0 < count fd w') fds \<noteq> []" using 3 by auto
      then show ?thesis using ready [of n w'] x e k l(2) by (simp add: filter_empty_conv)
    qed
  qed
qed

text \<open>
  C33. Waiting for one of several events. When it returns an index, that event is set and none before it is; it throws that it timed
  out only if there is a timeout and no event is set, that the polling failed only if the call did, and nothing else. It returns
  unless there is no timeout and no event is set. It does not change the events itself; when one is set already, nothing changes
  at all. This holds whatever the other threads and processes do meanwhile, and for calls that are interrupted.
\<close>

theorem wait_for_one_first:
  assumes laws: "eventfd_laws K count live env" and live: "\<forall>e \<in> set es. live (event_fd e) w"
  shows "case wait_for_one K timeout es w of
      None \<Rightarrow> timeout < 0 \<and> (\<forall>e \<in> set es. count (event_fd e) w = 0)
    | Some (r, w') \<Rightarrow> env w w'
        \<and> ((\<exists>e \<in> set es. 0 < count (event_fd e) w) \<longrightarrow> (\<forall>f. count f w' = count f w))
        \<and> (case r of
             Inr i \<Rightarrow> i < length es \<and> 0 < count (event_fd (es ! i)) w' \<and> (\<forall>j < i. count (event_fd (es ! j)) w' = 0)
           | Inl e \<Rightarrow>
               e = timed_out K w' \<and> 0 \<le> timeout \<and> (\<forall>e \<in> set es. count (event_fd e) w = 0 \<and> count (event_fd e) w' = 0)
             \<or> e = poll_failed K w'
                \<and> (\<exists>pollin. fd_ppoll K (map event_fd es) (ev_timeout timeout) w = Some ((- 1, pollin), w')))"
proof -
  have fds: "map ev_fd es = map event_fd es" by (simp add: ev_fd_def)
  have l: "\<forall>fd \<in> set (map event_fd es). live fd w" using live by simp
  from laws l show ?thesis
  proof (cases rule: law_ppoll [where t = "ev_timeout timeout"])
    case never
    then show ?thesis by (auto simp: wait_for_one_def fds ev_timeout_def split: if_splits)
  next
    case (failed pollin w')
    then show ?thesis by (simp add: wait_for_one_def fds)
  next
    case (timeout pollin w')
    then show ?thesis by (auto simp: wait_for_one_def fds ev_timeout_def split: if_splits)
  next
    case (ready n w')
    let ?P = "\<lambda>i. map (\<lambda>fd. 0 < count fd w') (map event_fd es) ! i"
    obtain k where "k < length es" "0 < count (event_fd (es ! k)) w'" using ready(4) by (auto simp: in_set_conv_nth)
    then have "find_index ?P [0..<length es] \<noteq> None" by (auto simp: find_index_None)
    then obtain i where i: "find_index ?P [0..<length es] = Some i" by blast
    from i [unfolded find_index_Some] have "i < length es" "0 < count (event_fd (es ! i)) w'"
      "\<forall>j < i. count (event_fd (es ! j)) w' = 0" by auto
    then show ?thesis using ready i by (simp add: wait_for_one_def fds)
  qed
qed

text \<open>An event whose poll fails is reported as set.\<close>

lemma peek_failed:
  "is_valid e \<Longrightarrow> fd_ppoll K [event_fd e] (Some 0) w = Some ((- 1, pollin), w') \<Longrightarrow> ev_peek K e w = Some (Inr True, w')"
  by (simp add: ev_peek_def throw_if_invalid_def)

text \<open>
  A system of event descriptors: their counters, and what happens while a call waits, in order: another process sets a descriptor,
  or a signal interrupts the call. When nothing more happens, a call with a timeout times out, and one without waits forever.
\<close>

type_synonym counters = "(int \<Rightarrow> nat) \<times> int option list"

fun poll_counters :: "int list \<Rightarrow> int option \<Rightarrow> (int \<Rightarrow> nat) \<Rightarrow> int option list \<Rightarrow> ((int \<times> bool list) \<times> counters) option" where
  "poll_counters fds t c [] =
     (if t = None \<and> \<not> list_ex (\<lambda>fd. 0 < c fd) fds then None
      else Some ((int (length (filter (\<lambda>fd. 0 < c fd) fds)), map (\<lambda>fd. 0 < c fd) fds), (c, [])))"
| "poll_counters fds t c (x # xs) =
     (if list_ex (\<lambda>fd. 0 < c fd) fds
      then Some ((int (length (filter (\<lambda>fd. 0 < c fd) fds)), map (\<lambda>fd. 0 < c fd) fds), (c, x # xs))
      else (case x of
              None \<Rightarrow> Some ((- 1, []), (c, xs))
            | Some fd \<Rightarrow> poll_counters fds t (c(fd := c fd + 1)) xs))"

definition counter_ops :: "counters fd_ops" where
  "counter_ops = \<lparr>
     fd_write = (\<lambda>fd v (c, xs). if c fd + unat v < 2 ^ 64 - 1 then (8, (c(fd := c fd + unat v), xs)) else (- 1, (c, xs))),
     fd_read = (\<lambda>fd (c, xs). (if c fd = 0 then None else Some (word_of_nat (c fd)), (c(fd := 0), xs))),
     fd_ppoll = (\<lambda>fds t (c, xs). poll_counters fds t c xs),
     sys_errno = (\<lambda>w. 4), sys_getpid = (\<lambda>w. 77)\<rparr>"

definition counters_grow :: "counters \<Rightarrow> counters \<Rightarrow> bool" where
  "counters_grow w w' \<longleftrightarrow> (\<forall>fd. fst w fd \<le> fst w' fd)"

lemma poll_counters_law:
  "case poll_counters fds t c xs of
     None \<Rightarrow> t = None \<and> (\<forall>fd \<in> set fds. c fd = 0)
   | Some ((n, pollin), (c', ys)) \<Rightarrow> (\<forall>fd. c fd \<le> c' fd) \<and> ((\<exists>fd \<in> set fds. 0 < c fd) \<longrightarrow> c' = c)
       \<and> (n = - 1 \<or> pollin = map (\<lambda>fd. 0 < c' fd) fds
            \<and> n = int (length (filter (\<lambda>fd. 0 < c' fd) fds)) \<and> (n = 0 \<longrightarrow> t \<noteq> None))"
proof (induction xs arbitrary: c)
  case Nil
  then show ?case by (auto simp: list_ex_iff filter_empty_conv)
next
  case (Cons x xs)
  show ?case
  proof (cases "list_ex (\<lambda>fd. 0 < c fd) fds")
    case True
    then show ?thesis by (auto simp: list_ex_iff filter_empty_conv)
  next
    case False
    then have z: "\<forall>fd \<in> set fds. c fd = 0" by (simp add: list_ex_iff)
    show ?thesis
    proof (cases x)
      case None
      then show ?thesis using False z by simp
    next
      case (Some fd)
      define c1 where "c1 = c(fd := c fd + 1)"
      have up: "c f \<le> c1 f" for f by (simp add: c1_def)
      have eq: "poll_counters fds t c (x # xs) = poll_counters fds t c1 xs" using False Some by (simp add: c1_def)
      show ?thesis
      proof (cases "poll_counters fds t c1 xs")
        case None
        then show ?thesis using Cons.IH [of c1] z by (simp only: eq) simp
      next
        case (Some y)
        obtain n p c' ys where y: "y = ((n, p), (c', ys))" by (cases y) auto
        note ih = Cons.IH [of c1, unfolded Some y option.case prod.case]
        have "c f \<le> c' f" for f using up [of f] ih order_trans by blast
        then show ?thesis using ih z unfolding eq Some y option.case prod.case by (metis less_numeral_extra(3))
      qed
    qed
  qed
qed

lemma counter_laws: "eventfd_laws counter_ops (\<lambda>fd w. fst w fd) (\<lambda>fd w. 0 \<le> fd) counters_grow"
  unfolding eventfd_laws_def
proof (intro conjI allI impI)
  fix fds t and w :: counters
  obtain c xs where w: "w = (c, xs)" by (cases w)
  show "case fd_ppoll counter_ops fds t w of
      None \<Rightarrow> t = None \<and> (\<forall>fd \<in> set fds. fst w fd = 0)
    | Some ((n, pollin), w') \<Rightarrow> counters_grow w w' \<and> ((\<exists>fd \<in> set fds. 0 < fst w fd) \<longrightarrow> (\<forall>f. fst w' f = fst w f))
        \<and> (n = - 1 \<or> pollin = map (\<lambda>fd. 0 < fst w' fd) fds
             \<and> n = int (length (filter (\<lambda>fd. 0 < fst w' fd) fds)) \<and> (n = 0 \<longrightarrow> t \<noteq> None))"
    using poll_counters_law [where fds = fds and t = t and c = c and xs = xs]
    by (auto simp: counter_ops_def w counters_grow_def split: option.splits prod.splits)
qed (auto simp: counter_ops_def Let_def split: prod.splits)

theorem wait_for_one_first_witness:
  "\<exists>w'. wait_for_one counter_ops (- 1) [event_new 5, event_new 6, event_new 7] (\<lambda>fd. 0, [Some 9, Some 6]) = Some (Inr 1, w')
    \<and> 0 < fst w' 6 \<and> fst w' 5 = 0"
proof -
  let ?es = "[event_new 5, event_new 6, event_new 7]" and ?w = "(\<lambda>fd. 0, [Some 9, Some 6]) :: counters"
  have e: "\<exists>w'. wait_for_one counter_ops (- 1) ?es ?w = Some (Inr 1, w')"
    by (simp add: wait_for_one_def counter_ops_def ev_fd_def event_new_def ev_timeout_def upt_rec)
  have "\<forall>e \<in> set ?es. 0 \<le> event_fd e" by (simp add: event_new_def)
  from wait_for_one_first [OF counter_laws this, of "- 1" ?w] e show ?thesis by (auto simp: event_new_def)
qed

text \<open>
  C34. The turn of a faked socket. One that is enabled announces the reception on the first event, and then receives as the
  socket it fakes only after it found the second event set, by whoever, and cleared it, so that every release lets exactly
  one reception through. As long as nobody releases it, it waits forever and never receives; if the wait is interrupted it throws
  without receiving. One that is disabled receives at once.
\<close>

theorem fake_receive_turn:
  assumes laws: "eventfd_laws K count live env"
    and f: "f = \<lparr>fk_recv_called = Some called, fk_recv_ready = Some ready, fk_state = Some a\<rparr>" "mem w a = Some st"
    and live: "live (event_fd called) w" "live (event_fd ready) w" "event_fd called \<noteq> event_fd ready"
      "\<And>u u'. env u u' \<Longrightarrow> live (event_fd ready) u \<Longrightarrow> live (event_fd ready) u'"
    and room: "count (event_fd called) w + 1 < 2 ^ 64 - 1"
  shows "(\<not> enabled st \<longrightarrow> fake_receive K mem base f s w = base s w)
    \<and> (enabled st \<longrightarrow>
        (\<exists>w1. (\<forall>fd. count fd w1 = (if fd = event_fd called then count fd w + 1 else count fd w))
           \<and> (fd_ppoll K [event_fd ready] None w1 = None \<and> count (event_fd ready) w = 0 \<and> fake_receive K mem base f s w = None
              \<or> (\<exists>n pollin w2. fd_ppoll K [event_fd ready] None w1 = Some ((n, pollin), w2) \<and> env w1 w2
                  \<and> (n < 0 \<and> fake_receive K mem base f s w = Some (Inl (poll_failed K w2), w2)
                     \<or> 0 < n \<and> 0 < count (event_fd ready) w2
                        \<and> (\<exists>w3. fake_receive K mem base f s w = base s w3
                             \<and> (\<forall>fd. count fd w3 = (if fd = event_fd ready then 0 else count fd w2))))))))"
proof (intro conjI impI)
  assume "\<not> enabled st"
  then show "fake_receive K mem base f s w = base s w" using f by (simp add: fake_receive_def fake_turn_def)
next
  assume en: "enabled st"
  obtain w1 where w1: "fd_write K (event_fd called) 1 w = (8, w1)"
      "\<And>fd. count fd w1 = (if fd = event_fd called then count (event_fd called) w + 1 else count fd w)"
      "\<And>fd. live fd w1 = live fd w" using law_write [OF laws live(1) room] by blast
  have valid: "is_valid called" "is_valid ready" using law_open [OF laws] live(1,2) by (auto simp: is_valid_def)
  have l1: "\<forall>fd \<in> set [event_fd ready]. live fd w1" using live(2) w1(3) by simp
  have unfold: "fake_receive K mem base f s w =
      bindS (ev_wait K (- 1) ready w1) (\<lambda>_ w. bindS (ev_clear K ready w) (\<lambda>_ w. base s w))"
    using f en w1(1) valid
    by (simp add: fake_receive_def fake_turn_def ev_set_def throw_if_invalid_def bindS_assoc)
  let ?goal = "fd_ppoll K [event_fd ready] None w1 = None \<and> count (event_fd ready) w = 0 \<and> fake_receive K mem base f s w = None
    \<or> (\<exists>n pollin w2. fd_ppoll K [event_fd ready] None w1 = Some ((n, pollin), w2) \<and> env w1 w2
        \<and> (n < 0 \<and> fake_receive K mem base f s w = Some (Inl (poll_failed K w2), w2)
           \<or> 0 < n \<and> 0 < count (event_fd ready) w2
              \<and> (\<exists>w3. fake_receive K mem base f s w = base s w3
                   \<and> (\<forall>fd. count fd w3 = (if fd = event_fd ready then 0 else count fd w2)))))"
  note wait = ev_wait_def throw_if_invalid_def ev_timeout_def
  from laws l1 have ?goal
  proof (cases rule: law_ppoll [where t = None])
    case never
    then show ?thesis using valid live(3) w1(2) by (simp add: unfold wait)
  next
    case (failed pollin w2)
    then show ?thesis using valid by (simp add: unfold wait)
  next
    case (ready n w2)
    have "live (event_fd ready) w2" using live(4) ready(2) l1 by simp
    then obtain v w3 where w3: "fd_read K (event_fd ready) w2 = (v, w3)"
        "\<And>fd. count fd w3 = (if fd = event_fd ready then 0 else count fd w2)"
      using law_read [OF laws] by metis
    then show ?thesis using ready valid by (auto simp: unfold wait ev_clear_def)
  qed simp
  moreover have "\<forall>fd. count fd w1 = (if fd = event_fd called then count fd w + 1 else count fd w)" using w1(2) by simp
  ultimately show "\<exists>w1. (\<forall>fd. count fd w1 = (if fd = event_fd called then count fd w + 1 else count fd w)) \<and> (fd_ppoll K [event_fd ready] None w1 = None \<and> count (event_fd ready) w = 0 \<and> fake_receive K mem base f s w = None
    \<or> (\<exists>n pollin w2. fd_ppoll K [event_fd ready] None w1 = Some ((n, pollin), w2) \<and> env w1 w2
        \<and> (n < 0 \<and> fake_receive K mem base f s w = Some (Inl (poll_failed K w2), w2)
           \<or> 0 < n \<and> 0 < count (event_fd ready) w2
              \<and> (\<exists>w3. fake_receive K mem base f s w = base s w3
                   \<and> (\<forall>fd. count fd w3 = (if fd = event_fd ready then 0 else count fd w2))))))"
    by blast
qed

text \<open>The driver releases the socket while it waits; without a release it waits forever.\<close>

theorem fake_receive_turn_witness:
  "let mem = (\<lambda>w. [64 \<mapsto> \<lparr>fd_called = 5, fd_ready = 6, enabled = True\<rparr>]);
       f = \<lparr>fk_recv_called = Some (event_new 5), fk_recv_ready = Some (event_new 6), fk_state = Some 64\<rparr>;
       recv = (\<lambda>xs. fake_receive counter_ops mem (\<lambda>s w. Some (Inr (fst w 5, fst w 6), w)) f (Zmq_sub zmq_socket_new) (\<lambda>fd. 0, xs))
   in (\<exists>w'. recv [Some 6] = Some (Inr (1, 0), w')) \<and> recv [] = None
    \<and> (\<exists>w1 w2. counters_grow w1 w2 \<and> fst w1 6 = 0 \<and> 0 < fst w2 6)"
proof -
  let ?mem = "\<lambda>w :: counters. [64 \<mapsto> \<lparr>fd_called = 5, fd_ready = 6, enabled = True\<rparr>]"
  let ?f = "\<lparr>fk_recv_called = Some (event_new 5), fk_recv_ready = Some (event_new 6), fk_state = Some 64\<rparr>"
  let ?st = "\<lparr>fd_called = 5, fd_ready = 6, enabled = True\<rparr>"
  let ?recv = "\<lambda>xs. fake_receive counter_ops ?mem (\<lambda>s w. Some (Inr (fst w 5, fst w 6), w)) ?f (Zmq_sub zmq_socket_new) (\<lambda>fd. 0, xs)"
  let ?w = "((\<lambda>fd. 0, [Some 6]) :: counters)"
  have e: "\<exists>w'. ?recv [Some 6] = Some (Inr (1, 0), w')" "?recv [] = None"
    by (simp_all add: fake_receive_def fake_turn_def ev_set_def ev_wait_def ev_clear_def throw_if_invalid_def is_valid_def
        event_new_def counter_ops_def ev_timeout_def)
  have room: "fst ?w (event_fd (event_new 5)) + 1 < 2 ^ 64 - 1" by simp
  note turn = fake_receive_turn [OF counter_laws refl, where mem = ?mem and w = ?w and a = 64 and st = ?st and called = "event_new 5"
      and ready = "event_new 6" and base = "\<lambda>s w. Some (Inr (fst w 5, fst w 6), w)" and s = "Zmq_sub zmq_socket_new"]
  have "\<exists>w1 w2 :: counters. counters_grow w1 w2 \<and> fst w1 6 = 0 \<and> 0 < fst w2 6"
  proof -
    have "\<exists>w1 w2 :: counters. (\<forall>fd. fst w1 fd = (if fd = event_fd (event_new 5) then fst ?w fd + 1 else fst ?w fd))
        \<and> counters_grow w1 w2 \<and> 0 < fst w2 (event_fd (event_new 6))"
      using conjunct2 [OF turn [OF _ _ _ _ _ room]] e(1) by (fastforce simp: event_new_def)
    then show ?thesis by (fastforce simp: event_new_def)
  qed
  then show ?thesis using e by (simp add: Let_def)
qed

end
