(* ===== verification/Discovery.thy ===== *)
theory Discovery
  imports Ipc
begin

text \<open>
  The parts of \<open>bridge/common/bridge_core.h\<close> that make sockets: \<open>createContext\<close>, the socket group, and
  \<open>discoverPublisher\<close>, which looks for a publisher on all addresses of a subnet.

  \<open>R\<close> gives the results of the calls made for an address or endpoint, a list of rounds what the pollers and sockets report, and
  the time passed since the start. Running out of rounds, or a failed assertion, is \<open>None\<close>. The socket made for
  an octet is named by the octet: sockets that exist at the same time have different addresses.
\<close>

section \<open>Contexts and groups\<close>

definition createContext :: context_kind where
  "createContext = context_create"

text \<open>The contexts deleted.\<close>

definition deleteContext :: "context_kind option \<Rightarrow> context_kind list" where
  "deleteContext ctx = (case ctx of None \<Rightarrow> [] | Some c \<Rightarrow> [c])"

type_synonym sub_socket_group = "sub_socket list"

fun createSubSockets :: "env \<Rightarrow> (string \<Rightarrow> conn_results) \<Rightarrow> string \<Rightarrow> bool \<Rightarrow> string list \<Rightarrow> string \<Rightarrow> ipc_world
    \<Rightarrow> (sub_socket_group, ipc_world) sys" where
  "createSubSockets env R strerror ctx [] address w = Some (Inr [], w)"
| "createSubSockets env R strerror ctx (ep # eps) address w =
     bindS (sub_socket_create env (R ep) strerror ctx ep address False True 0 w) (\<lambda>s w.
       bindS (createSubSockets env R strerror ctx eps address w) (\<lambda>ss w.
         Some (Inr (case s of None \<Rightarrow> ss | Some s \<Rightarrow> s # ss), w)))"

definition deleteSubSockets :: "sub_socket_group option \<Rightarrow> ipc_world \<Rightarrow> ipc_world" where
  "deleteSubSockets g w = (case g of None \<Rightarrow> w | Some ss \<Rightarrow> fold sub_socket_delete ss w)"

section \<open>The candidates\<close>

definition octets :: "int \<Rightarrow> int list" where
  "octets selfOctet = filter (\<lambda>i. i \<noteq> selfOctet) [1..254]"

definition candidate :: "string \<Rightarrow> int \<Rightarrow> string" where
  "candidate prefix octet = prefix @ ''.'' @ int_str octet"

text \<open>The sockets that could be connected, with the map from sockets to addresses.\<close>

fun candidate_sockets :: "env \<Rightarrow> (string \<Rightarrow> conn_results) \<Rightarrow> string \<Rightarrow> bool \<Rightarrow> string \<Rightarrow> string \<Rightarrow> int list \<Rightarrow> ipc_world
    \<Rightarrow> ((int \<times> sub_socket) list \<times> (int \<Rightarrow> string option), ipc_world) sys" where
  "candidate_sockets env R strerror ctx endpoint prefix [] w = Some (Inr ([], Map.empty), w)"
| "candidate_sockets env R strerror ctx endpoint prefix (octet # os) w =
     (let ip = candidate prefix octet in
      bindS (sub_socket_create env (R ip) strerror ctx endpoint ip False True 0 w) (\<lambda>s w.
        bindS (candidate_sockets env R strerror ctx endpoint prefix os w) (\<lambda>(ss, m) w.
          Some (Inr (case s of None \<Rightarrow> (ss, m) | Some s \<Rightarrow> ((octet, s) # ss, m(octet \<mapsto> ip))), w))))"

section \<open>The pollers\<close>

definition batchSize :: nat where "batchSize = 127"

function make_pollers :: "env \<Rightarrow> ('s \<times> msgq_queue \<times> msgq_seg) list \<Rightarrow> 's poller list option" where
  "make_pollers env xs =
     (if xs = [] then Some []
      else do { p \<leftarrow> poller_create env (take batchSize xs);
                ps \<leftarrow> make_pollers env (drop batchSize xs);
                Some (p # ps) })"
  by pat_completeness auto
termination
  by (relation "measure (\<lambda>(env, xs). length xs)") (auto simp: batchSize_def)

declare make_pollers.simps [simp del]

record poll_results =
  pr_rc :: int
  pr_revents :: "nat \<Rightarrow> bool"
  pr_turns :: "(int \<times> msgq_seg list) list"
  pr_uid :: u64

definition poller_poll :: "poll_results \<Rightarrow> int \<Rightarrow> 's poller \<Rightarrow> 's list option" where
  "poller_poll R timeout p =
     (case p of
        ZMQPoller z \<Rightarrow> Some (zmq_poller_poll (pr_rc R) (pr_revents R) z)
      | MSGQPoller q \<Rightarrow> map_option fst (mq_poller_poll (pr_uid R) timeout (pr_turns R) q)
      | FakePoller ss \<Rightarrow> Some (fake_poll timeout ss))"

section \<open>The search\<close>

text \<open>The address of the first ready socket that has a message; empty if there is none.\<close>

fun first_sender :: "(int \<Rightarrow> bool) \<Rightarrow> (int \<Rightarrow> string option) \<Rightarrow> int list \<Rightarrow> string" where
  "first_sender got socketToIp [] = []"
| "first_sender got socketToIp (s # ss) =
     (if got s then (case socketToIp s of None \<Rightarrow> [] | Some ip \<Rightarrow> ip) else first_sender got socketToIp ss)"

fun poll_pollers :: "(int \<Rightarrow> bool) \<Rightarrow> (int \<Rightarrow> string option) \<Rightarrow> poll_results list \<Rightarrow> int poller list \<Rightarrow> string option" where
  "poll_pollers got socketToIp Rs [] = Some []"
| "poll_pollers got socketToIp [] (p # ps) = None"
| "poll_pollers got socketToIp (R # Rs) (p # ps) =
     do { ready \<leftarrow> poller_poll R 100 p;
          let foundIp = first_sender got socketToIp ready;
          if foundIp \<noteq> [] then Some foundIp else poll_pollers got socketToIp Rs ps }"

record poll_round =
  rd_elapsed :: int
  rd_polls :: "poll_results list"
  rd_got :: "int \<Rightarrow> bool"

fun search_loop :: "int \<Rightarrow> (int \<Rightarrow> string option) \<Rightarrow> int poller list \<Rightarrow> poll_round list \<Rightarrow> string option" where
  "search_loop timeoutMs socketToIp pollers [] = None"
| "search_loop timeoutMs socketToIp pollers (r # rs) =
     (if timeoutMs \<le> rd_elapsed r then Some []
      else do { foundIp \<leftarrow> poll_pollers (rd_got r) socketToIp (rd_polls r) pollers;
                if foundIp \<noteq> [] then Some foundIp else search_loop timeoutMs socketToIp pollers rs })"

text \<open>\<open>raw\<close> is the handle and segment a poller of the shared-memory transport takes from a socket.\<close>

definition discoverPublisher :: "env \<Rightarrow> (string \<Rightarrow> conn_results) \<Rightarrow> string \<Rightarrow> (sub_socket \<Rightarrow> msgq_queue \<times> msgq_seg) \<Rightarrow> poll_round list
    \<Rightarrow> bool \<Rightarrow> string \<Rightarrow> string \<Rightarrow> int \<Rightarrow> ipc_world \<Rightarrow> (string, ipc_world) sys" where
  "discoverPublisher env R strerror raw rounds ctx endpoint initialIp timeoutMs w =
     (case rfind_char (CHR ''.'') initialIp of
        None \<Rightarrow> Some (Inr [], w)
      | Some lastDot \<Rightarrow>
          (let prefix = take lastDot initialIp in
           bindS (Some (stoi (drop (lastDot + 1) initialIp), w)) (\<lambda>selfOctet w.
             bindS (candidate_sockets env R strerror ctx endpoint prefix (octets selfOctet) w) (\<lambda>(allSockets, socketToIp) w.
               do { pollers \<leftarrow> make_pollers env (map (\<lambda>(octet, s). (octet, raw s)) allSockets);
                    foundIp \<leftarrow> search_loop timeoutMs socketToIp pollers rounds;
                    Some (Inr foundIp, fold (\<lambda>(octet, s). sub_socket_delete s) allSockets w) }))))"

section \<open>Facts\<close>

fun poller_sockets :: "'s poller \<Rightarrow> 's list" where
  "poller_sockets (ZMQPoller z) = sockets z"
| "poller_sockets (MSGQPoller q) = mp_sockets q"
| "poller_sockets (FakePoller ss) = ss"

lemma register_all_zmq:
  "register_all poller_register xs (ZMQPoller z) = map_option ZMQPoller (register_all registerSocket (map fst xs) z)"
proof (induction xs arbitrary: z)
  case (Cons x xs)
  then show ?case by (cases "registerSocket (fst x) z") (simp_all add: poller_register_def)
qed simp

lemma register_all_fake: "register_all poller_register xs (FakePoller ss) = Some (FakePoller (ss @ map fst xs))"
  by (induction xs arbitrary: ss) (simp_all add: poller_register_def fake_registerSocket_def)

lemma poller_create_ok:
  assumes "length xs \<le> batchSize"
  shows "\<exists>p. poller_create env xs = Some p \<and> poller_sockets p = map fst xs
     \<and> (\<not> messaging_use_fake env \<longrightarrow> (\<exists>z. p = ZMQPoller z))"
proof (cases "messaging_use_fake env")
  case True
  then show ?thesis by (simp add: poller_create_def poller_new_def register_all_fake)
next
  case False
  have "num_polls poller_init + length (map fst xs) < MAX_POLLERS"
    using assms by (simp add: poller_init_def batchSize_def MAX_POLLERS_def)
  from zpoll.register_all_ok [OF this] show ?thesis
    using False by (auto simp: poller_create_def poller_new_def messaging_use_zmq_def register_all_zmq poller_init_def)
qed

text \<open>No assertion of a poller fails, every socket is in exactly one poller, and there are as few as can be.\<close>

definition pollers_for :: "env \<Rightarrow> 's list \<Rightarrow> 's poller list \<Rightarrow> bool" where
  "pollers_for env ss ps \<longleftrightarrow> concat (map poller_sockets ps) = ss \<and> length ps = (length ss + 126) div 127
     \<and> (\<forall>p \<in> set ps. length (poller_sockets p) \<le> batchSize \<and> (\<not> messaging_use_fake env \<longrightarrow> (\<exists>z. p = ZMQPoller z)))"

lemma batches_Suc:
  assumes "0 < n"
  shows "Suc ((n - 127 + 126) div 127) = (n + 126) div 127"
proof (cases "n \<le> 127")
  case True
  then have "(n + 126) div 127 = 1" using assms by (intro div_nat_eqI) simp_all
  then show ?thesis using True by simp
next
  case False
  then obtain k where "n = k + 127" by (metis le_add_diff_inverse2 nat_le_linear)
  then have "n + 126 = (n - 127 + 126) + 127" by simp
  then show ?thesis by (simp only: div_add_self2)
qed

lemma make_pollers_ok: "\<exists>ps. make_pollers env xs = Some ps \<and> pollers_for env (map fst xs) ps"
proof (induction env xs rule: make_pollers.induct)
  case (1 env xs)
  show ?case
  proof (cases "xs = []")
    case True
    then show ?thesis by (simp add: make_pollers.simps pollers_for_def)
  next
    case False
    obtain p where p: "poller_create env (take batchSize xs) = Some p" "poller_sockets p = map fst (take batchSize xs)"
        "\<not> messaging_use_fake env \<longrightarrow> (\<exists>z. p = ZMQPoller z)"
      using poller_create_ok [of "take batchSize xs" env] by auto
    obtain ps where ps: "make_pollers env (drop batchSize xs) = Some ps" "pollers_for env (map fst (drop batchSize xs)) ps"
      using 1 [OF False p(1)] by blast
    have "make_pollers env xs = Some (p # ps)" using False p(1) ps(1) by (subst make_pollers.simps) simp
    moreover have "concat (map poller_sockets (p # ps)) = map fst xs"
    proof -
      have "concat (map poller_sockets ps) = map fst (drop batchSize xs)" using ps(2) by (simp only: pollers_for_def)
      then have "concat (map poller_sockets (p # ps)) = map fst (take batchSize xs) @ map fst (drop batchSize xs)"
        using p(2) by simp
      also have "\<dots> = map fst (take batchSize xs @ drop batchSize xs)" by (rule map_append [symmetric])
      finally show ?thesis by simp
    qed
    moreover have "length (p # ps) = (length xs + 126) div 127"
    proof -
      have "length ps = (length xs - 127 + 126) div 127" using ps(2) by (simp add: pollers_for_def batchSize_def)
      then show ?thesis using batches_Suc [of "length xs"] False by simp
    qed
    ultimately show ?thesis using p(2,3) ps(2) by (auto simp: pollers_for_def min_def)
  qed
qed

text \<open>The map from sockets to addresses knows the candidates with a socket, and nothing else.\<close>

lemma candidate_sockets_map:
  "candidate_sockets env R strerror ctx endpoint prefix os w = Some (Inr (ss, m), w') \<Longrightarrow>
   m o' = Some ip \<Longrightarrow> o' \<in> set os \<and> o' \<in> fst ` set ss \<and> ip = candidate prefix o'"
proof (induction os arbitrary: w ss m w')
  case (Cons octet os)
  obtain s w1 ss1 m1 w2 where
      q: "candidate_sockets env R strerror ctx endpoint prefix os w1 = Some (Inr (ss1, m1), w2)"
    and e: "(case s of None \<Rightarrow> (ss1, m1) | Some s \<Rightarrow> ((octet, s) # ss1, m1(octet \<mapsto> candidate prefix octet))) = (ss, m)"
    using Cons.prems(1) by (auto simp: Let_def bindS_Inr)
  note ih = Cons.IH [OF q]
  show ?case using Cons.prems(2) e ih by (cases s) (auto split: if_splits)
qed simp

lemma first_sender_found:
  "first_sender got m ready \<noteq> [] \<Longrightarrow> \<exists>s. got s \<and> m s = Some (first_sender got m ready)"
  by (induction ready) (auto split: option.splits)

lemma poll_pollers_found:
  "poll_pollers got m Rs ps = Some ip \<Longrightarrow> ip \<noteq> [] \<Longrightarrow> \<exists>s. got s \<and> m s = Some ip"
proof (induction got m Rs ps rule: poll_pollers.induct)
  case (3 got m R Rs p ps)
  then show ?case
    using first_sender_found [of got m] by (cases "poller_poll R 100 p") (auto simp: Let_def split: if_splits)
qed simp_all

lemma search_loop_found:
  "search_loop t m ps rounds = Some ip \<Longrightarrow> ip \<noteq> [] \<Longrightarrow> \<exists>r \<in> set rounds. rd_elapsed r < t \<and> (\<exists>s. rd_got r s \<and> m s = Some ip)"
proof (induction rounds)
  case (Cons r rs)
  show ?case
  proof (cases "t \<le> rd_elapsed r")
    case False
    then obtain f where f: "poll_pollers (rd_got r) m (rd_polls r) ps = Some f"
      using Cons.prems by (auto simp: bind_eq_Some_conv)
    then show ?thesis
      using Cons False poll_pollers_found [OF f] by (cases "f = []") auto
  qed (use Cons.prems in simp)
qed simp

text \<open>The search ends: a round in which enough time has passed is reached unless a publisher is found before.\<close>

lemma poll_pollers_ends:
  "length ps \<le> length Rs \<Longrightarrow> \<forall>p \<in> set ps. \<forall>R. poller_poll R 100 p \<noteq> None \<Longrightarrow> poll_pollers got m Rs ps \<noteq> None"
proof (induction got m Rs ps rule: poll_pollers.induct)
  case (3 got m R Rs p ps)
  then obtain ready where "poller_poll R 100 p = Some ready" by fastforce
  then show ?case using 3 by (auto simp: Let_def)
qed simp_all

lemma search_loop_ends:
  assumes "\<forall>r \<in> set rounds. length ps \<le> length (rd_polls r)" "\<forall>p \<in> set ps. \<forall>R. poller_poll R 100 p \<noteq> None"
    "\<exists>r \<in> set rounds. t \<le> rd_elapsed r"
  shows "search_loop t m ps rounds \<noteq> None"
  using assms
proof (induction rounds)
  case (Cons r rs)
  show ?case
  proof (cases "t \<le> rd_elapsed r")
    case False
    obtain f where "poll_pollers (rd_got r) m (rd_polls r) ps = Some f"
      using poll_pollers_ends [of ps "rd_polls r"] Cons.prems(1,2) by fastforce
    then show ?thesis using Cons False by auto
  qed simp
qed simp

text \<open>
  Making a socket of the network transport fails no assertion and throws nothing; the candidates with a socket are
  the ones that could be connected.
\<close>

definition connectable :: "(string \<Rightarrow> conn_results) \<Rightarrow> string \<Rightarrow> int \<Rightarrow> bool" where
  "connectable R prefix octet \<longleftrightarrow> cr_sock_ok (R (candidate prefix octet)) \<and> cr_rc (R (candidate prefix octet)) = 0"

lemma sub_socket_create_zmq:
  "\<not> messaging_use_fake env \<Longrightarrow>
   \<exists>s w'. sub_socket_create env R strerror ctx endpoint address conflate check_endpoint sz w = Some (Inr s, w')
     \<and> (s \<noteq> None \<longleftrightarrow> cr_sock_ok R \<and> cr_rc R = 0)"
  by (auto simp: sub_socket_create_def sub_socket_new_def messaging_use_zmq_def sub_connect_def Let_def)

lemma candidate_sockets_zmq:
  "\<not> messaging_use_fake env \<Longrightarrow>
   \<exists>ss w'. candidate_sockets env R strerror ctx endpoint prefix os w = Some (Inr (ss, \<lambda>octet.
        if octet \<in> set os \<and> connectable R prefix octet then Some (candidate prefix octet) else None), w')
     \<and> map fst ss = filter (connectable R prefix) os"
proof (induction os arbitrary: w)
  case (Cons octet os)
  obtain s w1 where s: "sub_socket_create env (R (candidate prefix octet)) strerror ctx endpoint (candidate prefix octet) False True 0 w
      = Some (Inr s, w1)" "s \<noteq> None \<longleftrightarrow> connectable R prefix octet"
    using sub_socket_create_zmq [OF Cons.prems, of "R (candidate prefix octet)" strerror ctx endpoint "candidate prefix octet" False True 0 w,
        folded connectable_def] by blast
  obtain ss w2 where "candidate_sockets env R strerror ctx endpoint prefix os w1 = Some (Inr (ss, \<lambda>octet.
        if octet \<in> set os \<and> connectable R prefix octet then Some (candidate prefix octet) else None), w2)"
      "map fst ss = filter (connectable R prefix) os"
    using Cons.IH [OF Cons.prems] by blast
  then show ?case using s by (cases s) (auto simp: Let_def fun_eq_iff)
qed (simp add: fun_eq_iff)

lemma length_octets: "length (octets self) \<le> 254"
  using length_filter_le [of "\<lambda>i. i \<noteq> self" "[1..254]"] by (simp add: octets_def)

section \<open>What discovery promises\<close>

text \<open>
  C35. What discovery finds. A non-empty result is the address of a candidate: the prefix of the own address with a last octet
  from 1 to 254 other than the own one. A socket connected to this address, and to no other, received a
  message, before the time was up.
\<close>

theorem discover_found:
  assumes "discoverPublisher env R strerror raw rounds ctx endpoint initialIp timeoutMs w = Some (Inr ip, w')" "ip \<noteq> []"
  shows "\<exists>dot self octet. rfind_char (CHR ''.'') initialIp = Some dot \<and> stoi (drop (dot + 1) initialIp) = Inr self
    \<and> 1 \<le> octet \<and> octet \<le> 254 \<and> octet \<noteq> self \<and> ip = take dot initialIp @ ''.'' @ int_str octet
    \<and> (\<exists>r \<in> set rounds. rd_elapsed r < timeoutMs \<and> rd_got r octet)"
proof -
  obtain dot where dot: "rfind_char (CHR ''.'') initialIp = Some dot"
    using assms by (auto simp: discoverPublisher_def split: option.splits)
  obtain self ss m w1 ps where self: "stoi (drop (dot + 1) initialIp) = Inr self"
    and c: "candidate_sockets env R strerror ctx endpoint (take dot initialIp) (octets self) w = Some (Inr (ss, m), w1)"
    and l: "search_loop timeoutMs m ps rounds = Some ip"
    using assms(1) dot by (auto simp: discoverPublisher_def Let_def bindS_Inr bind_eq_Some_conv)
  obtain r octet where r: "r \<in> set rounds" "rd_elapsed r < timeoutMs" "rd_got r octet" "m octet = Some ip"
    using search_loop_found [OF l assms(2)] by blast
  have "octet \<in> set (octets self)" "ip = candidate (take dot initialIp) octet"
    using candidate_sockets_map [OF c r(4)] by auto
  then show ?thesis using dot self r(1-3) by (auto simp: octets_def candidate_def)
qed

text \<open>
  C36. Discovery returns. On the network transport it ends for every address and timeout, whatever sockets can be
  connected, as soon as the time is up: no assertion fails, and the sockets fit into two pollers.
\<close>

theorem discover_returns:
  assumes "\<not> messaging_use_fake env" "\<exists>r \<in> set rounds. timeoutMs \<le> rd_elapsed r" "\<forall>r \<in> set rounds. length (rd_polls r) = 2"
  shows "discoverPublisher env R strerror raw rounds ctx endpoint initialIp timeoutMs w \<noteq> None"
proof (cases "rfind_char (CHR ''.'') initialIp")
  case (Some dot)
  show ?thesis
  proof (cases "stoi (drop (dot + 1) initialIp)")
    case (Inr self)
    obtain ss m w1 where c: "candidate_sockets env R strerror ctx endpoint (take dot initialIp) (octets self) w = Some (Inr (ss, m), w1)"
      and f: "map fst ss = filter (connectable R (take dot initialIp)) (octets self)"
      using candidate_sockets_zmq [OF assms(1)] by blast
    let ?xs = "map (\<lambda>(octet, s). (octet, raw s)) ss"
    obtain ps where ps: "make_pollers env ?xs = Some ps" "pollers_for env (map fst ?xs) ps"
      using make_pollers_ok by blast
    have "length ss = length (map fst ss)" by simp
    also have "\<dots> \<le> 254" unfolding f using length_octets [of self] length_filter_le order_trans by blast
    finally have "length ss \<le> 254" .
    then have "length ps \<le> 2" using ps(2) by (simp add: pollers_for_def)
    moreover have "\<forall>p \<in> set ps. \<forall>R. poller_poll R 100 p \<noteq> None"
      using ps(2) assms(1) by (auto simp: pollers_for_def poller_poll_def)
    ultimately have "search_loop timeoutMs m ps rounds \<noteq> None"
      using assms(2,3) by (intro search_loop_ends) auto
    then show ?thesis using Some Inr c ps(1) by (auto simp: discoverPublisher_def Let_def)
  qed (simp add: discoverPublisher_def Some Let_def)
qed (simp add: discoverPublisher_def)

section \<open>A search\<close>

text \<open>Only the candidate with octet 7 can be connected, and it sends at once.\<close>

definition demo_results :: "string \<Rightarrow> conn_results" where
  "demo_results ip = \<lparr>cr_model = ILP32, cr_sock_ok = (ip = ''10.0.0.7''), cr_rc = 0, cr_pid = 1,
     cr_queue = \<lparr>qr_prefix = None, qr_fd = - 1, qr_truncate = 0, qr_mapped = False, qr_uid = 1,
       qr_new = \<lparr>q_mapped = False, q_size = 0, reader_id = 0, read_uid_local = 0, write_uid_local = 0,
                  read_conflate = False, q_endpoint = []\<rparr>\<rparr>,
     cr_shm = \<lparr>shm_mkdir = None, shm_fd = 1, shm_truncate = 0, shm_mem = 64\<rparr>\<rparr>"

definition demo_world :: ipc_world where
  "demo_world = \<lparr>iw_calls = [], iw_seg = \<lparr>num_readers = 0, write_pointer = 0, write_uid = 0, read_pointers = [],
     read_valids = [], read_uids = [], seg_data = [], tkills = []\<rparr>, iw_mapped = Map.empty, iw_unmapped = [], iw_cerr = []\<rparr>"

definition demo_round :: "int \<Rightarrow> poll_round" where
  "demo_round t = (let R = \<lparr>pr_rc = 1, pr_revents = (\<lambda>i. True), pr_turns = [], pr_uid = 1\<rparr>
     in \<lparr>rd_elapsed = t, rd_polls = [R, R], rd_got = (\<lambda>octet. octet = 7)\<rparr>)"

definition demo_search :: "poll_round list \<Rightarrow> (string, ipc_world) sys" where
  "demo_search rounds = discoverPublisher (\<lambda>_. None) demo_results ''refused''
     (\<lambda>_. (qr_new (cr_queue (demo_results [])), iw_seg demo_world)) rounds True ''can'' ''10.0.0.3'' 2000 demo_world"

lemma demo_candidates:
  "filter (connectable demo_results ''10.0.0'') (octets 3) = [7]"
  by code_simp

lemma demo_search_found: "\<exists>w. demo_search [demo_round 0] = Some (Inr ''10.0.0.7'', w)"
proof -
  let ?env = "(\<lambda>_. None) :: env"
  have nf: "\<not> messaging_use_fake ?env" by (simp add: messaging_use_fake_def)
  define m where "m = (\<lambda>octet. if octet \<in> set (octets 3) \<and> connectable demo_results ''10.0.0'' octet
      then Some (candidate ''10.0.0'' octet) else None)"
  from candidate_sockets_zmq [OF nf, of demo_results "''refused''" True "''can''" "''10.0.0''" "octets 3" demo_world]
  obtain ss w1 where c: "candidate_sockets ?env demo_results ''refused'' True ''can'' ''10.0.0'' (octets 3) demo_world = Some (Inr (ss, m), w1)"
    and ss: "map fst ss = [7]"
    unfolding demo_candidates m_def [symmetric] by (elim exE conjE)
  obtain x where x: "ss = [(7, x)]" using ss by auto
  have "7 \<in> set (filter (connectable demo_results ''10.0.0'') (octets 3))" by (simp only: demo_candidates) simp
  moreover have "candidate ''10.0.0'' 7 = ''10.0.0.7''" by code_simp
  ultimately have m7: "m 7 = Some ''10.0.0.7''" by (simp add: m_def)
  have dot: "rfind_char (CHR ''.'') ''10.0.0.3'' = Some 6" "take 6 ''10.0.0.3'' = ''10.0.0''" "stoi (drop (6 + 1) ''10.0.0.3'') = Inr 3"
    by code_simp+
  have "make_pollers ?env [(7 :: int, y)] = Some [ZMQPoller \<lparr>sockets = [7], polls = [7], num_polls = 1\<rparr>]" for y :: "msgq_queue \<times> msgq_seg"
    using nf by (simp add: make_pollers.simps batchSize_def poller_create_def poller_new_def poller_register_def
        messaging_use_zmq_def registerSocket_def poller_init_def MAX_POLLERS_def)
  then show ?thesis
    using c x m7 dot
    by (simp add: demo_search_def discoverPublisher_def Let_def demo_round_def poller_poll_def zmq_poller_poll_def)
qed

theorem discover_found_witness:
  "\<exists>octet w. demo_search [demo_round 0] = Some (Inr ''10.0.0.7'', w) \<and> ''10.0.0.7'' = ''10.0.0.'' @ int_str octet"
proof -
  obtain w where w: "demo_search [demo_round 0] = Some (Inr ''10.0.0.7'', w)" using demo_search_found by blast
  have "rfind_char (CHR ''.'') ''10.0.0.3'' = Some 6" by code_simp
  then show ?thesis using discover_found [OF w [unfolded demo_search_def]] w by auto
qed

theorem discover_returns_witness: "demo_search [demo_round 5, demo_round 2000] \<noteq> None"
  unfolding demo_search_def
  by (rule discover_returns) (auto simp: messaging_use_fake_def demo_round_def Let_def)

end
