(* ===== verification/Bridge.thy ===== *)
theory Bridge
  imports Decoder Discovery
begin

text \<open>
  The two faces of the bridge: the C functions Swift calls (\<open>bridge/bridge_ios.cpp\<close>) and the native methods of the Android
  class \<open>VehicleBridge\<close> (\<open>jni_bridge.cpp\<close>), with the handshake of the receive loop's start and stop.

  Strings and arrays of the caller are arguments by value. A pointer or handle that may be null is an option.
  \<open>None\<close> as a result is undefined behaviour or a failed assertion.
\<close>

section \<open>The decoder behind a handle\<close>

definition createVehicleDecoder :: "data_model \<Rightarrow> string list \<Rightarrow> int list \<Rightarrow> string \<Rightarrow> (parse_error + vehicle_decoder) option" where
  "createVehicleDecoder = vehicle_decoder_new"

text \<open>The objects that were deleted.\<close>

definition destroyVehicleDecoder :: "'d option \<Rightarrow> 'd list" where
  "destroyVehicleDecoder d = (case d of None \<Rightarrow> [] | Some d \<Rightarrow> [d])"

definition decode_frame :: "int \<Rightarrow> u32 \<Rightarrow> bytes \<Rightarrow> int \<Rightarrow> int \<Rightarrow> vehicle_decoder \<Rightarrow> vehicle_decoder option" where
  "decode_frame bus address data t1 t2 d = vd_updateMapper t1 t2 (vd_updateFrame bus address data d)"

section \<open>The flags of the receive loop\<close>

record loop_flags =
  receiveLoopRunning :: bool
  receiveLoopExited :: bool

definition loop_flags_init :: loop_flags where
  "loop_flags_init = \<lparr>receiveLoopRunning = False, receiveLoopExited = True\<rparr>"

definition start_flags :: "loop_flags \<Rightarrow> loop_flags" where
  "start_flags f = f\<lparr>receiveLoopRunning := True, receiveLoopExited := False\<rparr>"

text \<open>
  \<open>stop\<close>: \<open>exited\<close> are the values its loop reads, one after the other; the result is the number of sleeps, \<open>None\<close> while it
  waits.
\<close>

fun await_exit :: "bool list \<Rightarrow> nat option" where
  "await_exit [] = None"
| "await_exit (e # es) = (if \<not> e then map_option Suc (await_exit es) else Some 0)"

definition stop_receive_loop :: "bool list \<Rightarrow> loop_flags \<Rightarrow> loop_flags \<times> nat option" where
  "stop_receive_loop exited f = (f\<lparr>receiveLoopRunning := False\<rparr>, await_exit exited)"

text \<open>\<open>passes\<close> are the passes over the sockets made while \<open>running\<close> is true.\<close>

definition loop_states :: "reception option list list \<Rightarrow> vehicle_decoder \<Rightarrow> (vehicle_decoder \<times> car_state list) option" where
  "loop_states passes d =
     do { (st, sleeps) \<leftarrow> runReceiveLoop passes (loop_init d); Some (ls_decoder st, loop_state.delivered st) }"

section \<open>The functions for Swift\<close>

definition bridge_create_context :: context_kind where
  "bridge_create_context = createContext"

definition bridge_delete_context :: "context_kind option \<Rightarrow> context_kind list" where
  "bridge_delete_context ctx = deleteContext ctx"

text \<open>The null pointer stands for the empty result.\<close>

definition bridge_discover_publisher :: "(string, ipc_world) sys \<Rightarrow> (string option, ipc_world) sys" where
  "bridge_discover_publisher discover =
     bindS discover (\<lambda>result w. Some (Inr (if result = [] then None else Some result), w))"

text \<open>With the lines it prints.\<close>

definition bridge_create_sub_sockets :: "env \<Rightarrow> (string \<Rightarrow> conn_results) \<Rightarrow> string \<Rightarrow> bool \<Rightarrow> string list \<Rightarrow> string \<Rightarrow> ipc_world
    \<Rightarrow> (sub_socket_group \<times> string list, ipc_world) sys" where
  "bridge_create_sub_sockets env R strerror ctx eps address w =
     bindS (createSubSockets env R strerror ctx eps address w) (\<lambda>g w.
       Some (Inr (g, map (\<lambda>ep. ''[bridge_ios] subscribed to '' @ [CHR 0x27] @ ep @ [CHR 0x27] @ '' at '' @ address) eps), w))"

definition bridge_delete_sub_sockets :: "sub_socket_group option \<Rightarrow> ipc_world \<Rightarrow> ipc_world" where
  "bridge_delete_sub_sockets g w = deleteSubSockets g w"

text \<open>Both arrays have \<open>count\<close> elements that are read.\<close>

definition bridge_create_vehicle_decoder :: "data_model \<Rightarrow> string list \<Rightarrow> int list \<Rightarrow> nat \<Rightarrow> string \<Rightarrow> (parse_error + vehicle_decoder) option" where
  "bridge_create_vehicle_decoder dm dbcContents busIndices cnt vehicleType =
     (if length dbcContents < cnt \<or> length busIndices < cnt then None
      else createVehicleDecoder dm (take cnt dbcContents) (take cnt busIndices) vehicleType)"

definition bridge_destroy_vehicle_decoder :: "'d option \<Rightarrow> 'd list" where
  "bridge_destroy_vehicle_decoder d = destroyVehicleDecoder d"

definition bridge_decode_can_frame :: "int \<Rightarrow> u32 \<Rightarrow> bytes \<Rightarrow> int \<Rightarrow> int \<Rightarrow> vehicle_decoder
    \<Rightarrow> (vehicle_decoder \<times> bridge_car_state) option" where
  "bridge_decode_can_frame bus address data t1 t2 d =
     do { d \<leftarrow> decode_frame bus address data t1 t2 d; Some (d, carStateToBridge (state d)) }"

text \<open>The structs the callback sees, and the flags while the loop runs and afterwards.\<close>

definition bridge_start_receive_loop :: "reception option list list \<Rightarrow> vehicle_decoder \<Rightarrow> loop_flags
    \<Rightarrow> (vehicle_decoder \<times> bridge_car_state list \<times> loop_flags \<times> loop_flags) option" where
  "bridge_start_receive_loop passes d f =
     do { (d, states) \<leftarrow> loop_states passes d;
          Some (d, map carStateToBridge states, start_flags f, (start_flags f)\<lparr>receiveLoopExited := True\<rparr>) }"

definition bridge_stop_receive_loop :: "bool list \<Rightarrow> loop_flags \<Rightarrow> loop_flags \<times> nat option" where
  "bridge_stop_receive_loop = stop_receive_loop"

section \<open>The methods for Android\<close>

text \<open>\<open>'r\<close> is the type of Java references; \<open>global_refs\<close> are the global references made and not deleted.\<close>

record 'r jni_globals =
  g_vm :: "'r option"
  g_callback :: "'r option"
  g_buffer :: "'r option"
  g_onCanDataMethod :: "string option"
  jni_flags :: loop_flags
  global_refs :: "'r list"

definition jni_globals_init :: "'r jni_globals" where
  "jni_globals_init = \<lparr>g_vm = None, g_callback = None, g_buffer = None, g_onCanDataMethod = None,
     jni_flags = loop_flags_init, global_refs = []\<rparr>"

definition JNI_OnLoad :: "'r \<Rightarrow> 'r jni_globals \<Rightarrow> int \<times> 'r jni_globals" where
  "JNI_OnLoad vm g = (0x00010006, g\<lparr>g_vm := Some vm\<rparr>)"

definition nativeCreateContext :: context_kind where
  "nativeCreateContext = createContext"

definition nativeDeleteContext :: "context_kind option \<Rightarrow> context_kind list" where
  "nativeDeleteContext ctxPtr = (if ctxPtr = None then [] else deleteContext ctxPtr)"

definition nativeCreateSubSocket :: "env \<Rightarrow> conn_results \<Rightarrow> string \<Rightarrow> bool \<Rightarrow> string \<Rightarrow> string \<Rightarrow> ipc_world
    \<Rightarrow> (sub_socket option, ipc_world) sys" where
  "nativeCreateSubSocket env R strerror ctx endpoint address w =
     sub_socket_create env R strerror ctx endpoint address False True 0 w"

definition nativeDeleteSubSocket :: "sub_socket option \<Rightarrow> ipc_world \<Rightarrow> ipc_world" where
  "nativeDeleteSubSocket subPtr w = (case subPtr of None \<Rightarrow> w | Some s \<Rightarrow> sub_socket_delete s w)"

definition nativeCreateSubSockets :: "env \<Rightarrow> (string \<Rightarrow> conn_results) \<Rightarrow> string \<Rightarrow> bool \<Rightarrow> string list \<Rightarrow> string \<Rightarrow> ipc_world
    \<Rightarrow> (sub_socket_group \<times> string list, ipc_world) sys" where
  "nativeCreateSubSockets env R strerror ctx eps address w =
     bindS (createSubSockets env R strerror ctx eps address w) (\<lambda>g w.
       Some (Inr (g, map (\<lambda>ep. ''SubSocketGroup: subscribed to '' @ [CHR 0x27] @ ep @ [CHR 0x27] @ '' at '' @ address) eps), w))"

definition nativeDeleteSubSockets :: "sub_socket_group option \<Rightarrow> ipc_world \<Rightarrow> ipc_world" where
  "nativeDeleteSubSockets groupPtr w = (if groupPtr = None then w else deleteSubSockets groupPtr w)"

definition nativeStopReceiveLoop :: "bool list \<Rightarrow> 'r jni_globals \<Rightarrow> 'r jni_globals \<times> nat option" where
  "nativeStopReceiveLoop exited g =
     (case stop_receive_loop exited (jni_flags g) of (f, n) \<Rightarrow> (g\<lparr>jni_flags := f\<rparr>, n))"

text \<open>With the lines it logs.\<close>

definition nativeDiscoverPublisher :: "string \<Rightarrow> int \<Rightarrow> (string, ipc_world) sys \<Rightarrow> (string option \<times> string list, ipc_world) sys" where
  "nativeDiscoverPublisher ipStr timeoutMs discover =
     (let started = ''Discovery: starting on subnet '' @ ipStr @ '', timeout '' @ int_str timeoutMs @ ''ms'' in
      bindS discover (\<lambda>foundIp w.
        Some (Inr (if foundIp = [] then (None, [started, ''Discovery: no publisher found''])
                   else (Some foundIp, [started, ''Discovery: found publisher at '' @ foundIp])), w)))"

text \<open>A size is narrowed to \<open>int\<close>; an array of negative length cannot be made.\<close>

definition jsize_of :: "nat \<Rightarrow> int" where
  "jsize_of n = sint (ucast (word_of_nat n :: u64) :: u32)"

definition nativeGetData :: "message \<Rightarrow> bytes option" where
  "nativeGetData m =
     do { d \<leftarrow> message_getData m;
          let n = jsize_of (message_getSize m);
          if n < 0 then None else Some (take (nat n) d) }"

definition nativeGetSize :: "message \<Rightarrow> int" where
  "nativeGetSize m = jsize_of (message_getSize m)"

definition nativeDeleteMessage :: "message \<Rightarrow> message" where
  "nativeDeleteMessage m = message_delete m"

text \<open>The bus array is read up to the number of DBC strings.\<close>

definition nativeCreateVehicleDecoder :: "data_model \<Rightarrow> string list \<Rightarrow> int list \<Rightarrow> string \<Rightarrow> (parse_error + vehicle_decoder) option" where
  "nativeCreateVehicleDecoder dm dbcContents busArr vehicleType =
     (let n = length dbcContents in
      if length busArr < n then None else createVehicleDecoder dm dbcContents (take n busArr) vehicleType)"

text \<open>\<open>output\<close> is the local array, indeterminate before it is filled; a Java \<open>int\<close> address is cast to unsigned.\<close>

definition nativeDecodeCanFrame :: "f64 list \<Rightarrow> int \<Rightarrow> int \<Rightarrow> bytes \<Rightarrow> int \<Rightarrow> int \<Rightarrow> vehicle_decoder
    \<Rightarrow> (vehicle_decoder \<times> f64 list) option" where
  "nativeDecodeCanFrame output bus address data t1 t2 d =
     do { d \<leftarrow> decode_frame bus (word_of_int address) data t1 t2 d; Some (d, toArray (state d) output) }"

definition nativeDestroyVehicleDecoder :: "'d option \<Rightarrow> 'd list" where
  "nativeDestroyVehicleDecoder decoderHandle =
     (if decoderHandle = None then [] else destroyVehicleDecoder decoderHandle)"

text \<open>\<open>callback'\<close> and \<open>buffer'\<close> are the global references. The arrays are those the callback sees.\<close>

definition nativeStartReceiveLoop :: "f64 list \<Rightarrow> 'r \<Rightarrow> 'r \<Rightarrow> reception option list list \<Rightarrow> vehicle_decoder \<Rightarrow> 'r jni_globals
    \<Rightarrow> (vehicle_decoder \<times> f64 list list \<times> 'r jni_globals) option" where
  "nativeStartReceiveLoop output callback' buffer' passes d g =
     do { let g = g\<lparr>g_callback := Some callback', g_buffer := Some buffer', g_onCanDataMethod := Some ''onCanData([D)V'',
                    global_refs := global_refs g @ [callback', buffer'], jni_flags := start_flags (jni_flags g)\<rparr>;
          (d, states) \<leftarrow> loop_states passes d;
          Some (d, map (\<lambda>cs. toArray cs output) states, g\<lparr>jni_flags := (jni_flags g)\<lparr>receiveLoopExited := True\<rparr>\<rparr>) }"

section \<open>The handshake of start and stop\<close>

text \<open>
  Both faces use the same protocol: the thread that starts the loop and the one that stops it share the two
  flags. A step is one access to a flag, or a pass over the sockets. \<open>hs_in_time\<close> records that \<open>stop\<close> cleared
  \<open>running\<close> after \<open>start\<close> had set it.
\<close>

datatype start_pc = Not_started | Running_set | At_test | In_pass | Left_loop | Start_returned
datatype stop_pc = Not_called | Waiting | Stop_returned

record handshake =
  hs_flags :: loop_flags
  hs_start :: start_pc
  hs_stop :: stop_pc
  hs_in_time :: bool

definition handshake_init :: handshake where
  "handshake_init = \<lparr>hs_flags = loop_flags_init, hs_start = Not_started, hs_stop = Not_called, hs_in_time = False\<rparr>"

inductive start_step :: "handshake \<Rightarrow> handshake \<Rightarrow> bool" where
  "hs_start s = Not_started \<Longrightarrow>
     start_step s (s\<lparr>hs_flags := (hs_flags s)\<lparr>receiveLoopRunning := True\<rparr>, hs_start := Running_set\<rparr>)"
| "hs_start s = Running_set \<Longrightarrow>
     start_step s (s\<lparr>hs_flags := (hs_flags s)\<lparr>receiveLoopExited := False\<rparr>, hs_start := At_test\<rparr>)"
| "hs_start s = At_test \<Longrightarrow>
     start_step s (s\<lparr>hs_start := (if receiveLoopRunning (hs_flags s) then In_pass else Left_loop)\<rparr>)"
| "hs_start s = In_pass \<Longrightarrow> start_step s (s\<lparr>hs_start := At_test\<rparr>)"
| "hs_start s = Left_loop \<Longrightarrow>
     start_step s (s\<lparr>hs_flags := (hs_flags s)\<lparr>receiveLoopExited := True\<rparr>, hs_start := Start_returned\<rparr>)"

inductive stop_step :: "handshake \<Rightarrow> handshake \<Rightarrow> bool" where
  "hs_stop s = Not_called \<Longrightarrow>
     stop_step s (s\<lparr>hs_flags := (hs_flags s)\<lparr>receiveLoopRunning := False\<rparr>, hs_stop := Waiting,
                   hs_in_time := hs_start s \<noteq> Not_started\<rparr>)"
| "hs_stop s = Waiting \<Longrightarrow>
     stop_step s (s\<lparr>hs_stop := (if receiveLoopExited (hs_flags s) then Stop_returned else Waiting)\<rparr>)"

inductive hs_reachable :: "handshake \<Rightarrow> bool" where
  init: "hs_reachable handshake_init"
| start: "hs_reachable s \<Longrightarrow> start_step s s' \<Longrightarrow> hs_reachable s'"
| stop: "hs_reachable s \<Longrightarrow> stop_step s s' \<Longrightarrow> hs_reachable s'"

inductive_cases start_stepE: "start_step s s'"
inductive_cases stop_stepE: "stop_step s s'"

definition hs_inv :: "handshake \<Rightarrow> bool" where
  "hs_inv s \<longleftrightarrow>
     (receiveLoopExited (hs_flags s) \<longleftrightarrow> hs_start s \<in> {Not_started, Running_set, Start_returned})
     \<and> (hs_stop s = Not_called \<longrightarrow> \<not> hs_in_time s)
     \<and> (hs_in_time s \<longrightarrow> \<not> receiveLoopRunning (hs_flags s) \<and> hs_start s \<noteq> Not_started)
     \<and> (hs_in_time s \<longrightarrow> hs_stop s = Stop_returned \<longrightarrow> hs_start s \<noteq> In_pass)"

lemma hs_inv: "hs_reachable s \<Longrightarrow> hs_inv s"
proof (induction rule: hs_reachable.induct)
  case init
  then show ?case by (simp add: hs_inv_def handshake_init_def loop_flags_init_def)
next
  case (start s s')
  from start(2,3) show ?case by (cases rule: start_step.cases) (auto simp: hs_inv_def)
next
  case (stop s s')
  from stop(2,3) show ?case by (cases rule: stop_step.cases) (auto simp: hs_inv_def)
qed

end
