(* ===== verification/BridgeProps.thy ===== *)
theory BridgeProps
  imports Bridge
begin

text \<open>
  What the bridge promises its callers about starting and stopping the receive loop, and where it does not hold.
\<close>

section \<open>Stopping\<close>

definition hs_step :: "handshake \<Rightarrow> handshake \<Rightarrow> bool" where
  "hs_step s s' \<longleftrightarrow> start_step s s' \<or> stop_step s s'"

text \<open>The starting thread is never stuck before it has returned, and gets to the end once \<open>running\<close> is false.\<close>

lemma start_reaches_exit:
  assumes "hs_inv s" "hs_in_time s" "hs_stop s = Waiting"
  shows "\<exists>s'. start_step\<^sup>*\<^sup>* s s' \<and> receiveLoopExited (hs_flags s') \<and> hs_stop s' = Waiting"
proof -
  have a: "\<not> receiveLoopRunning (hs_flags s)" "hs_start s \<noteq> Not_started"
    and ex: "receiveLoopExited (hs_flags s) \<longleftrightarrow> hs_start s \<in> {Not_started, Running_set, Start_returned}"
    using assms(1,2) by (simp_all add: hs_inv_def)
  let ?gone = "\<lambda>s. \<exists>s'. start_step\<^sup>*\<^sup>* s s' \<and> receiveLoopExited (hs_flags s') \<and> hs_stop s' = Waiting"
  have left: "?gone s" if "hs_start s = Left_loop" "hs_stop s = Waiting" for s
    using that start_step.intros(5) [OF that(1)]
    by (intro exI [of _ "s\<lparr>hs_flags := (hs_flags s)\<lparr>receiveLoopExited := True\<rparr>, hs_start := Start_returned\<rparr>"]) auto
  have test: "?gone s" if s: "hs_start s = At_test" "hs_stop s = Waiting" "\<not> receiveLoopRunning (hs_flags s)" for s
    using left [of "s\<lparr>hs_start := Left_loop\<rparr>"] start_step.intros(3) [OF s(1)] s(2,3)
    by (auto intro: converse_rtranclp_into_rtranclp)
  show ?thesis
  proof (cases "hs_start s")
    case Running_set
    then show ?thesis using ex assms(3) by auto
  next
    case In_pass
    show ?thesis
      using test [of "s\<lparr>hs_start := At_test\<rparr>"] start_step.intros(4) [OF In_pass] a assms(3)
      by (auto intro: converse_rtranclp_into_rtranclp)
  next
    case Start_returned
    then show ?thesis using ex assms(3) by auto
  qed (use a assms(3) test left in auto)
qed

lemma start_step_in_time:
  "start_step\<^sup>*\<^sup>* s s' \<Longrightarrow> hs_reachable s \<Longrightarrow> hs_reachable s' \<and> hs_in_time s' = hs_in_time s \<and> hs_stop s' = hs_stop s"
proof (induction rule: rtranclp_induct)
  case (step u v)
  then show ?case using hs_reachable.start [of u v] by (auto elim: start_stepE)
qed simp

lemma start_steps_are_steps: "start_step\<^sup>*\<^sup>* s s' \<Longrightarrow> hs_step\<^sup>*\<^sup>* s s'"
  by (rule rtranclp_mono [THEN predicate2D, of start_step]) (auto simp: hs_step_def)

text \<open>
  C37. When stopping comes after starting has set \<open>running\<close>, then in every interleaving of the two threads the loop makes no
  pass over the sockets any more once \<open>stop\<close> has returned, so that the caller may delete them; and a waiting \<open>stop\<close>
  can always still return.
\<close>

theorem stop_safe:
  assumes "hs_reachable s" "hs_in_time s"
  shows "(hs_stop s = Stop_returned \<longrightarrow> (\<forall>s'. start_step\<^sup>*\<^sup>* s s' \<longrightarrow> hs_start s' \<noteq> In_pass))
    \<and> (hs_stop s = Waiting \<longrightarrow> (\<exists>s'. hs_step\<^sup>*\<^sup>* s s' \<and> hs_stop s' = Stop_returned))"
proof (intro conjI impI allI)
  fix s' assume "hs_stop s = Stop_returned" "start_step\<^sup>*\<^sup>* s s'"
  then show "hs_start s' \<noteq> In_pass"
    using start_step_in_time [of s s'] hs_inv [of s'] assms by (auto simp: hs_inv_def)
next
  assume w: "hs_stop s = Waiting"
  obtain s1 where s1: "start_step\<^sup>*\<^sup>* s s1" "receiveLoopExited (hs_flags s1)" "hs_stop s1 = Waiting"
    using start_reaches_exit [OF hs_inv [OF assms(1)] assms(2) w] by blast
  have "stop_step s1 (s1\<lparr>hs_stop := Stop_returned\<rparr>)" using stop_step.intros(2) [OF s1(3)] s1(2) by simp
  then have "hs_step\<^sup>*\<^sup>* s (s1\<lparr>hs_stop := Stop_returned\<rparr>)"
    using start_steps_are_steps [OF s1(1)] by (auto simp: hs_step_def intro: rtranclp.rtrancl_into_rtrancl)
  then show "\<exists>s'. hs_step\<^sup>*\<^sup>* s s' \<and> hs_stop s' = Stop_returned" by auto
qed

text \<open>The run in which the loop has started when it is stopped.\<close>

definition stopping :: handshake where
  "stopping = \<lparr>hs_flags = \<lparr>receiveLoopRunning = False, receiveLoopExited = False\<rparr>, hs_start = In_pass, hs_stop = Waiting,
     hs_in_time = True\<rparr>"

lemma stopping_reachable: "hs_reachable stopping"
proof -
  have "hs_reachable \<lparr>hs_flags = \<lparr>receiveLoopRunning = True, receiveLoopExited = True\<rparr>, hs_start = Running_set,
      hs_stop = Not_called, hs_in_time = False\<rparr>"
    using hs_reachable.start [OF hs_reachable.init start_step.intros(1)] by (simp add: handshake_init_def loop_flags_init_def)
  from hs_reachable.start [OF this start_step.intros(2)]
  have "hs_reachable \<lparr>hs_flags = \<lparr>receiveLoopRunning = True, receiveLoopExited = False\<rparr>, hs_start = At_test,
      hs_stop = Not_called, hs_in_time = False\<rparr>" by simp
  from hs_reachable.start [OF this start_step.intros(3)]
  have "hs_reachable \<lparr>hs_flags = \<lparr>receiveLoopRunning = True, receiveLoopExited = False\<rparr>, hs_start = In_pass,
      hs_stop = Not_called, hs_in_time = False\<rparr>" by simp
  from hs_reachable.stop [OF this stop_step.intros(1)] show ?thesis by (simp add: stopping_def)
qed

theorem stop_safe_witness: "hs_reachable stopping \<and> (\<exists>s'. hs_step\<^sup>*\<^sup>* stopping s' \<and> hs_stop s' = Stop_returned)"
  using stop_safe [OF stopping_reachable] stopping_reachable by (simp add: stopping_def)

text \<open>
  When \<open>stop\<close> is called before the starting thread has set \<open>running\<close>, it returns at once, and the loop then runs
  with nobody left to stop it.
\<close>

lemma lost_stop:
  "\<exists>s. hs_reachable s \<and> hs_stop s = Stop_returned \<and> hs_start s = In_pass \<and> receiveLoopRunning (hs_flags s)"
proof -
  have "hs_reachable \<lparr>hs_flags = \<lparr>receiveLoopRunning = False, receiveLoopExited = True\<rparr>, hs_start = Not_started,
      hs_stop = Waiting, hs_in_time = False\<rparr>"
    using hs_reachable.stop [OF hs_reachable.init stop_step.intros(1)] by (simp add: handshake_init_def loop_flags_init_def)
  from hs_reachable.stop [OF this stop_step.intros(2)]
  have "hs_reachable \<lparr>hs_flags = \<lparr>receiveLoopRunning = False, receiveLoopExited = True\<rparr>, hs_start = Not_started,
      hs_stop = Stop_returned, hs_in_time = False\<rparr>" by simp
  from hs_reachable.start [OF this start_step.intros(1)]
  have "hs_reachable \<lparr>hs_flags = \<lparr>receiveLoopRunning = True, receiveLoopExited = True\<rparr>, hs_start = Running_set,
      hs_stop = Stop_returned, hs_in_time = False\<rparr>" by simp
  from hs_reachable.start [OF this start_step.intros(2)]
  have "hs_reachable \<lparr>hs_flags = \<lparr>receiveLoopRunning = True, receiveLoopExited = False\<rparr>, hs_start = At_test,
      hs_stop = Stop_returned, hs_in_time = False\<rparr>" by simp
  from hs_reachable.start [OF this start_step.intros(3)]
  have "hs_reachable \<lparr>hs_flags = \<lparr>receiveLoopRunning = True, receiveLoopExited = False\<rparr>, hs_start = In_pass,
      hs_stop = Stop_returned, hs_in_time = False\<rparr>" by simp
  then show ?thesis by force
qed

text \<open>Every start of the loop on Android makes two global references; nothing deletes them.\<close>

lemma start_keeps_references:
  "nativeStartReceiveLoop out cb buf passes d g = Some (d', arrays, g') \<Longrightarrow> global_refs g' = global_refs g @ [cb, buf]"
  by (auto simp: nativeStartReceiveLoop_def bind_eq_Some_conv)

end
