(* ===== verification/Capnp.thy ===== *)
theory Capnp
  imports Decoder
begin

text \<open>
  From received bytes to the events of the receive loop: the accessors that \<open>processMessage\<close> calls, generated
  into \<open>bridge/capnp/gen/log.capnp.h\<close> and \<open>bridge/capnp/gen/custom.capnp.h\<close>, over the inline parts of the Cap'n Proto runtime in
  \<open>bridge/include/capnp\<close> (\<open>StructReader\<close> in \<open>layout.h\<close>, \<open>List::Reader\<close> in \<open>list.h\<close>, \<open>PointerHelpers\<close>).

  Following a pointer is in the part of the runtime that is not in the repository: it is the record \<open>capnp_lib\<close>, over types
  \<open>'p\<close> of wire pointers and \<open>'l\<close> of list readers. What it documents is \<open>capnp_laws\<close>. An exception of the runtime is the
  left of a sum.
\<close>

section \<open>Struct readers\<close>

text \<open>The data section with its size in bits, and the pointer section.\<close>

record 'p struct_reader =
  sr_data :: bytes
  dataSize :: nat
  sr_pointers :: "'p list"

text \<open>\<open>getDataField<T>\<close>: the offset counts elements of the type's size; past the end the value is 0.\<close>

definition getDataField :: "nat \<Rightarrow> 'p struct_reader \<Rightarrow> 'a::len word" where
  "getDataField off r =
     (if (off + 1) * LENGTH('a) \<le> dataSize r
      then ucast (le_word (take (LENGTH('a) div 8) (drop (off * (LENGTH('a) div 8)) (sr_data r))))
      else 0)"

definition getDataField_bool :: "nat \<Rightarrow> 'p struct_reader \<Rightarrow> bool" where
  "getDataField_bool off r =
     (if off < dataSize r then sr_data r ! (off div 8) AND push_bit (off mod 8) 1 \<noteq> 0 else False)"

text \<open>A pointer past the end is the null pointer.\<close>

definition getPointerField :: "nat \<Rightarrow> 'p struct_reader \<Rightarrow> 'p option" where
  "getPointerField ptrIndex r = (if ptrIndex < length (sr_pointers r) then Some (sr_pointers r ! ptrIndex) else None)"

section \<open>The runtime\<close>

record ('p, 'l) capnp_lib =
  cl_root :: "bytes \<Rightarrow> 'p result"
  getStruct :: "'p option \<Rightarrow> 'p struct_reader result"
  getList :: "'p option \<Rightarrow> 'l result"
  elementCount :: "'l \<Rightarrow> nat"
  getStructElement :: "'l \<Rightarrow> nat \<Rightarrow> 'p struct_reader result"
  getBlob_Data :: "'p option \<Rightarrow> bytes result"
  getBlob_Text :: "'p option \<Rightarrow> string result"

definition get_struct :: "('p, 'l) capnp_lib \<Rightarrow> 'p option \<Rightarrow> 'p struct_reader result" where
  "get_struct L p = getStruct L p"

definition get_list :: "('p, 'l) capnp_lib \<Rightarrow> 'p option \<Rightarrow> 'l result" where
  "get_list L p = getList L p"

definition getRoot :: "('p, 'l) capnp_lib \<Rightarrow> bytes \<Rightarrow> 'p struct_reader result" where
  "getRoot L words = bindE (cl_root L words) (\<lambda>p. get_struct L (Some p))"

definition list_size :: "('p, 'l) capnp_lib \<Rightarrow> 'l \<Rightarrow> nat" where
  "list_size L l = elementCount L l"

text \<open>\<open>operator[]\<close>: the check of the index is for debugging only.\<close>

definition list_at :: "('p, 'l) capnp_lib \<Rightarrow> 'l \<Rightarrow> nat \<Rightarrow> 'p struct_reader result" where
  "list_at L l i = getStructElement L l i"

text \<open>Iterating from \<open>begin()\<close> to \<open>end()\<close> applies \<open>f\<close> to the elements in order.\<close>

fun iterate :: "(nat \<Rightarrow> 'a result) \<Rightarrow> nat list \<Rightarrow> 'a list result" where
  "iterate f [] = Inr []"
| "iterate f (i # js) = bindE (f i) (\<lambda>x. bindE (iterate f js) (\<lambda>xs. Inr (x # xs)))"

definition for_each :: "('p, 'l) capnp_lib \<Rightarrow> ('p struct_reader \<Rightarrow> 'a result) \<Rightarrow> 'l \<Rightarrow> 'a list result" where
  "for_each L f l = iterate (\<lambda>i. bindE (list_at L l i) f) [0..<list_size L l]"

text \<open>A \<open>std::string\<close> made from \<open>cStr()\<close> ends at the first NUL.\<close>

definition c_str :: "string \<Rightarrow> string" where
  "c_str s = takeWhile (\<lambda>c. c \<noteq> CHR 0x00) s"

section \<open>Events\<close>

text \<open>The enumerators of \<open>Event::Which\<close>, from 0.\<close>

definition Event_Which :: "string list" where
  "Event_Which =
    [''INIT_DATA'', ''ROAD_CAMERA_STATE'', ''GPS_N_M_E_A'', ''SENSOR_EVENT_D_E_P_R_E_C_A_T_E_D'',
     ''CAN'', ''DEVICE_STATE'', ''CONTROLS_STATE'', ''LIVE_EVENT_D_E_P_R_E_C_A_T_E_D'',
     ''MODEL'', ''FEATURES_D_E_P_R_E_C_A_T_E_D'', ''SENSOR_EVENTS_D_E_P_R_E_C_A_T_E_D'', ''PANDA_STATE_D_E_P_R_E_C_A_T_E_D'',
     ''RADAR_STATE'', ''LIVE_U_I_D_E_P_R_E_C_A_T_E_D'', ''ROAD_ENCODE_IDX'', ''LIVE_TRACKS_D_E_P_R_E_C_A_T_E_D'',
     ''SENDCAN'', ''LOG_MESSAGE'', ''LIVE_CALIBRATION'', ''ANDROID_LOG'',
     ''GPS_LOCATION'', ''CAR_STATE'', ''CAR_CONTROL'', ''LONGITUDINAL_PLAN'',
     ''LIVE_LOCATION_D_E_P_R_E_C_A_T_E_D'', ''ETHERNET_DATA_D_E_P_R_E_C_A_T_E_D'', ''NAV_UPDATE_D_E_P_R_E_C_A_T_E_D'', ''CELL_INFO_D_E_P_R_E_C_A_T_E_D'',
     ''WIFI_SCAN_D_E_P_R_E_C_A_T_E_D'', ''ANDROID_GNSS_D_E_P_R_E_C_A_T_E_D'', ''QCOM_GNSS'', ''LIDAR_PTS_D_E_P_R_E_C_A_T_E_D'',
     ''PROC_LOG'', ''UBLOX_GNSS'', ''CLOCKS'', ''LIVE_MPC_D_E_P_R_E_C_A_T_E_D'',
     ''LIVE_LONGITUDINAL_MPC_D_E_P_R_E_C_A_T_E_D'', ''NAV_STATUS_D_E_P_R_E_C_A_T_E_D'', ''UBLOX_RAW'', ''GPS_PLANNER_POINTS_D_E_P_R_E_C_A_T_E_D'',
     ''GPS_PLANNER_PLAN_D_E_P_R_E_C_A_T_E_D'', ''APPLANIX_RAW_D_E_P_R_E_C_A_T_E_D'', ''TRAFFIC_EVENTS_D_E_P_R_E_C_A_T_E_D'', ''LIVE_LOCATION_TIMING_D_E_P_R_E_C_A_T_E_D'',
     ''ORBSLAM_CORRECTION_D_E_P_R_E_C_A_T_E_D'', ''LIVE_LOCATION_CORRECTED_D_E_P_R_E_C_A_T_E_D'', ''ORB_OBSERVATION_D_E_P_R_E_C_A_T_E_D'', ''GPS_LOCATION_EXTERNAL'',
     ''LOCATION_D_E_P_R_E_C_A_T_E_D'', ''UI_NAVIGATION_EVENT_D_E_P_R_E_C_A_T_E_D'', ''LIVE_LOCATION_KALMAN_DEPRECATED_D_E_P_R_E_C_A_T_E_D'', ''TEST_JOYSTICK'',
     ''ORB_ODOMETRY_D_E_P_R_E_C_A_T_E_D'', ''ORB_FEATURES_D_E_P_R_E_C_A_T_E_D'', ''APPLANIX_LOCATION_D_E_P_R_E_C_A_T_E_D'', ''ORB_KEY_FRAME_D_E_P_R_E_C_A_T_E_D'',
     ''UI_LAYOUT_STATE_D_E_P_R_E_C_A_T_E_D'', ''ORB_FEATURES_SUMMARY_D_E_P_R_E_C_A_T_E_D'', ''DRIVER_STATE_D_E_P_R_E_C_A_T_E_D'', ''BOOT'',
     ''LIVE_PARAMETERS'', ''LIVE_MAP_DATA_D_E_P_R_E_C_A_T_E_D'', ''CAMERA_ODOMETRY'', ''LATERAL_PLAN_D_E_P_R_E_C_A_T_E_D'',
     ''KALMAN_ODOMETRY_D_E_P_R_E_C_A_T_E_D'', ''THUMBNAIL'', ''ONROAD_EVENTS_D_E_P_R_E_C_A_T_E_D'', ''CAR_PARAMS'',
     ''DRIVER_CAMERA_STATE'', ''DRIVER_MONITORING_STATE'', ''LIVE_LOCATION_KALMAN'', ''SENTINEL'',
     ''WIDE_ROAD_CAMERA_STATE'', ''MODEL_V2'', ''DRIVER_ENCODE_IDX'', ''WIDE_ROAD_ENCODE_IDX'',
     ''MANAGER_STATE'', ''UPLOADER_STATE'', ''PERIPHERAL_STATE'', ''PANDA_STATES'',
     ''NAV_INSTRUCTION'', ''NAV_ROUTE'', ''NAV_THUMBNAIL'', ''ERROR_LOG_MESSAGE'',
     ''ROAD_ENCODE_DATA'', ''DRIVER_ENCODE_DATA'', ''WIDE_ROAD_ENCODE_DATA'', ''Q_ROAD_ENCODE_DATA'',
     ''Q_ROAD_ENCODE_IDX'', ''GNSS_MEASUREMENTS'', ''DRIVER_STATE_V2'', ''USER_BOOKMARK'',
     ''LIVE_TORQUE_PARAMETERS'', ''MAGNETOMETER'', ''LIGHT_SENSOR'', ''TEMPERATURE_SENSOR'',
     ''ACCELEROMETER'', ''GYROSCOPE'', ''GYROSCOPE2_D_E_P_R_E_C_A_T_E_D'', ''ACCELEROMETER2_D_E_P_R_E_C_A_T_E_D'',
     ''UI_DEBUG'', ''SOUND_PRESSURE'', ''NAV_MODEL_D_E_P_R_E_C_A_T_E_D'', ''MAP_RENDER_STATE'',
     ''UI_PLAN_D_E_P_R_E_C_A_T_E_D'', ''SELFDRIVE_STATE_S_P'', ''MODEL_MANAGER_S_P'', ''LONGITUDINAL_PLAN_S_P'',
     ''ONROAD_EVENTS_S_P'', ''CAR_PARAMS_S_P'', ''CAR_CONTROL_S_P'', ''BACKUP_MANAGER_S_P'',
     ''CAR_STATE_S_P'', ''LIVE_MAP_DATA_S_P'', ''MODEL_DATA_V2_S_P'', ''LIVESTREAM_ROAD_ENCODE_IDX'',
     ''LIVESTREAM_WIDE_ROAD_ENCODE_IDX'', ''LIVESTREAM_DRIVER_ENCODE_IDX'', ''LIVESTREAM_ROAD_ENCODE_DATA'', ''LIVESTREAM_WIDE_ROAD_ENCODE_DATA'',
     ''LIVESTREAM_DRIVER_ENCODE_DATA'', ''TEMPERATURE_SENSOR2_D_E_P_R_E_C_A_T_E_D'', ''CUSTOM_RESERVED_RAW_DATA0'', ''CUSTOM_RESERVED_RAW_DATA1'',
     ''CUSTOM_RESERVED_RAW_DATA2'', ''CAR_OUTPUT'', ''DRIVING_MODEL_DATA'', ''LIVE_POSE'',
     ''SELFDRIVE_STATE'', ''LIVE_TRACKS'', ''DRIVER_ASSISTANCE'', ''ALERT_DEBUG'',
     ''ONROAD_EVENTS'', ''TOUCH'', ''CUSTOM_RESERVED10'', ''CUSTOM_RESERVED11'',
     ''CUSTOM_RESERVED12'', ''CUSTOM_RESERVED13'', ''CUSTOM_RESERVED14'', ''CUSTOM_RESERVED15'',
     ''CUSTOM_RESERVED16'', ''CUSTOM_RESERVED17'', ''CUSTOM_RESERVED18'', ''CUSTOM_RESERVED19'',
     ''LIVE_DELAY'', ''RAW_AUDIO_DATA'', ''BOOKMARK_BUTTON'', ''AUDIO_FEEDBACK'',
     ''LATERAL_MANEUVER_PLAN'']"

text \<open>The name of a value, empty for one that a later schema may have added.\<close>

definition which_name :: "16 word \<Rightarrow> string" where
  "which_name w = (if unat w < length Event_Which then Event_Which ! unat w else [])"

definition event_which :: "'p struct_reader \<Rightarrow> string" where
  "event_which r = which_name (getDataField 4 r)"

definition event_getCan :: "('p, 'l) capnp_lib \<Rightarrow> 'p struct_reader \<Rightarrow> 'l result" where
  "event_getCan L r = get_list L (getPointerField 0 r)"

definition event_getSelfdriveState :: "('p, 'l) capnp_lib \<Rightarrow> 'p struct_reader \<Rightarrow> 'p struct_reader result" where
  "event_getSelfdriveState L r = get_struct L (getPointerField 0 r)"

definition event_getSelfdriveStateSP :: "('p, 'l) capnp_lib \<Rightarrow> 'p struct_reader \<Rightarrow> 'p struct_reader result" where
  "event_getSelfdriveStateSP L r = get_struct L (getPointerField 0 r)"

definition can_getAddress :: "'p struct_reader \<Rightarrow> u32" where
  "can_getAddress r = getDataField 0 r"

definition can_getSrc :: "'p struct_reader \<Rightarrow> u8" where
  "can_getSrc r = getDataField 6 r"

definition can_getDat :: "('p, 'l) capnp_lib \<Rightarrow> 'p struct_reader \<Rightarrow> bytes result" where
  "can_getDat L r = getBlob_Data L (getPointerField 0 r)"

definition sd_getActive :: "'p struct_reader \<Rightarrow> bool" where
  "sd_getActive r = getDataField_bool 17 r"

definition sd_getExperimentalMode :: "'p struct_reader \<Rightarrow> bool" where
  "sd_getExperimentalMode r = getDataField_bool 19 r"

definition sd_getAlertType :: "('p, 'l) capnp_lib \<Rightarrow> 'p struct_reader \<Rightarrow> string result" where
  "sd_getAlertType L r = getBlob_Text L (getPointerField 2 r)"

definition sp_getMads :: "('p, 'l) capnp_lib \<Rightarrow> 'p struct_reader \<Rightarrow> 'p struct_reader result" where
  "sp_getMads L r = get_struct L (getPointerField 0 r)"

definition mads_getActive :: "'p struct_reader \<Rightarrow> bool" where
  "mads_getActive r = getDataField_bool 17 r"

section \<open>Reading a message\<close>

definition read_can :: "('p, 'l) capnp_lib \<Rightarrow> 'p struct_reader \<Rightarrow> (u8 \<times> u32 \<times> bytes) result" where
  "read_can L c = bindE (can_getDat L c) (\<lambda>dat. Inr (can_getSrc c, can_getAddress c, dat))"

text \<open>What \<open>processMessage\<close> reads. The words of the message are its bytes without an incomplete last word.\<close>

definition read_event :: "('p, 'l) capnp_lib \<Rightarrow> bytes \<Rightarrow> event result" where
  "read_event L msg =
     bindE (getRoot L (take (8 * (length msg div 8)) msg)) (\<lambda>r.
       if event_which r = ''CAN'' then
         bindE (event_getCan L r) (\<lambda>canList. bindE (for_each L (read_can L) canList) (\<lambda>fs. Inr (Can fs)))
       else if event_which r = ''SELFDRIVE_STATE'' then
         bindE (event_getSelfdriveState L r) (\<lambda>sd. bindE (sd_getAlertType L sd) (\<lambda>alertType.
           Inr (Selfdrive_state (sd_getExperimentalMode sd) (sd_getActive sd) (c_str alertType))))
       else if event_which r = ''SELFDRIVE_STATE_S_P'' then
         bindE (event_getSelfdriveStateSP L r) (\<lambda>sp. bindE (sp_getMads L sp) (\<lambda>m.
           Inr (Selfdrive_state_sp (mads_getActive m))))
       else Inr Other_event)"

text \<open>An exception is not caught, by the receive loop or its callers.\<close>

definition processMessage_bytes :: "('p, 'l) capnp_lib \<Rightarrow> bytes \<Rightarrow> int \<Rightarrow> int \<Rightarrow> vehicle_decoder \<times> op_flags
    \<Rightarrow> ((vehicle_decoder \<times> op_flags) \<times> bool) result option" where
  "processMessage_bytes L msg t1 t2 st =
     (case read_event L msg of
        Inl e \<Rightarrow> Some (Inl e)
      | Inr ev \<Rightarrow> map_option Inr (processMessage ev t1 t2 st))"

end
