(* ===== verification/CapnpBuild.thy ===== *)
theory CapnpBuild
  imports Capnp
begin

text \<open>
  Builders, and all accessors of the messages that the program reads: \<open>StructBuilder\<close> of
  \<open>bridge/include/capnp/layout.h\<close>, and \<open>CanData\<close>, \<open>SelfdriveState\<close>, \<open>SelfdriveStateSP\<close>, \<open>ModularAssistiveDrivingSystem\<close> and the
  three members of \<open>Event\<close> in \<open>bridge/capnp/gen\<close>. The program only reads; the sender writes with these builders, so they are the
  description of what arrives.

  Writing through a pointer is again the runtime's, the record \<open>capnp_build\<close> over the type \<open>'b\<close> of what a pointer of a builder
  holds and the type \<open>'o\<close> of orphans. Its functions give the pointer after the call, which is allocated where it was null, with what a
  nested builder or an orphan then holds. Sizes of structs are in words of data and pointers, as the schema has them.
\<close>

section \<open>Struct builders\<close>

record 'b struct_builder =
  sb_data :: bytes
  sb_pointers :: "'b list"

record ('p, 'l, 'b, 'o) capnp_build =
  isNull_b :: "'b \<Rightarrow> bool"
  getStruct_b :: "nat \<times> nat \<Rightarrow> 'b \<Rightarrow> 'b \<times> 'b struct_builder"
  getList_b :: "nat \<times> nat \<Rightarrow> 'b \<Rightarrow> 'b \<times> 'b struct_builder list"
  getBlob_Data_b :: "'b \<Rightarrow> 'b \<times> bytes"
  getBlob_Text_b :: "'b \<Rightarrow> 'b \<times> string"
  initStruct :: "nat \<times> nat \<Rightarrow> 'b \<Rightarrow> 'b \<times> 'b struct_builder"
  initList :: "nat \<times> nat \<Rightarrow> 'b \<Rightarrow> u32 \<Rightarrow> 'b \<times> 'b struct_builder list"
  initBlob_Data :: "'b \<Rightarrow> u32 \<Rightarrow> 'b \<times> bytes"
  initBlob_Text :: "'b \<Rightarrow> u32 \<Rightarrow> 'b \<times> string"
  adopt :: "'b \<Rightarrow> 'o \<Rightarrow> 'b"
  disown :: "'b \<Rightarrow> 'b \<times> 'o"
  setStruct :: "'b \<Rightarrow> 'p struct_reader \<Rightarrow> 'b"
  setList :: "'b \<Rightarrow> 'l \<Rightarrow> 'b"
  setBlob_Data :: "'b \<Rightarrow> bytes \<Rightarrow> 'b"
  setBlob_Text :: "'b \<Rightarrow> string \<Rightarrow> 'b"

text \<open>There is no check of the offset: the sections of a builder have at least the size that the schema declares.\<close>

definition getDataField_b :: "nat \<Rightarrow> 'b struct_builder \<Rightarrow> 'a::len word" where
  "getDataField_b off b = ucast (le_word (take (LENGTH('a) div 8) (drop (off * (LENGTH('a) div 8)) (sb_data b))))"

definition getDataField_bool_b :: "nat \<Rightarrow> 'b struct_builder \<Rightarrow> bool" where
  "getDataField_bool_b off b \<longleftrightarrow> sb_data b ! (off div 8) AND push_bit (off mod 8) 1 \<noteq> 0"

definition setDataField :: "nat \<Rightarrow> 'a::len word \<Rightarrow> 'b struct_builder \<Rightarrow> 'b struct_builder" where
  "setDataField off value b =
     b\<lparr>sb_data := memcpy_at (off * (LENGTH('a) div 8)) (take (LENGTH('a) div 8) (word_bytes (ucast value))) (sb_data b)\<rparr>"

definition setDataField_bool :: "nat \<Rightarrow> bool \<Rightarrow> 'b struct_builder \<Rightarrow> 'b struct_builder" where
  "setDataField_bool off value b =
     (let bitnum = off mod 8
      in b\<lparr>sb_data := (sb_data b)[off div 8 :=
             (sb_data b ! (off div 8) AND NOT (push_bit bitnum 1)) OR push_bit bitnum (of_bool value)]\<rparr>)"

text \<open>Defaults other than zero: the value is stored as its exclusive or with the default.\<close>

definition mask_bool :: "bool \<Rightarrow> bool \<Rightarrow> bool" where
  "mask_bool value m \<longleftrightarrow> value \<noteq> m"

definition unmask_bool :: "bool \<Rightarrow> bool \<Rightarrow> bool" where
  "unmask_bool value m \<longleftrightarrow> value \<noteq> m"

definition getPointerField_b :: "nat \<Rightarrow> 'b struct_builder \<Rightarrow> 'b" where
  "getPointerField_b ptrIndex b = sb_pointers b ! ptrIndex"

text \<open>Changing what the pointer holds, as the setters of a \<open>PointerBuilder\<close> do.\<close>

definition setPointer :: "nat \<Rightarrow> ('b \<Rightarrow> 'b) \<Rightarrow> 'b struct_builder \<Rightarrow> 'b struct_builder" where
  "setPointer ptrIndex set_to b = b\<lparr>sb_pointers := (sb_pointers b)[ptrIndex := set_to (getPointerField_b ptrIndex b)]\<rparr>"

definition atPointer :: "nat \<Rightarrow> ('b \<Rightarrow> 'b \<times> 'c) \<Rightarrow> 'b struct_builder \<Rightarrow> 'b struct_builder \<times> 'c" where
  "atPointer ptrIndex call b =
     (case call (getPointerField_b ptrIndex b) of (p, result) \<Rightarrow> (b\<lparr>sb_pointers := (sb_pointers b)[ptrIndex := p]\<rparr>, result))"

section \<open>CAN frames\<close>

definition can_getAddress_b :: "'b struct_builder \<Rightarrow> u32" where
  "can_getAddress_b b = getDataField_b 0 b"

definition can_setAddress :: "u32 \<Rightarrow> 'b struct_builder \<Rightarrow> 'b struct_builder" where
  "can_setAddress value b = setDataField 0 value b"

definition can_hasDat :: "('p \<Rightarrow> bool) \<Rightarrow> 'p struct_reader \<Rightarrow> bool" where
  "can_hasDat isNull r = (case getPointerField 0 r of None \<Rightarrow> False | Some p \<Rightarrow> \<not> isNull p)"

definition can_hasDat_b :: "('p, 'l, 'b, 'o) capnp_build \<Rightarrow> 'b struct_builder \<Rightarrow> bool" where
  "can_hasDat_b W b = (\<not> isNull_b W (getPointerField_b 0 b))"

definition can_getDat_b :: "('p, 'l, 'b, 'o) capnp_build \<Rightarrow> 'b struct_builder \<Rightarrow> 'b struct_builder \<times> bytes" where
  "can_getDat_b W b = atPointer 0 (getBlob_Data_b W) b"

definition can_initDat :: "('p, 'l, 'b, 'o) capnp_build \<Rightarrow> u32 \<Rightarrow> 'b struct_builder \<Rightarrow> 'b struct_builder \<times> bytes" where
  "can_initDat W sz b = atPointer 0 (\<lambda>p. initBlob_Data W p sz) b"

definition can_adoptDat :: "('p, 'l, 'b, 'o) capnp_build \<Rightarrow> 'o \<Rightarrow> 'b struct_builder \<Rightarrow> 'b struct_builder" where
  "can_adoptDat W value b = setPointer 0 (\<lambda>p. adopt W p value) b"

definition can_disownDat :: "('p, 'l, 'b, 'o) capnp_build \<Rightarrow> 'b struct_builder \<Rightarrow> 'b struct_builder \<times> 'o" where
  "can_disownDat W b = atPointer 0 (disown W) b"

definition can_setDat :: "('p, 'l, 'b, 'o) capnp_build \<Rightarrow> bytes \<Rightarrow> 'b struct_builder \<Rightarrow> 'b struct_builder" where
  "can_setDat W value b = setPointer 0 (\<lambda>p. setBlob_Data W p value) b"

definition can_getSrc_b :: "'b struct_builder \<Rightarrow> u8" where
  "can_getSrc_b b = getDataField_b 6 b"

definition can_setSrc :: "u8 \<Rightarrow> 'b struct_builder \<Rightarrow> 'b struct_builder" where
  "can_setSrc value b = setDataField 6 value b"

text \<open>The group of deprecated fields is a view of the same struct.\<close>

definition can_getBusTime :: "'p struct_reader \<Rightarrow> 16 word" where
  "can_getBusTime r = getDataField 2 r"

definition can_getBusTime_b :: "'b struct_builder \<Rightarrow> 16 word" where
  "can_getBusTime_b b = getDataField_b 2 b"

definition can_setBusTime :: "16 word \<Rightarrow> 'b struct_builder \<Rightarrow> 'b struct_builder" where
  "can_setBusTime value b = setDataField 2 value b"

definition can_initDeprecated :: "'b struct_builder \<Rightarrow> 'b struct_builder" where
  "can_initDeprecated b = setDataField 2 (0 :: 16 word) b"

section \<open>The self-driving state\<close>

text \<open>An enumeration is the word that holds it: a later schema may have added enumerators.\<close>

definition sd_getState :: "'p struct_reader \<Rightarrow> 16 word" where
  "sd_getState r = getDataField 0 r"

definition sd_getState_b :: "'b struct_builder \<Rightarrow> 16 word" where
  "sd_getState_b b = getDataField_b 0 b"

definition sd_setState :: "16 word \<Rightarrow> 'b struct_builder \<Rightarrow> 'b struct_builder" where
  "sd_setState value b = setDataField 0 value b"

definition sd_getEnabled :: "'p struct_reader \<Rightarrow> bool" where
  "sd_getEnabled r = getDataField_bool 16 r"

definition sd_getEnabled_b :: "'b struct_builder \<Rightarrow> bool" where
  "sd_getEnabled_b b = getDataField_bool_b 16 b"

definition sd_setEnabled :: "bool \<Rightarrow> 'b struct_builder \<Rightarrow> 'b struct_builder" where
  "sd_setEnabled value b = setDataField_bool 16 value b"

definition sd_getActive_b :: "'b struct_builder \<Rightarrow> bool" where
  "sd_getActive_b b = getDataField_bool_b 17 b"

definition sd_setActive :: "bool \<Rightarrow> 'b struct_builder \<Rightarrow> 'b struct_builder" where
  "sd_setActive value b = setDataField_bool 17 value b"

definition sd_hasAlertText1 :: "('p \<Rightarrow> bool) \<Rightarrow> 'p struct_reader \<Rightarrow> bool" where
  "sd_hasAlertText1 isNull r = (case getPointerField 0 r of None \<Rightarrow> False | Some p \<Rightarrow> \<not> isNull p)"

definition sd_hasAlertText1_b :: "('p, 'l, 'b, 'o) capnp_build \<Rightarrow> 'b struct_builder \<Rightarrow> bool" where
  "sd_hasAlertText1_b W b = (\<not> isNull_b W (getPointerField_b 0 b))"

definition sd_getAlertText1 :: "('p, 'l) capnp_lib \<Rightarrow> 'p struct_reader \<Rightarrow> string result" where
  "sd_getAlertText1 L r = getBlob_Text L (getPointerField 0 r)"

definition sd_getAlertText1_b :: "('p, 'l, 'b, 'o) capnp_build \<Rightarrow> 'b struct_builder \<Rightarrow> 'b struct_builder \<times> string" where
  "sd_getAlertText1_b W b = atPointer 0 (getBlob_Text_b W) b"

definition sd_initAlertText1 :: "('p, 'l, 'b, 'o) capnp_build \<Rightarrow> u32 \<Rightarrow> 'b struct_builder \<Rightarrow> 'b struct_builder \<times> string" where
  "sd_initAlertText1 W sz b = atPointer 0 (\<lambda>p. initBlob_Text W p sz) b"

definition sd_adoptAlertText1 :: "('p, 'l, 'b, 'o) capnp_build \<Rightarrow> 'o \<Rightarrow> 'b struct_builder \<Rightarrow> 'b struct_builder" where
  "sd_adoptAlertText1 W value b = setPointer 0 (\<lambda>p. adopt W p value) b"

definition sd_disownAlertText1 :: "('p, 'l, 'b, 'o) capnp_build \<Rightarrow> 'b struct_builder \<Rightarrow> 'b struct_builder \<times> 'o" where
  "sd_disownAlertText1 W b = atPointer 0 (disown W) b"

definition sd_setAlertText1 :: "('p, 'l, 'b, 'o) capnp_build \<Rightarrow> string \<Rightarrow> 'b struct_builder \<Rightarrow> 'b struct_builder" where
  "sd_setAlertText1 W value b = setPointer 0 (\<lambda>p. setBlob_Text W p value) b"

definition sd_hasAlertText2 :: "('p \<Rightarrow> bool) \<Rightarrow> 'p struct_reader \<Rightarrow> bool" where
  "sd_hasAlertText2 isNull r = (case getPointerField 1 r of None \<Rightarrow> False | Some p \<Rightarrow> \<not> isNull p)"

definition sd_hasAlertText2_b :: "('p, 'l, 'b, 'o) capnp_build \<Rightarrow> 'b struct_builder \<Rightarrow> bool" where
  "sd_hasAlertText2_b W b = (\<not> isNull_b W (getPointerField_b 1 b))"

definition sd_getAlertText2 :: "('p, 'l) capnp_lib \<Rightarrow> 'p struct_reader \<Rightarrow> string result" where
  "sd_getAlertText2 L r = getBlob_Text L (getPointerField 1 r)"

definition sd_getAlertText2_b :: "('p, 'l, 'b, 'o) capnp_build \<Rightarrow> 'b struct_builder \<Rightarrow> 'b struct_builder \<times> string" where
  "sd_getAlertText2_b W b = atPointer 1 (getBlob_Text_b W) b"

definition sd_initAlertText2 :: "('p, 'l, 'b, 'o) capnp_build \<Rightarrow> u32 \<Rightarrow> 'b struct_builder \<Rightarrow> 'b struct_builder \<times> string" where
  "sd_initAlertText2 W sz b = atPointer 1 (\<lambda>p. initBlob_Text W p sz) b"

definition sd_adoptAlertText2 :: "('p, 'l, 'b, 'o) capnp_build \<Rightarrow> 'o \<Rightarrow> 'b struct_builder \<Rightarrow> 'b struct_builder" where
  "sd_adoptAlertText2 W value b = setPointer 1 (\<lambda>p. adopt W p value) b"

definition sd_disownAlertText2 :: "('p, 'l, 'b, 'o) capnp_build \<Rightarrow> 'b struct_builder \<Rightarrow> 'b struct_builder \<times> 'o" where
  "sd_disownAlertText2 W b = atPointer 1 (disown W) b"

definition sd_setAlertText2 :: "('p, 'l, 'b, 'o) capnp_build \<Rightarrow> string \<Rightarrow> 'b struct_builder \<Rightarrow> 'b struct_builder" where
  "sd_setAlertText2 W value b = setPointer 1 (\<lambda>p. setBlob_Text W p value) b"

definition sd_getAlertStatus :: "'p struct_reader \<Rightarrow> 16 word" where
  "sd_getAlertStatus r = getDataField 2 r"

definition sd_getAlertStatus_b :: "'b struct_builder \<Rightarrow> 16 word" where
  "sd_getAlertStatus_b b = getDataField_b 2 b"

definition sd_setAlertStatus :: "16 word \<Rightarrow> 'b struct_builder \<Rightarrow> 'b struct_builder" where
  "sd_setAlertStatus value b = setDataField 2 value b"

definition sd_getAlertSize :: "'p struct_reader \<Rightarrow> 16 word" where
  "sd_getAlertSize r = getDataField 3 r"

definition sd_getAlertSize_b :: "'b struct_builder \<Rightarrow> 16 word" where
  "sd_getAlertSize_b b = getDataField_b 3 b"

definition sd_setAlertSize :: "16 word \<Rightarrow> 'b struct_builder \<Rightarrow> 'b struct_builder" where
  "sd_setAlertSize value b = setDataField 3 value b"

definition sd_hasAlertType :: "('p \<Rightarrow> bool) \<Rightarrow> 'p struct_reader \<Rightarrow> bool" where
  "sd_hasAlertType isNull r = (case getPointerField 2 r of None \<Rightarrow> False | Some p \<Rightarrow> \<not> isNull p)"

definition sd_hasAlertType_b :: "('p, 'l, 'b, 'o) capnp_build \<Rightarrow> 'b struct_builder \<Rightarrow> bool" where
  "sd_hasAlertType_b W b = (\<not> isNull_b W (getPointerField_b 2 b))"

definition sd_getAlertType_b :: "('p, 'l, 'b, 'o) capnp_build \<Rightarrow> 'b struct_builder \<Rightarrow> 'b struct_builder \<times> string" where
  "sd_getAlertType_b W b = atPointer 2 (getBlob_Text_b W) b"

definition sd_initAlertType :: "('p, 'l, 'b, 'o) capnp_build \<Rightarrow> u32 \<Rightarrow> 'b struct_builder \<Rightarrow> 'b struct_builder \<times> string" where
  "sd_initAlertType W sz b = atPointer 2 (\<lambda>p. initBlob_Text W p sz) b"

definition sd_adoptAlertType :: "('p, 'l, 'b, 'o) capnp_build \<Rightarrow> 'o \<Rightarrow> 'b struct_builder \<Rightarrow> 'b struct_builder" where
  "sd_adoptAlertType W value b = setPointer 2 (\<lambda>p. adopt W p value) b"

definition sd_disownAlertType :: "('p, 'l, 'b, 'o) capnp_build \<Rightarrow> 'b struct_builder \<Rightarrow> 'b struct_builder \<times> 'o" where
  "sd_disownAlertType W b = atPointer 2 (disown W) b"

definition sd_setAlertType :: "('p, 'l, 'b, 'o) capnp_build \<Rightarrow> string \<Rightarrow> 'b struct_builder \<Rightarrow> 'b struct_builder" where
  "sd_setAlertType W value b = setPointer 2 (\<lambda>p. setBlob_Text W p value) b"

definition sd_getAlertSound :: "'p struct_reader \<Rightarrow> 16 word" where
  "sd_getAlertSound r = getDataField 4 r"

definition sd_getAlertSound_b :: "'b struct_builder \<Rightarrow> 16 word" where
  "sd_getAlertSound_b b = getDataField_b 4 b"

definition sd_setAlertSound :: "16 word \<Rightarrow> 'b struct_builder \<Rightarrow> 'b struct_builder" where
  "sd_setAlertSound value b = setDataField 4 value b"

definition sd_getEngageable :: "'p struct_reader \<Rightarrow> bool" where
  "sd_getEngageable r = getDataField_bool 18 r"

definition sd_getEngageable_b :: "'b struct_builder \<Rightarrow> bool" where
  "sd_getEngageable_b b = getDataField_bool_b 18 b"

definition sd_setEngageable :: "bool \<Rightarrow> 'b struct_builder \<Rightarrow> 'b struct_builder" where
  "sd_setEngageable value b = setDataField_bool 18 value b"

definition sd_getExperimentalMode_b :: "'b struct_builder \<Rightarrow> bool" where
  "sd_getExperimentalMode_b b = getDataField_bool_b 19 b"

definition sd_setExperimentalMode :: "bool \<Rightarrow> 'b struct_builder \<Rightarrow> 'b struct_builder" where
  "sd_setExperimentalMode value b = setDataField_bool 19 value b"

definition sd_getPersonality :: "'p struct_reader \<Rightarrow> 16 word" where
  "sd_getPersonality r = getDataField 5 r"

definition sd_getPersonality_b :: "'b struct_builder \<Rightarrow> 16 word" where
  "sd_getPersonality_b b = getDataField_b 5 b"

definition sd_setPersonality :: "16 word \<Rightarrow> 'b struct_builder \<Rightarrow> 'b struct_builder" where
  "sd_setPersonality value b = setDataField 5 value b"

definition sd_getAlertHudVisual :: "'p struct_reader \<Rightarrow> 16 word" where
  "sd_getAlertHudVisual r = getDataField 6 r"

definition sd_getAlertHudVisual_b :: "'b struct_builder \<Rightarrow> 16 word" where
  "sd_getAlertHudVisual_b b = getDataField_b 6 b"

definition sd_setAlertHudVisual :: "16 word \<Rightarrow> 'b struct_builder \<Rightarrow> 'b struct_builder" where
  "sd_setAlertHudVisual value b = setDataField 6 value b"

section \<open>The state of the assistance system\<close>

definition mads_getState :: "'p struct_reader \<Rightarrow> 16 word" where
  "mads_getState r = getDataField 0 r"

definition mads_getState_b :: "'b struct_builder \<Rightarrow> 16 word" where
  "mads_getState_b b = getDataField_b 0 b"

definition mads_setState :: "16 word \<Rightarrow> 'b struct_builder \<Rightarrow> 'b struct_builder" where
  "mads_setState value b = setDataField 0 value b"

definition mads_getEnabled :: "'p struct_reader \<Rightarrow> bool" where
  "mads_getEnabled r = getDataField_bool 16 r"

definition mads_getEnabled_b :: "'b struct_builder \<Rightarrow> bool" where
  "mads_getEnabled_b b = getDataField_bool_b 16 b"

definition mads_setEnabled :: "bool \<Rightarrow> 'b struct_builder \<Rightarrow> 'b struct_builder" where
  "mads_setEnabled value b = setDataField_bool 16 value b"

definition mads_getActive_b :: "'b struct_builder \<Rightarrow> bool" where
  "mads_getActive_b b = getDataField_bool_b 17 b"

definition mads_setActive :: "bool \<Rightarrow> 'b struct_builder \<Rightarrow> 'b struct_builder" where
  "mads_setActive value b = setDataField_bool 17 value b"

definition mads_getAvailable :: "'p struct_reader \<Rightarrow> bool" where
  "mads_getAvailable r = getDataField_bool 18 r"

definition mads_getAvailable_b :: "'b struct_builder \<Rightarrow> bool" where
  "mads_getAvailable_b b = getDataField_bool_b 18 b"

definition mads_setAvailable :: "bool \<Rightarrow> 'b struct_builder \<Rightarrow> 'b struct_builder" where
  "mads_setAvailable value b = setDataField_bool 18 value b"

definition sp_hasMads :: "('p \<Rightarrow> bool) \<Rightarrow> 'p struct_reader \<Rightarrow> bool" where
  "sp_hasMads isNull r = (case getPointerField 0 r of None \<Rightarrow> False | Some p \<Rightarrow> \<not> isNull p)"

definition sp_hasMads_b :: "('p, 'l, 'b, 'o) capnp_build \<Rightarrow> 'b struct_builder \<Rightarrow> bool" where
  "sp_hasMads_b W b = (\<not> isNull_b W (getPointerField_b 0 b))"

definition sp_getMads_b :: "('p, 'l, 'b, 'o) capnp_build \<Rightarrow> 'b struct_builder \<Rightarrow> 'b struct_builder \<times> 'b struct_builder" where
  "sp_getMads_b W b = atPointer 0 (getStruct_b W (1, 0)) b"

definition sp_initMads :: "('p, 'l, 'b, 'o) capnp_build \<Rightarrow> 'b struct_builder \<Rightarrow> 'b struct_builder \<times> 'b struct_builder" where
  "sp_initMads W b = atPointer 0 (\<lambda>p. initStruct W (1, 0) p) b"

definition sp_adoptMads :: "('p, 'l, 'b, 'o) capnp_build \<Rightarrow> 'o \<Rightarrow> 'b struct_builder \<Rightarrow> 'b struct_builder" where
  "sp_adoptMads W value b = setPointer 0 (\<lambda>p. adopt W p value) b"

definition sp_disownMads :: "('p, 'l, 'b, 'o) capnp_build \<Rightarrow> 'b struct_builder \<Rightarrow> 'b struct_builder \<times> 'o" where
  "sp_disownMads W b = atPointer 0 (disown W) b"

definition sp_setMads :: "('p, 'l, 'b, 'o) capnp_build \<Rightarrow> 'p struct_reader \<Rightarrow> 'b struct_builder \<Rightarrow> 'b struct_builder" where
  "sp_setMads W value b = setPointer 0 (\<lambda>p. setStruct W p value) b"

definition sp_getIntelligentCruiseButtonManagement :: "('p, 'l) capnp_lib \<Rightarrow> 'p struct_reader \<Rightarrow> 'p struct_reader result" where
  "sp_getIntelligentCruiseButtonManagement L r = get_struct L (getPointerField 1 r)"

definition sp_hasIntelligentCruiseButtonManagement :: "('p \<Rightarrow> bool) \<Rightarrow> 'p struct_reader \<Rightarrow> bool" where
  "sp_hasIntelligentCruiseButtonManagement isNull r = (case getPointerField 1 r of None \<Rightarrow> False | Some p \<Rightarrow> \<not> isNull p)"

definition sp_hasIntelligentCruiseButtonManagement_b :: "('p, 'l, 'b, 'o) capnp_build \<Rightarrow> 'b struct_builder \<Rightarrow> bool" where
  "sp_hasIntelligentCruiseButtonManagement_b W b = (\<not> isNull_b W (getPointerField_b 1 b))"

definition sp_getIntelligentCruiseButtonManagement_b :: "('p, 'l, 'b, 'o) capnp_build \<Rightarrow> 'b struct_builder \<Rightarrow> 'b struct_builder \<times> 'b struct_builder" where
  "sp_getIntelligentCruiseButtonManagement_b W b = atPointer 1 (getStruct_b W (1, 0)) b"

definition sp_initIntelligentCruiseButtonManagement :: "('p, 'l, 'b, 'o) capnp_build \<Rightarrow> 'b struct_builder \<Rightarrow> 'b struct_builder \<times> 'b struct_builder" where
  "sp_initIntelligentCruiseButtonManagement W b = atPointer 1 (\<lambda>p. initStruct W (1, 0) p) b"

definition sp_adoptIntelligentCruiseButtonManagement :: "('p, 'l, 'b, 'o) capnp_build \<Rightarrow> 'o \<Rightarrow> 'b struct_builder \<Rightarrow> 'b struct_builder" where
  "sp_adoptIntelligentCruiseButtonManagement W value b = setPointer 1 (\<lambda>p. adopt W p value) b"

definition sp_disownIntelligentCruiseButtonManagement :: "('p, 'l, 'b, 'o) capnp_build \<Rightarrow> 'b struct_builder \<Rightarrow> 'b struct_builder \<times> 'o" where
  "sp_disownIntelligentCruiseButtonManagement W b = atPointer 1 (disown W) b"

definition sp_setIntelligentCruiseButtonManagement :: "('p, 'l, 'b, 'o) capnp_build \<Rightarrow> 'p struct_reader \<Rightarrow> 'b struct_builder \<Rightarrow> 'b struct_builder" where
  "sp_setIntelligentCruiseButtonManagement W value b = setPointer 1 (\<lambda>p. setStruct W p value) b"

section \<open>Events\<close>

definition event_which_b :: "'b struct_builder \<Rightarrow> string" where
  "event_which_b b = which_name (getDataField_b 4 b)"

definition event_getLogMonoTime :: "'p struct_reader \<Rightarrow> u64" where
  "event_getLogMonoTime r = getDataField 0 r"

definition event_getLogMonoTime_b :: "'b struct_builder \<Rightarrow> u64" where
  "event_getLogMonoTime_b b = getDataField_b 0 b"

definition event_setLogMonoTime :: "u64 \<Rightarrow> 'b struct_builder \<Rightarrow> 'b struct_builder" where
  "event_setLogMonoTime value b = setDataField 0 value b"

text \<open>The default of \<open>valid\<close> is true: the stored bit is its complement.\<close>

definition event_getValid :: "'p struct_reader \<Rightarrow> bool" where
  "event_getValid r = unmask_bool (getDataField_bool 80 r) True"

definition event_getValid_b :: "'b struct_builder \<Rightarrow> bool" where
  "event_getValid_b b = unmask_bool (getDataField_bool_b 80 b) True"

definition event_setValid :: "bool \<Rightarrow> 'b struct_builder \<Rightarrow> 'b struct_builder" where
  "event_setValid value b = setDataField_bool 80 (mask_bool value True) b"

text \<open>A member of the union: its setter writes the discriminant first, its readers check it.\<close>

definition event_isCan :: "'p struct_reader \<Rightarrow> bool" where
  "event_isCan r = (event_which r = ''CAN'')"

definition event_isCan_b :: "'b struct_builder \<Rightarrow> bool" where
  "event_isCan_b b = (event_which_b b = ''CAN'')"

definition event_hasCan :: "('p \<Rightarrow> bool) \<Rightarrow> 'p struct_reader \<Rightarrow> bool" where
  "event_hasCan isNull r =
     (if event_which r \<noteq> ''CAN'' then False
      else case getPointerField 0 r of None \<Rightarrow> False | Some p \<Rightarrow> \<not> isNull p)"

definition event_hasCan_b :: "('p, 'l, 'b, 'o) capnp_build \<Rightarrow> 'b struct_builder \<Rightarrow> bool" where
  "event_hasCan_b W b =
     (if event_which_b b \<noteq> ''CAN'' then False else \<not> isNull_b W (getPointerField_b 0 b))"

definition event_getCan_b :: "('p, 'l, 'b, 'o) capnp_build \<Rightarrow> 'b struct_builder \<Rightarrow> 'b struct_builder \<times> 'b struct_builder list" where
  "event_getCan_b W b = atPointer 0 (getList_b W (1, 1)) b"

definition event_initCan :: "('p, 'l, 'b, 'o) capnp_build \<Rightarrow> u32 \<Rightarrow> 'b struct_builder \<Rightarrow> 'b struct_builder \<times> 'b struct_builder list" where
  "event_initCan W sz b = atPointer 0 (\<lambda>p. initList W (1, 1) p sz) (setDataField 4 (4 :: 16 word) b)"

definition event_adoptCan :: "('p, 'l, 'b, 'o) capnp_build \<Rightarrow> 'o \<Rightarrow> 'b struct_builder \<Rightarrow> 'b struct_builder" where
  "event_adoptCan W value b = setPointer 0 (\<lambda>p. adopt W p value) (setDataField 4 (4 :: 16 word) b)"

definition event_disownCan :: "('p, 'l, 'b, 'o) capnp_build \<Rightarrow> 'b struct_builder \<Rightarrow> 'b struct_builder \<times> 'o" where
  "event_disownCan W b = atPointer 0 (disown W) b"

definition event_setCan :: "('p, 'l, 'b, 'o) capnp_build \<Rightarrow> 'l \<Rightarrow> 'b struct_builder \<Rightarrow> 'b struct_builder" where
  "event_setCan W value b =
     setPointer 0 (\<lambda>p. setList W p value) (setDataField 4 (4 :: 16 word) b)"

definition event_isSelfdriveState :: "'p struct_reader \<Rightarrow> bool" where
  "event_isSelfdriveState r = (event_which r = ''SELFDRIVE_STATE'')"

definition event_isSelfdriveState_b :: "'b struct_builder \<Rightarrow> bool" where
  "event_isSelfdriveState_b b = (event_which_b b = ''SELFDRIVE_STATE'')"

definition event_hasSelfdriveState :: "('p \<Rightarrow> bool) \<Rightarrow> 'p struct_reader \<Rightarrow> bool" where
  "event_hasSelfdriveState isNull r =
     (if event_which r \<noteq> ''SELFDRIVE_STATE'' then False
      else case getPointerField 0 r of None \<Rightarrow> False | Some p \<Rightarrow> \<not> isNull p)"

definition event_hasSelfdriveState_b :: "('p, 'l, 'b, 'o) capnp_build \<Rightarrow> 'b struct_builder \<Rightarrow> bool" where
  "event_hasSelfdriveState_b W b =
     (if event_which_b b \<noteq> ''SELFDRIVE_STATE'' then False else \<not> isNull_b W (getPointerField_b 0 b))"

definition event_getSelfdriveState_b :: "('p, 'l, 'b, 'o) capnp_build \<Rightarrow> 'b struct_builder \<Rightarrow> 'b struct_builder \<times> 'b struct_builder" where
  "event_getSelfdriveState_b W b = atPointer 0 (getStruct_b W (2, 3)) b"

definition event_initSelfdriveState :: "('p, 'l, 'b, 'o) capnp_build \<Rightarrow> 'b struct_builder \<Rightarrow> 'b struct_builder \<times> 'b struct_builder" where
  "event_initSelfdriveState W b = atPointer 0 (\<lambda>p. initStruct W (2, 3) p) (setDataField 4 (128 :: 16 word) b)"

definition event_adoptSelfdriveState :: "('p, 'l, 'b, 'o) capnp_build \<Rightarrow> 'o \<Rightarrow> 'b struct_builder \<Rightarrow> 'b struct_builder" where
  "event_adoptSelfdriveState W value b = setPointer 0 (\<lambda>p. adopt W p value) (setDataField 4 (128 :: 16 word) b)"

definition event_disownSelfdriveState :: "('p, 'l, 'b, 'o) capnp_build \<Rightarrow> 'b struct_builder \<Rightarrow> 'b struct_builder \<times> 'o" where
  "event_disownSelfdriveState W b = atPointer 0 (disown W) b"

definition event_setSelfdriveState :: "('p, 'l, 'b, 'o) capnp_build \<Rightarrow> 'p struct_reader \<Rightarrow> 'b struct_builder \<Rightarrow> 'b struct_builder" where
  "event_setSelfdriveState W value b =
     setPointer 0 (\<lambda>p. setStruct W p value) (setDataField 4 (128 :: 16 word) b)"

definition event_isSelfdriveStateSP :: "'p struct_reader \<Rightarrow> bool" where
  "event_isSelfdriveStateSP r = (event_which r = ''SELFDRIVE_STATE_S_P'')"

definition event_isSelfdriveStateSP_b :: "'b struct_builder \<Rightarrow> bool" where
  "event_isSelfdriveStateSP_b b = (event_which_b b = ''SELFDRIVE_STATE_S_P'')"

definition event_hasSelfdriveStateSP :: "('p \<Rightarrow> bool) \<Rightarrow> 'p struct_reader \<Rightarrow> bool" where
  "event_hasSelfdriveStateSP isNull r =
     (if event_which r \<noteq> ''SELFDRIVE_STATE_S_P'' then False
      else case getPointerField 0 r of None \<Rightarrow> False | Some p \<Rightarrow> \<not> isNull p)"

definition event_hasSelfdriveStateSP_b :: "('p, 'l, 'b, 'o) capnp_build \<Rightarrow> 'b struct_builder \<Rightarrow> bool" where
  "event_hasSelfdriveStateSP_b W b =
     (if event_which_b b \<noteq> ''SELFDRIVE_STATE_S_P'' then False else \<not> isNull_b W (getPointerField_b 0 b))"

definition event_getSelfdriveStateSP_b :: "('p, 'l, 'b, 'o) capnp_build \<Rightarrow> 'b struct_builder \<Rightarrow> 'b struct_builder \<times> 'b struct_builder" where
  "event_getSelfdriveStateSP_b W b = atPointer 0 (getStruct_b W (0, 2)) b"

definition event_initSelfdriveStateSP :: "('p, 'l, 'b, 'o) capnp_build \<Rightarrow> 'b struct_builder \<Rightarrow> 'b struct_builder \<times> 'b struct_builder" where
  "event_initSelfdriveStateSP W b = atPointer 0 (\<lambda>p. initStruct W (0, 2) p) (setDataField 4 (105 :: 16 word) b)"

definition event_adoptSelfdriveStateSP :: "('p, 'l, 'b, 'o) capnp_build \<Rightarrow> 'o \<Rightarrow> 'b struct_builder \<Rightarrow> 'b struct_builder" where
  "event_adoptSelfdriveStateSP W value b = setPointer 0 (\<lambda>p. adopt W p value) (setDataField 4 (105 :: 16 word) b)"

definition event_disownSelfdriveStateSP :: "('p, 'l, 'b, 'o) capnp_build \<Rightarrow> 'b struct_builder \<Rightarrow> 'b struct_builder \<times> 'o" where
  "event_disownSelfdriveStateSP W b = atPointer 0 (disown W) b"

definition event_setSelfdriveStateSP :: "('p, 'l, 'b, 'o) capnp_build \<Rightarrow> 'p struct_reader \<Rightarrow> 'b struct_builder \<Rightarrow> 'b struct_builder" where
  "event_setSelfdriveStateSP W value b =
     setPointer 0 (\<lambda>p. setStruct W p value) (setDataField 4 (105 :: 16 word) b)"

end
