(* ===== verification/CapnpFields.thy ===== *)
theory CapnpFields
  imports CapnpBuild
begin

text \<open>
  The fields of a struct are independent: what a setter of a builder writes, its getter reads back, and every field in other bits
  of the data section keeps its value. Stated once on the bits, for words of any size and flags.
\<close>

section \<open>Data sections as bits\<close>

definition data_bit :: "bytes \<Rightarrow> nat \<Rightarrow> bool" where
  "data_bit d i \<longleftrightarrow> bit (d ! (i div 8)) (i mod 8)"

text \<open>Words that are stored as whole bytes.\<close>

definition bytewise :: "'a::len word itself \<Rightarrow> bool" where
  "bytewise t \<longleftrightarrow> 8 * (LENGTH('a) div 8) = LENGTH('a) \<and> LENGTH('a) \<le> 64"

lemma bytewise [simp]:
  "bytewise TYPE(8 word)" "bytewise TYPE(16 word)" "bytewise TYPE(32 word)" "bytewise TYPE(64 word)"
  by (simp_all add: bytewise_def)

lemma bytewiseD: "bytewise TYPE('a::len word) \<Longrightarrow> \<exists>k. LENGTH('a) = 8 * k \<and> LENGTH('a) div 8 = k \<and> k \<le> 8"
  by (rule exI [of _ "LENGTH('a) div 8"]) (auto simp: bytewise_def)

lemma bit_position: "(off * (8 * k) + n) div 8 = off * k + n div 8" "(off * (8 * k) + n) mod 8 = n mod 8" for off k n :: nat
  by (simp_all add: mult.left_commute [of off 8 k])

lemma byte_range: "8 * a \<le> i \<and> i < 8 * a + 8 * k \<longleftrightarrow> a \<le> i div 8 \<and> i div 8 < a + k" for a i k :: nat
proof (intro iffI conjI)
  assume "8 * a \<le> i \<and> i < 8 * a + 8 * k"
  then show "a \<le> i div 8" "i div 8 < a + k" by linarith+
next
  assume "a \<le> i div 8 \<and> i div 8 < a + k"
  then show "8 * a \<le> i" "i < 8 * a + 8 * k" by linarith+
qed

lemma bit_getDataField_b:
  assumes w: "bytewise TYPE('a::len word)" and le: "off * LENGTH('a) + LENGTH('a) \<le> 8 * length (sb_data b)"
  shows "bit (getDataField_b off b :: 'a word) n \<longleftrightarrow> n < LENGTH('a) \<and> data_bit (sb_data b) (off * LENGTH('a) + n)"
proof -
  obtain k where k: "LENGTH('a) = 8 * k" "LENGTH('a) div 8 = k" "k \<le> 8"
    using bytewiseD [OF w] by blast
  have "off * k + k \<le> length (sb_data b)" using le by (simp add: k(1) mult.left_commute [of off 8 k])
  moreover have "n < 8 * k \<Longrightarrow> n div 8 < k" by (simp add: less_mult_imp_div_less mult.commute)
  ultimately show ?thesis
    using k by (auto simp: getDataField_b_def data_bit_def bit_unsigned_iff bit_le_word bit_position)
qed

lemma bit_getDataField_bool_b: "getDataField_bool_b off b \<longleftrightarrow> data_bit (sb_data b) off"
  by (simp add: getDataField_bool_b_def data_bit_def and_exp_eq_0_iff_not_bit push_bit_of_1)

lemma length_setDataField:
  assumes w: "bytewise TYPE('a::len word)" and le: "off * LENGTH('a) + LENGTH('a) \<le> 8 * length (sb_data b)"
  shows "length (sb_data (setDataField off (v :: 'a word) b)) = length (sb_data b)"
proof -
  obtain k where k: "LENGTH('a) = 8 * k" "LENGTH('a) div 8 = k" "k \<le> 8"
    using bytewiseD [OF w] by blast
  then have "off * k + k \<le> length (sb_data b)" using le by (simp add: mult.left_commute [of off 8 k])
  then show ?thesis using k by (simp add: setDataField_def length_memcpy_at)
qed

lemma length_setDataField_bool [simp]: "length (sb_data (setDataField_bool off v b)) = length (sb_data b)"
  by (simp add: setDataField_bool_def Let_def)

lemma data_bit_setDataField:
  assumes w: "bytewise TYPE('a::len word)" and le: "off * LENGTH('a) + LENGTH('a) \<le> 8 * length (sb_data b)"
    and i: "i < 8 * length (sb_data b)"
  shows "data_bit (sb_data (setDataField off (v :: 'a word) b)) i =
    (if off * LENGTH('a) \<le> i \<and> i < off * LENGTH('a) + LENGTH('a) then bit v (i - off * LENGTH('a)) else data_bit (sb_data b) i)"
proof -
  obtain k where k: "LENGTH('a) = 8 * k" "LENGTH('a) div 8 = k" "k \<le> 8"
    using bytewiseD [OF w] by blast
  let ?bs = "take k (word_bytes (ucast v))"
  have le': "off * k + length ?bs \<le> length (sb_data b)" and len: "length ?bs = k"
    using le k by (simp_all add: mult.left_commute [of off 8 k])
  have j: "i div 8 < length (sb_data b)" using i by linarith
  have inside: "off * (8 * k) \<le> i \<and> i < off * (8 * k) + 8 * k \<longleftrightarrow> off * k \<le> i div 8 \<and> i div 8 < off * k + k"
    unfolding mult.left_commute [of off 8 k] by (rule byte_range)
  have byte: "bit (?bs ! (i div 8 - off * k)) (i mod 8) = bit v (i - off * (8 * k))" if "off * k \<le> i div 8" "i div 8 < off * k + k"
  proof -
    have "off * (8 * k) \<le> i" "i < off * (8 * k) + 8 * k" using that inside by blast+
    then obtain m where m: "i = off * (8 * k) + m" "m < 8 * k" by (metis le_add_diff_inverse nat_add_left_cancel_less)
    then have mk: "m div 8 < k" "m div 8 < 8" using k(3) by linarith+
    have "8 * (m div 8) + m mod 8 = m" by simp
    then show ?thesis using mk m(2) k
      by (simp add: m(1) bit_position word_bytes_def bit_unsigned_iff bit_drop_bit_eq)
  qed
  have "sb_data (setDataField off v b) ! (i div 8) =
      (if off * k \<le> i div 8 \<and> i div 8 < off * k + k then ?bs ! (i div 8 - off * k) else sb_data b ! (i div 8))"
    using nth_memcpy_at [OF le' j] len k by (simp add: setDataField_def)
  then show ?thesis unfolding k(1) inside data_bit_def using byte by (simp del: nth_take)
qed

lemma data_bit_setDataField_bool:
  assumes "off < 8 * length (sb_data b)"
  shows "data_bit (sb_data (setDataField_bool off v b)) i = (if i = off then v else data_bit (sb_data b) i)"
proof -
  have j: "off div 8 < length (sb_data b)" using assms by linarith
  have "i = off \<longleftrightarrow> i div 8 = off div 8 \<and> i mod 8 = off mod 8" by (metis div_mult_mod_eq)
  then show ?thesis
    using j by (auto simp: setDataField_bool_def data_bit_def Let_def nth_list_update bit_simps)
qed

section \<open>Setters and getters\<close>

text \<open>Words.\<close>

lemma word_field_set:
  assumes "bytewise TYPE('a::len word)" "off * LENGTH('a) + LENGTH('a) \<le> 8 * length (sb_data b)"
  shows "getDataField_b off (setDataField off (v :: 'a word) b) = v"
proof (rule bit_word_eqI)
  fix n assume "n < LENGTH('a)"
  then show "bit (getDataField_b off (setDataField off v b) :: 'a word) n = bit v n"
    using assms by (simp add: bit_getDataField_b length_setDataField data_bit_setDataField)
qed

lemma word_field_other:
  assumes "bytewise TYPE('a::len word)" "off * LENGTH('a) + LENGTH('a) \<le> 8 * length (sb_data b)"
    and "bytewise TYPE('b::len word)" "off' * LENGTH('b) + LENGTH('b) \<le> 8 * length (sb_data b)"
    and "off * LENGTH('a) + LENGTH('a) \<le> off' * LENGTH('b) \<or> off' * LENGTH('b) + LENGTH('b) \<le> off * LENGTH('a)"
  shows "(getDataField_b off (setDataField off' (v :: 'b word) b) :: 'a word) = getDataField_b off b"
proof (rule bit_word_eqI)
  fix n assume "n < LENGTH('a)"
  then show "bit (getDataField_b off (setDataField off' v b) :: 'a word) n = bit (getDataField_b off b :: 'a word) n"
    using assms by (auto simp: bit_getDataField_b length_setDataField data_bit_setDataField)
qed

lemma word_field_flag:
  assumes "bytewise TYPE('a::len word)" "off * LENGTH('a) + LENGTH('a) \<le> 8 * length (sb_data b)"
    and "off' < off * LENGTH('a) \<or> off * LENGTH('a) + LENGTH('a) \<le> off'" "off' < 8 * length (sb_data b)"
  shows "(getDataField_b off (setDataField_bool off' v b) :: 'a word) = getDataField_b off b"
proof (rule bit_word_eqI)
  fix n assume "n < LENGTH('a)"
  then show "bit (getDataField_b off (setDataField_bool off' v b) :: 'a word) n = bit (getDataField_b off b :: 'a word) n"
    using assms by (auto simp: bit_getDataField_b data_bit_setDataField_bool)
qed

text \<open>Flags.\<close>

lemma flag_set: "off < 8 * length (sb_data b) \<Longrightarrow> getDataField_bool_b off (setDataField_bool off v b) = v"
  and flag_other: "off' < 8 * length (sb_data b) \<Longrightarrow> off \<noteq> off' \<Longrightarrow>
    getDataField_bool_b off (setDataField_bool off' v b) = getDataField_bool_b off b"
  by (simp_all add: bit_getDataField_bool_b data_bit_setDataField_bool)

lemma flag_word:
  assumes "bytewise TYPE('a::len word)" "off' * LENGTH('a) + LENGTH('a) \<le> 8 * length (sb_data b)"
    and "off < off' * LENGTH('a) \<or> off' * LENGTH('a) + LENGTH('a) \<le> off" "off < 8 * length (sb_data b)"
  shows "getDataField_bool_b off (setDataField off' (v :: 'a word) b) = getDataField_bool_b off b"
  using assms by (auto simp: bit_getDataField_bool_b data_bit_setDataField)

text \<open>Pointers are in a section of their own.\<close>

lemma pointers_setters [simp]:
  "sb_pointers (setDataField off v b) = sb_pointers b" "sb_pointers (setDataField_bool off u b) = sb_pointers b"
  by (simp_all add: setDataField_def setDataField_bool_def Let_def)

lemma pointer_setter [simp]:
  "sb_data (setPointer i f b) = sb_data b"
  "sb_pointers (setPointer i f b) = (sb_pointers b)[i := f (sb_pointers b ! i)]"
  by (simp_all add: setPointer_def getPointerField_b_def)

lemma fields_setPointer [simp]:
  "getDataField_b off (setPointer i f b) = getDataField_b off b"
  "getDataField_bool_b off (setPointer i f b) = getDataField_bool_b off b"
  by (simp_all add: getDataField_b_def getDataField_bool_b_def)

lemma mask_roundtrip [simp]: "unmask_bool (mask_bool v m) m = v"
  by (auto simp: mask_bool_def unmask_bool_def)

lemmas field_rules =
  word_field_set word_field_other word_field_flag flag_set flag_other flag_word length_setDataField

section \<open>Readers and builders\<close>

text \<open>A reader of the same data sees the fields of the builder.\<close>

lemma reader_field:
  assumes "sr_data r = sb_data b" "dataSize r = 8 * length (sb_data b)"
    and "bytewise TYPE('a::len word)" "off * LENGTH('a) + LENGTH('a) \<le> 8 * length (sb_data b)"
  shows "(getDataField off r :: 'a word) = getDataField_b off b"
  using assms by (simp add: getDataField_def getDataField_b_def add.commute)

lemma reader_flag:
  assumes "sr_data r = sb_data b" "dataSize r = 8 * length (sb_data b)" "off < 8 * length (sb_data b)"
  shows "getDataField_bool off r = getDataField_bool_b off b"
  using assms by (simp add: getDataField_bool_def getDataField_bool_b_def)

text \<open>The size of the sections in words and pointers.\<close>

definition sized :: "nat \<Rightarrow> nat \<Rightarrow> 'b struct_builder \<Rightarrow> bool" where
  "sized d p b \<longleftrightarrow> 8 * d \<le> length (sb_data b) \<and> p \<le> length (sb_pointers b)"

lemma sized_nonempty: "sized d p b \<Longrightarrow> 0 < p \<Longrightarrow> sb_pointers b \<noteq> []"
  by (auto simp: sized_def)

end
