(* ===== verification/CapnpProps.thy ===== *)
theory CapnpProps
  imports CapnpFields
begin

text \<open>
  The receive loop on bytes: for a message that was built for an event, reading its bytes and handling the event is what the loop
  does, for every runtime that follows pointers as documented.
\<close>

section \<open>Values on the wire\<close>

text \<open>A value as a tree: the data section and the pointers of a struct, the elements of a list, a blob, the null pointer.\<close>

datatype wire = Wstruct bytes "wire list" | Wlist "wire list" | Wdata bytes | Wtext string | Wnull

text \<open>
  The documented behaviour of the runtime on well-formed messages. \<open>rep p v\<close>: the pointer leads to the value.
\<close>

definition reader_rep :: "('p \<Rightarrow> wire \<Rightarrow> bool) \<Rightarrow> 'p struct_reader \<Rightarrow> bytes \<Rightarrow> wire list \<Rightarrow> bool" where
  "reader_rep rep r d vs \<longleftrightarrow> sr_data r = d \<and> dataSize r = 8 * length d \<and> list_all2 rep (sr_pointers r) vs"

definition capnp_laws :: "('p, 'l) capnp_lib \<Rightarrow> ('p \<Rightarrow> wire \<Rightarrow> bool) \<Rightarrow> bool" where
  "capnp_laws L rep \<longleftrightarrow>
     (\<forall>p d vs. rep p (Wstruct d vs) \<longrightarrow> (\<exists>r. getStruct L (Some p) = Inr r \<and> reader_rep rep r d vs))
     \<and> (\<forall>p vs. rep p (Wlist vs) \<longrightarrow> (\<exists>l. getList L (Some p) = Inr l \<and> elementCount L l = length vs
          \<and> (\<forall>i < length vs. \<forall>d us. vs ! i = Wstruct d us \<longrightarrow>
               (\<exists>r. getStructElement L l i = Inr r \<and> reader_rep rep r d us))))
     \<and> (\<forall>p b. rep p (Wdata b) \<longrightarrow> getBlob_Data L (Some p) = Inr b)
     \<and> (\<forall>p t. rep p (Wtext t) \<longrightarrow> getBlob_Text L (Some p) = Inr t)"

text \<open>The message whose root is the value.\<close>

definition message_rep :: "('p, 'l) capnp_lib \<Rightarrow> ('p \<Rightarrow> wire \<Rightarrow> bool) \<Rightarrow> bytes \<Rightarrow> wire \<Rightarrow> bool" where
  "message_rep L rep msg v \<longleftrightarrow> (\<exists>p. cl_root L (take (8 * (length msg div 8)) msg) = Inr p \<and> rep p v)"

text \<open>
  What the builders of the runtime document: a setter copies the value to the place the pointer leads to. On trees:
\<close>

definition null_struct :: "nat \<times> nat \<Rightarrow> wire struct_builder" where
  "null_struct sz = \<lparr>sb_data = replicate (8 * fst sz) 0, sb_pointers = replicate (snd sz) Wnull\<rparr>"

definition built :: "wire struct_builder \<Rightarrow> wire" where
  "built b = Wstruct (sb_data b) (sb_pointers b)"

text \<open>A struct that an older schema made is extended; where there is none, a null one is made.\<close>

fun open_struct :: "nat \<times> nat \<Rightarrow> wire \<Rightarrow> wire struct_builder" where
  "open_struct sz (Wstruct d vs) =
     \<lparr>sb_data = d @ replicate (8 * fst sz - length d) 0, sb_pointers = vs @ replicate (snd sz - length vs) Wnull\<rparr>"
| "open_struct sz v = null_struct sz"

fun open_list :: "nat \<times> nat \<Rightarrow> wire \<Rightarrow> wire \<times> wire struct_builder list" where
  "open_list sz (Wlist vs) = (Wlist (map (built \<circ> open_struct sz) vs), map (open_struct sz) vs)"
| "open_list sz v = (v, [])"

definition wire_build :: "(wire, wire list, wire, wire) capnp_build" where
  "wire_build =
    \<lparr>isNull_b = (\<lambda>p. p = Wnull),
     getStruct_b = (\<lambda>sz p. (built (open_struct sz p), open_struct sz p)), getList_b = open_list,
     getBlob_Data_b = (\<lambda>p. (p, case p of Wdata b \<Rightarrow> b | _ \<Rightarrow> [])), getBlob_Text_b = (\<lambda>p. (p, case p of Wtext t \<Rightarrow> t | _ \<Rightarrow> [])),
     initStruct = (\<lambda>sz _. (built (null_struct sz), null_struct sz)),
     initList = (\<lambda>sz _ n. (Wlist (replicate (unat n) (built (null_struct sz))), replicate (unat n) (null_struct sz))),
     initBlob_Data = (\<lambda>_ n. (Wdata (replicate (unat n) 0), replicate (unat n) 0)),
     initBlob_Text = (\<lambda>_ n. (Wtext (replicate (unat n) (CHR 0x00)), replicate (unat n) (CHR 0x00))),
     adopt = (\<lambda>_ v. v), disown = (\<lambda>p. (Wnull, p)),
     setStruct = (\<lambda>_ r. Wstruct (sr_data r) (sr_pointers r)), setList = (\<lambda>_ l. Wlist l),
     setBlob_Data = (\<lambda>_ b. Wdata b), setBlob_Text = (\<lambda>_ t. Wtext t)\<rparr>"

text \<open>What was disowned is null, and adopting it again restores the struct; what was initialised is what the getter then opens.\<close>

lemma adopt_disowned:
  "ptr < length (sb_pointers b) \<Longrightarrow>
   (case atPointer ptr (disown wire_build) b of (b', v) \<Rightarrow>
      isNull_b wire_build (getPointerField_b ptr b') \<and> setPointer ptr (\<lambda>p. adopt wire_build p v) b' = b)"
  by (simp add: atPointer_def setPointer_def getPointerField_b_def wire_build_def)

lemma get_initialised:
  assumes "ptr < length (sb_pointers b)"
  shows "atPointer ptr (getStruct_b wire_build sz) (fst (atPointer ptr (initStruct wire_build sz) b)) = atPointer ptr (initStruct wire_build sz) b"
    and "atPointer ptr (getList_b wire_build sz) (fst (atPointer ptr (\<lambda>p. initList wire_build sz p n) b)) = atPointer ptr (\<lambda>p. initList wire_build sz p n) b"
  using assms by (simp_all add: atPointer_def getPointerField_b_def wire_build_def built_def null_struct_def)

definition reader_of :: "wire struct_builder \<Rightarrow> wire struct_reader" where
  "reader_of b = \<lparr>sr_data = sb_data b, dataSize = 8 * length (sb_data b), sr_pointers = sb_pointers b\<rparr>"

text \<open>
  The message that the generated builders make for an event. They may have written anything to the other fields
  before: these are the structs of \<open>message_base\<close>.
\<close>

record message_base =
  mb_event :: "wire struct_builder"
  mb_can :: "wire struct_builder"
  mb_selfdrive :: "wire struct_builder"
  mb_sp :: "wire struct_builder"
  mb_mads :: "wire struct_builder"

definition can_wire :: "wire struct_builder \<Rightarrow> u8 \<times> u32 \<times> bytes \<Rightarrow> wire" where
  "can_wire b = (\<lambda>(src, address, dat). built (can_setSrc src (can_setDat wire_build dat (can_setAddress address b))))"

fun event_wire :: "message_base \<Rightarrow> event \<Rightarrow> wire" where
  "event_wire m (Can fs) = built (event_setCan wire_build (map (can_wire (mb_can m)) fs) (mb_event m))"
| "event_wire m (Selfdrive_state ex ac al) =
     built (event_setSelfdriveState wire_build
       (reader_of (sd_setExperimentalMode ex (sd_setAlertType wire_build al (sd_setActive ac (mb_selfdrive m))))) (mb_event m))"
| "event_wire m (Selfdrive_state_sp ma) =
     built (event_setSelfdriveStateSP wire_build
       (reader_of (sp_setMads wire_build (reader_of (mads_setActive ma (mb_mads m))) (mb_sp m))) (mb_event m))"
| "event_wire m Other_event = built (mb_event m)"

text \<open>The structs have the sizes of the schema, or of a later one; other events are those of another member of the union.\<close>

fun base_ok :: "message_base \<Rightarrow> event \<Rightarrow> bool" where
  "base_ok m Other_event \<longleftrightarrow> sized 2 1 (mb_event m)
     \<and> event_which_b (mb_event m) \<notin> {''CAN'', ''SELFDRIVE_STATE'', ''SELFDRIVE_STATE_S_P''}"
| "base_ok m e \<longleftrightarrow> sized 2 1 (mb_event m) \<and> sized 1 1 (mb_can m) \<and> sized 2 3 (mb_selfdrive m)
     \<and> sized 0 2 (mb_sp m) \<and> sized 1 0 (mb_mads m)"

section \<open>Reading the fields\<close>

lemma which_names:
  "which_name 4 = ''CAN''" "which_name 128 = ''SELFDRIVE_STATE''" "which_name 105 = ''SELFDRIVE_STATE_S_P''"
  "which_name 0 = ''INIT_DATA''"
  by code_simp+

lemma which_read:
  assumes "reader_rep rep r (sb_data b) vs" "sized 2 p b"
  shows "event_which r = event_which_b b"
  using assms by (simp add: event_which_def event_which_b_def reader_rep_def sized_def reader_field [of r b])

text \<open>Setting a member of the union makes it the one that is read.\<close>

lemma which_set:
  assumes "sized 2 p b"
  shows "event_which_b (setPointer i f (setDataField 4 (w :: 16 word) b)) = which_name w"
  using assms by (simp add: event_which_b_def sized_def word_field_set)

lemma law_struct:
  "capnp_laws L rep \<Longrightarrow> rep p (Wstruct d vs) \<Longrightarrow> \<exists>r. getStruct L (Some p) = Inr r \<and> reader_rep rep r d vs"
  unfolding capnp_laws_def by blast

lemma law_list:
  "capnp_laws L rep \<Longrightarrow> rep p (Wlist vs) \<Longrightarrow> \<exists>l. getList L (Some p) = Inr l \<and> elementCount L l = length vs
     \<and> (\<forall>i < length vs. \<forall>d us. vs ! i = Wstruct d us \<longrightarrow> (\<exists>r. getStructElement L l i = Inr r \<and> reader_rep rep r d us))"
  unfolding capnp_laws_def by blast

lemma law_data: "capnp_laws L rep \<Longrightarrow> rep p (Wdata b) \<Longrightarrow> getBlob_Data L (Some p) = Inr b"
  and law_text: "capnp_laws L rep \<Longrightarrow> rep p (Wtext t) \<Longrightarrow> getBlob_Text L (Some p) = Inr t"
  unfolding capnp_laws_def by blast+

lemma pointer_read:
  assumes "reader_rep rep r d vs" "i < length vs"
  shows "\<exists>p. getPointerField i r = Some p \<and> rep p (vs ! i)"
  using assms by (auto simp: reader_rep_def getPointerField_def list_all2_conv_all_nth)

text \<open>Following a pointer field to a struct.\<close>

lemma struct_read:
  assumes "capnp_laws L rep" "reader_rep rep r d vs" "i < length vs" "vs ! i = Wstruct d' us"
  shows "\<exists>r'. get_struct L (getPointerField i r) = Inr r' \<and> reader_rep rep r' d' us"
  using pointer_read [OF assms(2,3)] law_struct [OF assms(1)] assms(4) by (auto simp: get_struct_def)

lemma can_read:
  assumes L: "capnp_laws L rep" and b: "sized 1 1 b"
    and r: "reader_rep rep r (sb_data b') (sb_pointers b')"
    and b': "b' = can_setSrc src (can_setDat wire_build dat (can_setAddress address b))"
  shows "read_can L r = Inr (src, address, dat)"
proof -
  have sz: "8 \<le> length (sb_data b)" "0 < length (sb_pointers b)" using b sized_nonempty [OF b] by (simp_all add: sized_def)
  have d: "sr_data r = sb_data b'" "dataSize r = 8 * length (sb_data b')" using r by (simp_all add: reader_rep_def)
  have len: "length (sb_data b') = length (sb_data b)"
    using sz by (simp add: b' can_setSrc_def can_setDat_def can_setAddress_def length_setDataField)
  have "can_getSrc_b b' = src" "can_getAddress_b b' = address"
    using sz by (simp_all add: b' can_setSrc_def can_setDat_def can_setAddress_def can_getSrc_b_def can_getAddress_b_def field_rules)
  then have "can_getSrc r = src" "can_getAddress r = address"
    using sz by (simp_all add: can_getSrc_def can_getAddress_def can_getSrc_b_def can_getAddress_b_def reader_field [OF d] len)
  moreover have "sb_pointers b' = (sb_pointers b)[0 := Wdata dat]"
    by (simp add: b' can_setSrc_def can_setDat_def can_setAddress_def wire_build_def)
  then have "can_getDat L r = Inr dat"
    using pointer_read [OF r, of 0] law_data [OF L] sz by (auto simp: can_getDat_def)
  ultimately show ?thesis by (simp add: read_can_def)
qed

lemma iterate_ok: "(\<And>i. i \<in> set is \<Longrightarrow> f i = Inr (g i)) \<Longrightarrow> iterate f is = Inr (map g is)"
  by (induction "is") simp_all

lemma cans_read:
  assumes L: "capnp_laws L rep" and b: "sized 1 1 b" and p: "rep p (Wlist (map (can_wire b) fs))"
  shows "bindE (get_list L (Some p)) (for_each L (read_can L)) = Inr fs"
proof -
  obtain l where l: "getList L (Some p) = Inr l" "elementCount L l = length fs"
    and el: "\<forall>i < length fs. \<forall>d us. map (can_wire b) fs ! i = Wstruct d us \<longrightarrow>
      (\<exists>r. getStructElement L l i = Inr r \<and> reader_rep rep r d us)"
    using law_list [OF L p] by auto
  have "bindE (list_at L l i) (read_can L) = Inr (fs ! i)" if i: "i \<in> set [0..<length fs]" for i
  proof -
    obtain src address dat where f: "fs ! i = (src, address, dat)" by (cases "fs ! i") auto
    let ?b = "can_setSrc src (can_setDat wire_build dat (can_setAddress address b))"
    have "can_wire b (fs ! i) = Wstruct (sb_data ?b) (sb_pointers ?b)" by (simp add: f can_wire_def built_def)
    then obtain r where "getStructElement L l i = Inr r" "reader_rep rep r (sb_data ?b) (sb_pointers ?b)"
      using el [rule_format, of i] i by auto
    then show ?thesis using can_read [OF L b] f by (simp add: list_at_def)
  qed
  then have "for_each L (read_can L) l = Inr (map (\<lambda>i. fs ! i) [0..<length fs])"
    unfolding for_each_def list_size_def l(2) by (rule iterate_ok)
  then show ?thesis by (simp add: get_list_def l map_nth)
qed

lemma selfdrive_read:
  assumes L: "capnp_laws L rep" and b: "sized 2 3 b"
    and r: "reader_rep rep r (sb_data b') (sb_pointers b')"
    and b': "b' = sd_setExperimentalMode ex (sd_setAlertType wire_build al (sd_setActive ac b))"
  shows "sd_getActive r = ac" "sd_getExperimentalMode r = ex" "sd_getAlertType L r = Inr al"
proof -
  have sz: "16 \<le> length (sb_data b)" "2 < length (sb_pointers b)" using b by (simp_all add: sized_def)
  have d: "sr_data r = sb_data b'" "dataSize r = 8 * length (sb_data b')" using r by (simp_all add: reader_rep_def)
  note setters = b' sd_setExperimentalMode_def sd_setAlertType_def sd_setActive_def
  have "length (sb_data b') = length (sb_data b)" "getDataField_bool_b 17 b' = ac" "getDataField_bool_b 19 b' = ex"
    using sz by (simp_all add: setters field_rules)
  then show "sd_getActive r = ac" "sd_getExperimentalMode r = ex"
    using sz by (simp_all add: sd_getActive_def sd_getExperimentalMode_def reader_flag [OF d])
  have "sb_pointers b' = (sb_pointers b)[2 := Wtext al]" by (simp add: setters wire_build_def)
  then show "sd_getAlertType L r = Inr al"
    using pointer_read [OF r, of 2] law_text [OF L] sz by (auto simp: sd_getAlertType_def)
qed

lemma mads_read:
  assumes "sized 1 0 b" "reader_rep rep r (sb_data (mads_setActive ma b)) vs"
  shows "mads_getActive r = ma"
  using assms by (simp add: reader_rep_def sized_def mads_getActive_def mads_setActive_def flag_set
      reader_flag [of r "setDataField_bool 17 ma b"])

text \<open>The root of the message is the event, whose only pointer leads to the member of the union.\<close>

lemma root_read:
  assumes L: "capnp_laws L rep" and m: "message_rep L rep msg (built (setPointer 0 f (setDataField 4 (w :: 16 word) b)))"
    and b: "sized 2 1 b"
  shows "\<exists>r. getRoot L (take (8 * (length msg div 8)) msg) = Inr r \<and> event_which r = which_name w
    \<and> reader_rep rep r (sb_data (setDataField 4 w b)) ((sb_pointers b)[0 := f (sb_pointers b ! 0)])"
proof -
  let ?b = "setPointer 0 f (setDataField 4 w b)"
  obtain p where p: "cl_root L (take (8 * (length msg div 8)) msg) = Inr p" "rep p (Wstruct (sb_data ?b) (sb_pointers ?b))"
    using m by (auto simp: message_rep_def built_def)
  obtain r where r: "getStruct L (Some p) = Inr r" "reader_rep rep r (sb_data ?b) (sb_pointers ?b)"
    using law_struct [OF L p(2)] by auto
  have "sized 2 1 ?b" using b by (simp add: sized_def length_setDataField)
  then have "event_which r = which_name w" using which_read [OF r(2)] which_set [OF b] by simp
  then show ?thesis using p r by (auto simp: getRoot_def get_struct_def)
qed

text \<open>Every event is read back from a message built for it.\<close>

lemma read_can_event:
  assumes L: "capnp_laws L rep" and m: "message_rep L rep msg (event_wire m (Can fs))" and ok: "base_ok m (Can fs)"
  shows "read_event L msg = Inr (Can fs)"
proof -
  have sz: "sized 2 1 (mb_event m)" "sized 1 1 (mb_can m)" using ok by simp_all
  obtain r where r: "getRoot L (take (8 * (length msg div 8)) msg) = Inr r" "event_which r = ''CAN''"
      "reader_rep rep r (sb_data (setDataField 4 (4 :: 16 word) (mb_event m))) ((sb_pointers (mb_event m))[0 := Wlist (map (can_wire (mb_can m)) fs)])"
    using root_read [OF L m [unfolded event_wire.simps event_setCan_def] sz(1)] which_names by (auto simp: wire_build_def)
  obtain q where q: "getPointerField 0 r = Some q" "rep q (Wlist (map (can_wire (mb_can m)) fs))"
    using pointer_read [OF r(3), of 0] sized_nonempty [OF sz(1)] by auto
  obtain l where "get_list L (Some q) = Inr l" "for_each L (read_can L) l = Inr fs"
    using cans_read [OF L sz(2) q(2)] by (auto simp: bindE_Inr)
  then show ?thesis using r q(1) by (simp add: read_event_def event_getCan_def)
qed

lemma read_selfdrive_event:
  assumes L: "capnp_laws L rep" and m: "message_rep L rep msg (event_wire m (Selfdrive_state ex ac al))"
    and ok: "base_ok m (Selfdrive_state ex ac al)" and alert: "c_str al = al"
  shows "read_event L msg = Inr (Selfdrive_state ex ac al)"
proof -
  let ?b = "sd_setExperimentalMode ex (sd_setAlertType wire_build al (sd_setActive ac (mb_selfdrive m)))"
  have sz: "sized 2 1 (mb_event m)" "sized 2 3 (mb_selfdrive m)" using ok by simp_all
  obtain r where r: "getRoot L (take (8 * (length msg div 8)) msg) = Inr r" "event_which r = ''SELFDRIVE_STATE''"
      "reader_rep rep r (sb_data (setDataField 4 (128 :: 16 word) (mb_event m))) ((sb_pointers (mb_event m))[0 := Wstruct (sb_data ?b) (sb_pointers ?b)])"
    using root_read [OF L m [unfolded event_wire.simps event_setSelfdriveState_def] sz(1)] which_names
    by (auto simp: wire_build_def reader_of_def)
  obtain r' where r': "get_struct L (getPointerField 0 r) = Inr r'" "reader_rep rep r' (sb_data ?b) (sb_pointers ?b)"
    using struct_read [OF L r(3), of 0] sized_nonempty [OF sz(1)] by auto
  show ?thesis
    using r r'(1) selfdrive_read [OF L sz(2) r'(2) refl] alert by (simp add: read_event_def event_getSelfdriveState_def)
qed

lemma read_selfdrive_sp_event:
  assumes L: "capnp_laws L rep" and m: "message_rep L rep msg (event_wire m (Selfdrive_state_sp ma))"
    and ok: "base_ok m (Selfdrive_state_sp ma)"
  shows "read_event L msg = Inr (Selfdrive_state_sp ma)"
proof -
  let ?b = "sp_setMads wire_build (reader_of (mads_setActive ma (mb_mads m))) (mb_sp m)"
  have sz: "sized 2 1 (mb_event m)" "sized 0 2 (mb_sp m)" "sized 1 0 (mb_mads m)" using ok by simp_all
  obtain r where r: "getRoot L (take (8 * (length msg div 8)) msg) = Inr r" "event_which r = ''SELFDRIVE_STATE_S_P''"
      "reader_rep rep r (sb_data (setDataField 4 (105 :: 16 word) (mb_event m))) ((sb_pointers (mb_event m))[0 := Wstruct (sb_data ?b) (sb_pointers ?b)])"
    using root_read [OF L m [unfolded event_wire.simps event_setSelfdriveStateSP_def] sz(1)] which_names
    by (auto simp: wire_build_def reader_of_def)
  obtain sp where sp: "get_struct L (getPointerField 0 r) = Inr sp" "reader_rep rep sp (sb_data ?b) (sb_pointers ?b)"
    using struct_read [OF L r(3), of 0] sized_nonempty [OF sz(1)] by auto
  have "sb_pointers ?b = (sb_pointers (mb_sp m))[0 := built (mads_setActive ma (mb_mads m))]"
    by (simp add: sp_setMads_def wire_build_def reader_of_def built_def)
  then obtain md where md: "get_struct L (getPointerField 0 sp) = Inr md"
      "reader_rep rep md (sb_data (mads_setActive ma (mb_mads m))) (sb_pointers (mads_setActive ma (mb_mads m)))"
    using struct_read [OF L sp(2), of 0] sized_nonempty [OF sz(2)] by (auto simp: built_def)
  show ?thesis
    using r sp(1) md(1) mads_read [OF sz(3) md(2)] by (simp add: read_event_def event_getSelfdriveStateSP_def sp_getMads_def)
qed

lemma read_other_event:
  assumes L: "capnp_laws L rep" and m: "message_rep L rep msg (event_wire m Other_event)" and ok: "base_ok m Other_event"
  shows "read_event L msg = Inr Other_event"
proof -
  obtain p where p: "cl_root L (take (8 * (length msg div 8)) msg) = Inr p"
      "rep p (Wstruct (sb_data (mb_event m)) (sb_pointers (mb_event m)))"
    using m by (auto simp: message_rep_def built_def)
  obtain r where r: "getStruct L (Some p) = Inr r" "reader_rep rep r (sb_data (mb_event m)) (sb_pointers (mb_event m))"
    using law_struct [OF L p(2)] by auto
  have "sized 2 1 (mb_event m)" using ok by simp
  then show ?thesis using p(1) r(1) which_read [OF r(2)] ok by (simp add: read_event_def getRoot_def get_struct_def)
qed

lemma read_event_wire:
  assumes "capnp_laws L rep" "message_rep L rep msg (event_wire m e)" "base_ok m e" "\<forall>ex ac al. e = Selfdrive_state ex ac al \<longrightarrow> c_str al = al"
  shows "read_event L msg = Inr e"
proof (cases e)
  case (Can fs)
  show ?thesis unfolding Can by (rule read_can_event [OF assms(1) assms(2,3) [unfolded Can]])
next
  case (Selfdrive_state ex ac al)
  then have "c_str al = al" using assms(4) by blast
  then show ?thesis
    unfolding Selfdrive_state by (rule read_selfdrive_event [OF assms(1) assms(2,3) [unfolded Selfdrive_state]])
next
  case (Selfdrive_state_sp ma)
  show ?thesis
    unfolding Selfdrive_state_sp by (rule read_selfdrive_sp_event [OF assms(1) assms(2,3) [unfolded Selfdrive_state_sp]])
next
  case Other_event
  show ?thesis unfolding Other_event by (rule read_other_event [OF assms(1) assms(2,3) [unfolded Other_event]])
qed

section \<open>Handling bytes\<close>

text \<open>
  Handling the bytes of a message that the generated builders made for an event, whatever the other fields are, is
  handling the event.
\<close>

lemma bytes_refine_events:
  assumes "capnp_laws L rep" "message_rep L rep msg (event_wire m e)" "base_ok m e"
    and "\<forall>ex ac al. e = Selfdrive_state ex ac al \<longrightarrow> c_str al = al"
  shows "processMessage_bytes L msg c1 c2 st = map_option Inr (processMessage e c1 c2 st)"
  using read_event_wire [OF assms] by (simp add: processMessage_bytes_def)

text \<open>A runtime whose pointers are the values themselves, with a message of one lane-change event.\<close>

definition tree_lib :: "(bytes \<Rightarrow> wire) \<Rightarrow> (wire, wire list) capnp_lib" where
  "tree_lib tree =
     (let struct = (\<lambda>v. case v of Wstruct d vs \<Rightarrow> Inr \<lparr>sr_data = d, dataSize = 8 * length d, sr_pointers = vs\<rparr>
                          | _ \<Rightarrow> Inl Invalid_argument)
      in \<lparr>cl_root = (\<lambda>words. Inr (tree words)),
          getStruct = (\<lambda>p. case p of None \<Rightarrow> Inl Invalid_argument | Some v \<Rightarrow> struct v),
          getList = (\<lambda>p. case p of Some (Wlist vs) \<Rightarrow> Inr vs | _ \<Rightarrow> Inl Invalid_argument),
          elementCount = length,
          getStructElement = (\<lambda>vs i. struct (vs ! i)),
          getBlob_Data = (\<lambda>p. case p of Some (Wdata b) \<Rightarrow> Inr b | _ \<Rightarrow> Inl Invalid_argument),
          getBlob_Text = (\<lambda>p. case p of Some (Wtext t) \<Rightarrow> Inr t | _ \<Rightarrow> Inl Invalid_argument)\<rparr>)"

lemma tree_laws: "capnp_laws (tree_lib tree) (=)"
  by (simp add: capnp_laws_def tree_lib_def Let_def reader_rep_def list.rel_eq)

definition zero_base :: message_base where
  "zero_base =
     (let b = (\<lambda>d p. \<lparr>sb_data = replicate (8 * d) 0, sb_pointers = replicate p Wnull\<rparr>)
      in \<lparr>mb_event = b 2 1, mb_can = b 1 1, mb_selfdrive = b 2 3, mb_sp = b 0 2, mb_mads = b 1 0\<rparr>)"

section \<open>All fields of the self-driving state\<close>

record selfdrive_fields =
  sv_state :: "16 word"
  sv_enabled :: bool
  sv_active :: bool
  sv_alertText1 :: string
  sv_alertText2 :: string
  sv_alertStatus :: "16 word"
  sv_alertSize :: "16 word"
  sv_alertType :: string
  sv_alertSound :: "16 word"
  sv_engageable :: bool
  sv_experimentalMode :: bool
  sv_personality :: "16 word"
  sv_alertHudVisual :: "16 word"

text \<open>Writing all fields, in the order of the schema, and reading them.\<close>

definition selfdrive_write :: "selfdrive_fields \<Rightarrow> wire struct_builder \<Rightarrow> wire struct_builder" where
  "selfdrive_write v b =
     sd_setAlertHudVisual (sv_alertHudVisual v) (sd_setPersonality (sv_personality v)
      (sd_setExperimentalMode (sv_experimentalMode v) (sd_setEngageable (sv_engageable v)
      (sd_setAlertSound (sv_alertSound v) (sd_setAlertType wire_build (sv_alertType v)
      (sd_setAlertSize (sv_alertSize v) (sd_setAlertStatus (sv_alertStatus v)
      (sd_setAlertText2 wire_build (sv_alertText2 v) (sd_setAlertText1 wire_build (sv_alertText1 v)
      (sd_setActive (sv_active v) (sd_setEnabled (sv_enabled v) (sd_setState (sv_state v) b))))))))))))"

definition selfdrive_read :: "('p, 'l) capnp_lib \<Rightarrow> 'p struct_reader \<Rightarrow> selfdrive_fields result" where
  "selfdrive_read L r =
     bindE (sd_getAlertText1 L r) (\<lambda>t1. bindE (sd_getAlertText2 L r) (\<lambda>t2. bindE (sd_getAlertType L r) (\<lambda>ty.
       Inr \<lparr>sv_state = sd_getState r, sv_enabled = sd_getEnabled r, sv_active = sd_getActive r,
         sv_alertText1 = t1, sv_alertText2 = t2, sv_alertStatus = sd_getAlertStatus r, sv_alertSize = sd_getAlertSize r,
         sv_alertType = ty, sv_alertSound = sd_getAlertSound r, sv_engageable = sd_getEngageable r,
         sv_experimentalMode = sd_getExperimentalMode r, sv_personality = sd_getPersonality r,
         sv_alertHudVisual = sd_getAlertHudVisual r\<rparr>)))"

lemmas sd_setters = sd_setAlertHudVisual_def sd_setPersonality_def sd_setExperimentalMode_def sd_setEngageable_def
  sd_setAlertSound_def sd_setAlertType_def sd_setAlertSize_def sd_setAlertStatus_def sd_setAlertText2_def sd_setAlertText1_def
  sd_setActive_def sd_setEnabled_def sd_setState_def

lemma selfdrive_written:
  fixes v :: selfdrive_fields
  assumes "sized 2 3 b"
  defines "b' \<equiv> selfdrive_write v b"
  shows "length (sb_data b') = length (sb_data b)"
    and "sb_pointers b' = (sb_pointers b)[0 := Wtext (sv_alertText1 v), 1 := Wtext (sv_alertText2 v), 2 := Wtext (sv_alertType v)]"
    and "getDataField_b 0 b' = sv_state v" "getDataField_b 2 b' = sv_alertStatus v" "getDataField_b 3 b' = sv_alertSize v"
    and "getDataField_b 4 b' = sv_alertSound v" "getDataField_b 5 b' = sv_personality v" "getDataField_b 6 b' = sv_alertHudVisual v"
    and "getDataField_bool_b 16 b' = sv_enabled v" "getDataField_bool_b 17 b' = sv_active v"
    and "getDataField_bool_b 18 b' = sv_engageable v" "getDataField_bool_b 19 b' = sv_experimentalMode v"
  using assms(1) by (simp_all add: b'_def selfdrive_write_def sd_setters sized_def field_rules wire_build_def)

text \<open>
  C40. What the builder of a self-driving state wrote, field by field, is what the accessors read from the struct that
  a pointer to it leads to, whatever the struct held before: no field overlaps another.
\<close>

theorem selfdrive_state_roundtrip:
  assumes L: "capnp_laws L rep" and p: "rep p (built (selfdrive_write v b))" and b: "sized 2 3 b"
  shows "bindE (get_struct L (Some p)) (selfdrive_read L) = Inr v"
proof -
  let ?b = "selfdrive_write v b"
  obtain r where r: "getStruct L (Some p) = Inr r" "reader_rep rep r (sb_data ?b) (sb_pointers ?b)"
    using law_struct [OF L p [unfolded built_def]] by blast
  have d: "sr_data r = sb_data ?b" "dataSize r = 8 * length (sb_data ?b)" using r(2) by (simp_all add: reader_rep_def)
  have sz: "16 \<le> length (sb_data b)" "2 < length (sb_pointers b)" using b by (simp_all add: sized_def)
  note w = selfdrive_written [OF b, of v]
  have "sd_getAlertText1 L r = Inr (sv_alertText1 v)" "sd_getAlertText2 L r = Inr (sv_alertText2 v)"
    "sd_getAlertType L r = Inr (sv_alertType v)"
    using pointer_read [OF r(2), of 0] pointer_read [OF r(2), of 1] pointer_read [OF r(2), of 2] law_text [OF L] sz sized_nonempty [OF b]
    by (auto simp: sd_getAlertText1_def sd_getAlertText2_def sd_getAlertType_def w(2))
  then show ?thesis
    using sz by (simp add: get_struct_def r(1) selfdrive_read_def sd_getState_def sd_getEnabled_def sd_getActive_def
        sd_getAlertStatus_def sd_getAlertSize_def sd_getAlertSound_def sd_getEngageable_def sd_getExperimentalMode_def
        sd_getPersonality_def sd_getAlertHudVisual_def reader_field [OF d] reader_flag [OF d] w)
qed

text \<open>A struct that had all bits set before.\<close>

theorem selfdrive_state_roundtrip_witness:
  "bindE (get_struct (tree_lib (\<lambda>_. Wnull)) (Some (built (selfdrive_write
      \<lparr>sv_state = 3, sv_enabled = True, sv_active = False, sv_alertText1 = ''a'', sv_alertText2 = ''b'', sv_alertStatus = 2,
       sv_alertSize = 1, sv_alertType = ''c'', sv_alertSound = 7, sv_engageable = False, sv_experimentalMode = True,
       sv_personality = 65535, sv_alertHudVisual = 0\<rparr>
      \<lparr>sb_data = replicate 16 255, sb_pointers = replicate 3 Wnull\<rparr>)))) (selfdrive_read (tree_lib (\<lambda>_. Wnull))) =
    Inr \<lparr>sv_state = 3, sv_enabled = True, sv_active = False, sv_alertText1 = ''a'', sv_alertText2 = ''b'', sv_alertStatus = 2,
       sv_alertSize = 1, sv_alertType = ''c'', sv_alertSound = 7, sv_engageable = False, sv_experimentalMode = True,
       sv_personality = 65535, sv_alertHudVisual = 0\<rparr>"
  by (rule selfdrive_state_roundtrip [OF tree_laws refl]) (simp add: sized_def)

end
