(* ===== verification/LoopBytes.thy ===== *)
theory LoopBytes
  imports CapnpProps
begin

text \<open>
  The receive loop of \<open>bridge/common/bridge_core.h\<close> on the bytes that its sockets receive, where reading a message may throw;
  that it refines the loop on events; and what the party-bus decoder delivers, as a function of the events alone.
\<close>

section \<open>The loop on bytes\<close>

text \<open>The bytes of a received message with the clock readings made while it is handled.\<close>

record raw_reception =
  rw_bytes :: bytes
  rw_t1 :: int
  rw_t2 :: int
  rw_us :: int

definition handle_message_bytes :: "('p, 'l) capnp_lib \<Rightarrow> raw_reception \<Rightarrow> loop_state \<Rightarrow> loop_state result option" where
  "handle_message_bytes L r st =
     do { x \<leftarrow> processMessage_bytes L (rw_bytes r) (rw_t1 r) (rw_t2 r) (ls_decoder st, ls_flags st);
          Some (bindE x (\<lambda>((d, fl), can). Inr (account (rw_us r) (deliver d fl can st)))) }"

fun poll_sockets_bytes :: "('p, 'l) capnp_lib \<Rightarrow> raw_reception option list \<Rightarrow> loop_state \<Rightarrow> (loop_state \<times> bool) result option" where
  "poll_sockets_bytes L [] st = Some (Inr (st, False))"
| "poll_sockets_bytes L (None # rs) st = poll_sockets_bytes L rs st"
| "poll_sockets_bytes L (Some r # rs) st =
     do { x \<leftarrow> handle_message_bytes L r st;
          case x of
            Inl e \<Rightarrow> Some (Inl e)
          | Inr st \<Rightarrow>
              do { y \<leftarrow> poll_sockets_bytes L rs st; Some (bindE y (\<lambda>(st, g). Inr (st, True))) } }"

fun runReceiveLoop_bytes :: "('p, 'l) capnp_lib \<Rightarrow> raw_reception option list list \<Rightarrow> loop_state
    \<Rightarrow> (loop_state \<times> nat) result option" where
  "runReceiveLoop_bytes L [] st = Some (Inr (st, 0))"
| "runReceiveLoop_bytes L (p # ps) st =
     do { x \<leftarrow> poll_sockets_bytes L p st;
          case x of
            Inl e \<Rightarrow> Some (Inl e)
          | Inr (st, gotAny) \<Rightarrow>
              do { y \<leftarrow> runReceiveLoop_bytes L ps st;
                   Some (bindE y (\<lambda>(st, sleeps). Inr (st, if gotAny then sleeps else sleeps + 1))) } }"

section \<open>Runs on bytes are runs on events\<close>

text \<open>The bytes are a message that the builders made for the event, received at the same time.\<close>

definition arrives :: "('p, 'l) capnp_lib \<Rightarrow> ('p \<Rightarrow> wire \<Rightarrow> bool) \<Rightarrow> raw_reception \<Rightarrow> reception \<Rightarrow> bool" where
  "arrives L rep w r \<longleftrightarrow>
     rw_t1 w = rx_t1 r \<and> rw_t2 w = rx_t2 r \<and> rw_us w = rx_us r
     \<and> (\<exists>m. message_rep L rep (rw_bytes w) (event_wire m (rx_event r)) \<and> base_ok m (rx_event r))
     \<and> (\<forall>ex ac al. rx_event r = Selfdrive_state ex ac al \<longrightarrow> c_str al = al)"

lemma handle_message_bytes_event:
  assumes "capnp_laws L rep" "arrives L rep w r"
  shows "handle_message_bytes L w st = map_option Inr (handle_message r st)"
proof -
  obtain m where "message_rep L rep (rw_bytes w) (event_wire m (rx_event r))" "base_ok m (rx_event r)"
      "\<forall>ex ac al. rx_event r = Selfdrive_state ex ac al \<longrightarrow> c_str al = al"
    using assms(2) by (auto simp: arrives_def)
  from read_event_wire [OF assms(1) this] show ?thesis
    using assms(2) by (cases "processMessage (rx_event r) (rx_t1 r) (rx_t2 r) (ls_decoder st, ls_flags st)")
      (auto simp: handle_message_bytes_def handle_message_def processMessage_bytes_def arrives_def)
qed

lemma poll_sockets_bytes_event:
  assumes L: "capnp_laws L rep" and p: "list_all2 (rel_option (arrives L rep)) ws rs"
  shows "poll_sockets_bytes L ws st = map_option Inr (poll_sockets rs st)"
  using p
proof (induction arbitrary: st)
  case (Cons w ws r rs)
  show ?case
  proof (cases r)
    case None
    then show ?thesis using Cons by simp
  next
    case (Some x)
    then obtain v where v: "w = Some v" "arrives L rep v x" using Cons.hyps(1) by (cases w) auto
    show ?thesis
    proof (cases "handle_message x st")
      case None
      then show ?thesis by (simp add: Some v(1) handle_message_bytes_event [OF L v(2)])
    next
      case st': (Some st')
      then show ?thesis
        by (cases "poll_sockets rs st'") (auto simp: Some v(1) handle_message_bytes_event [OF L v(2)] Cons.IH)
    qed
  qed
qed simp

lemma loop_bytes_event:
  assumes L: "capnp_laws L rep" and p: "list_all2 (list_all2 (rel_option (arrives L rep))) ws ps"
  shows "runReceiveLoop_bytes L ws st = map_option Inr (runReceiveLoop ps st)"
  using p
proof (induction arbitrary: st)
  case (Cons w ws p ps)
  show ?case
  proof (cases "poll_sockets p st")
    case None
    then show ?thesis by (simp add: poll_sockets_bytes_event [OF L Cons.hyps(1)])
  next
    case (Some x)
    obtain st' g where x: "x = (st', g)" by (cases x)
    show ?thesis
      by (cases "runReceiveLoop ps st'") (auto simp: poll_sockets_bytes_event [OF L Cons.hyps(1)] Some x Cons.IH)
  qed
qed simp

section \<open>The party-bus decoder has no memory\<close>

text \<open>
  The specification: the state delivered for a CAN message is what the mapper reads from the frames received up to then, in
  a fresh state, with the flags of the self-driving messages received up to then.
\<close>

definition party_snapshot :: "can_parsers \<Rightarrow> op_flags \<Rightarrow> car_state option" where
  "party_snapshot cp fl = map_option (with_flags fl) (updatePartyBus cp car_state_init)"

fun party_expected :: "can_parsers \<Rightarrow> op_flags \<Rightarrow> event list \<Rightarrow> car_state list option" where
  "party_expected cp fl [] = Some []"
| "party_expected cp fl (Can fs # es) =
     (let cp = fold (\<lambda>(src, addr, dat). updateFrame (uint src) addr dat) fs cp
      in do { s \<leftarrow> party_snapshot cp fl; ss \<leftarrow> party_expected cp fl es; Some (s # ss) })"
| "party_expected cp fl (e # es) = party_expected cp (flag_step e fl) es"

text \<open>The states that only the party-bus mapper and the flags have written to.\<close>

definition party_reset :: "car_state \<Rightarrow> car_state" where
  "party_reset cs = with_flags flags_init
     (cs\<lparr>egoSteeringAngle := f_zero, gear := f_zero, egoSpeed := f_zero, adasOn := f_zero, leftBlindSpot := f_zero,
        rightBlindSpot := f_zero, fusedSpeedLimit := f_zero, trafficLightColor := f_zero, stopLineDist := f_zero,
        leftBlinker := f_zero, rightBlinker := f_zero, anyDoorOpen := f_zero, buckleStatus := f_zero, accSetSpeed := f_zero\<rparr>)"

lemma party_memoryless:
  "map_option (with_flags fl) (updatePartyBus cp cs) = map_option (with_flags fl) (updatePartyBus cp (party_reset cs))"
  by (simp add: updatePartyBus_def read_into_def party_reset_def with_flags_def map_option_case cong: option.case_cong
      split: bind_split)

lemma party_reset_simps [simp]:
  "party_reset (with_flags fl cs) = party_reset cs" "party_reset car_state_init = car_state_init"
  by (simp_all add: party_reset_def with_flags_def flags_init_def car_state_init_def)

lemma updatePartyBus_reset: "updatePartyBus cp cs = Some cs' \<Longrightarrow> party_reset cs' = party_reset cs"
  by (auto simp: updatePartyBus_def read_into_def bind_eq_Some_conv party_reset_def with_flags_def)

lemma party_snapshot_reset:
  assumes "party_snapshot cp fl = Some s"
  shows "party_reset s = car_state_init"
  using assms updatePartyBus_reset by (auto simp: party_snapshot_def)

lemma fold_frames: "fold (\<lambda>(src, addr, dat) d. vd_updateFrame (uint src) addr dat d) fs d =
    d\<lparr>parsers := fold (\<lambda>(src, addr, dat). updateFrame (uint src) addr dat) fs (parsers d)\<rparr>"
  by (induction fs arbitrary: d) (auto simp: vd_updateFrame_def)

definition party_ok :: "vehicle_decoder \<Rightarrow> bool" where
  "party_ok d \<longleftrightarrow> the_mapper d = Some TeslaCommaPartyMapper \<and> party_reset (state d) = car_state_init"

lemma party_can:
  assumes "party_ok d"
  shows "processMessage (Can fs) t1 t2 (d, fl) =
    (let cp = fold (\<lambda>(src, addr, dat). updateFrame (uint src) addr dat) fs (parsers d)
     in map_option (\<lambda>s. ((d\<lparr>parsers := cp, state := s\<rparr>, fl), True)) (party_snapshot cp fl))"
proof -
  let ?cp = "fold (\<lambda>(src, addr, dat). updateFrame (uint src) addr dat) fs (parsers d)"
  have m: "the_mapper d = Some TeslaCommaPartyMapper" "party_reset (state d) = car_state_init"
    using assms by (simp_all add: party_ok_def)
  have "party_snapshot ?cp fl = map_option (with_flags fl) (updatePartyBus ?cp (state d))"
    using party_memoryless [of fl ?cp "state d"] m(2) by (simp add: party_snapshot_def)
  then show ?thesis
    by (cases "updatePartyBus ?cp (state d)") (simp_all add: fold_frames vd_updateMapper_def m(1) Let_def)
qed

text \<open>A whole run.\<close>

lemma party_run:
  assumes "party_ok (ls_decoder st)"
  shows "map_option delivered (handle_all rs st) =
    map_option (\<lambda>ss. delivered st @ ss) (party_expected (parsers (ls_decoder st)) (ls_flags st) (map rx_event rs))"
  using assms
proof (induction rs arbitrary: st)
  case (Cons r rs)
  obtain d fl where d: "ls_decoder st = d" "ls_flags st = fl" by blast
  show ?case
  proof (cases "\<exists>fs. rx_event r = Can fs")
    case True
    then obtain fs where fs: "rx_event r = Can fs" by blast
    define cp where "cp = fold (\<lambda>(src, addr, dat). updateFrame (uint src) addr dat) fs (parsers d)"
    have h: "handle_message r st =
        map_option (\<lambda>s. account (rx_us r) (deliver (d\<lparr>parsers := cp, state := s\<rparr>) fl True st)) (party_snapshot cp fl)"
      using party_can [of d fs "rx_t1 r" "rx_t2 r" fl] Cons.prems
      by (simp del: processMessage.simps add: handle_message_def fs d cp_def [symmetric] Let_def map_option_case split: option.split)
    show ?thesis
    proof (cases "party_snapshot cp fl")
      case None
      then show ?thesis by (simp add: h fs d cp_def [symmetric])
    next
      case (Some s)
      define st1 where "st1 = account (rx_us r) (deliver (d\<lparr>parsers := cp, state := s\<rparr>) fl True st)"
      have "party_ok (ls_decoder st1)"
        using Cons.prems party_snapshot_reset [OF Some] by (simp add: st1_def party_ok_def d)
      from Cons.IH [OF this] show ?thesis
        by (cases "party_expected cp fl (map rx_event rs)") (simp_all add: h Some st1_def fs d cp_def [symmetric] Let_def)
    qed
  next
    case False
    then have h: "handle_message r st = Some (account (rx_us r) (deliver d (flag_step (rx_event r) fl) False st))"
      "\<And>es. party_expected (parsers d) fl (rx_event r # es) = party_expected (parsers d) (flag_step (rx_event r) fl) es"
      by (cases "rx_event r"; simp add: handle_message_def d)+
    show ?thesis using Cons.IH [of "account (rx_us r) (deliver d (flag_step (rx_event r) fl) False st)"] Cons.prems by (simp add: h d)
  qed
qed simp

lemma party_decoder_new:
  assumes "vehicle_decoder_new dm cs bs ''tesla_party'' = Some (Inr d)"
  shows "party_ok d"
proof -
  obtain r where "add_buses dm cs bs parsers_init = Some r"
    and "(case r of Inl e \<Rightarrow> Inl e
      | Inr p \<Rightarrow> Inr \<lparr>parsers = buildCache p, the_mapper = createMapper ''tesla_party'', state = car_state_init\<rparr>) = Inr d"
    using assms unfolding vehicle_decoder_new_def bind_eq_Some_conv by blast
  then show ?thesis by (cases r) (auto simp: party_ok_def createMapper_def)
qed

lemma party_loop:
  assumes "party_ok d"
  shows "map_option (\<lambda>(st, n). delivered st) (runReceiveLoop ps (loop_init d)) =
    party_expected (parsers d) flags_init (map rx_event (receptions ps))"
  using party_run [of "loop_init d" "receptions ps"] assms
  by (simp add: runReceiveLoop_all loop_init_def option.map_comp comp_def option.map_ident)

section \<open>A run on bytes\<close>

text \<open>Two messages, told apart by their first byte: a lane change, then a CAN message with one frame.\<close>

definition demo_events :: "event list" where
  "demo_events = [Selfdrive_state True False ''laneChange/warning'', Can [(2, 257, [1, 2])]]"

definition demo_lib :: "(wire, wire list) capnp_lib" where
  "demo_lib = tree_lib (\<lambda>bs. event_wire zero_base (demo_events ! length (takeWhile (\<lambda>b. b = 1) bs)))"

definition demo_raw :: "raw_reception option list list" where
  "demo_raw =
     [[None, Some \<lparr>rw_bytes = replicate 8 0, rw_t1 = 0, rw_t2 = 0, rw_us = 3\<rparr>], [None, None],
      [Some \<lparr>rw_bytes = [1, 0, 0, 0, 0, 0, 0, 0, 9], rw_t1 = 5, rw_t2 = 6, rw_us = 4\<rparr>, None]]"

definition demo_rx :: "reception option list list" where
  "demo_rx =
     [[None, Some \<lparr>rx_event = demo_events ! 0, rx_t1 = 0, rx_t2 = 0, rx_us = 3\<rparr>], [None, None],
      [Some \<lparr>rx_event = demo_events ! 1, rx_t1 = 5, rx_t2 = 6, rx_us = 4\<rparr>, None]]"

lemma demo_arrives: "list_all2 (list_all2 (rel_option (arrives demo_lib (=)))) demo_raw demo_rx"
proof -
  have m: "message_rep demo_lib (=) (replicate 8 0) (event_wire zero_base (demo_events ! 0))"
    "message_rep demo_lib (=) [1, 0, 0, 0, 0, 0, 0, 0, 9] (event_wire zero_base (demo_events ! 1))"
    by (simp_all add: message_rep_def demo_lib_def tree_lib_def Let_def)
  have ok: "base_ok zero_base (demo_events ! 0)" "base_ok zero_base (demo_events ! 1)"
    by (simp_all add: demo_events_def zero_base_def sized_def Let_def)
  have al: "\<forall>ex ac al. demo_events ! 0 = Selfdrive_state ex ac al \<longrightarrow> c_str al = al"
    "\<forall>ex ac al. demo_events ! 1 = Selfdrive_state ex ac al \<longrightarrow> c_str al = al"
    by (simp_all add: demo_events_def c_str_def)
  have "arrives demo_lib (=) \<lparr>rw_bytes = replicate 8 0, rw_t1 = 0, rw_t2 = 0, rw_us = 3\<rparr>
      \<lparr>rx_event = demo_events ! 0, rx_t1 = 0, rx_t2 = 0, rx_us = 3\<rparr>"
    "arrives demo_lib (=) \<lparr>rw_bytes = [1, 0, 0, 0, 0, 0, 0, 0, 9], rw_t1 = 5, rw_t2 = 6, rw_us = 4\<rparr>
      \<lparr>rx_event = demo_events ! 1, rx_t1 = 5, rx_t2 = 6, rx_us = 4\<rparr>"
    unfolding arrives_def using m ok al by auto
  then show ?thesis by (simp add: demo_raw_def demo_rx_def)
qed

lemma demo_laws: "capnp_laws demo_lib (=)"
  unfolding demo_lib_def by (rule tree_laws)

definition demo_decoder :: vehicle_decoder where
  "demo_decoder = \<lparr>parsers = buildCache parsers_init, the_mapper = Some TeslaCommaPartyMapper, state = car_state_init\<rparr>"

lemma demo_decoder: "vehicle_decoder_new dm [] [] ''tesla_party'' = Some (Inr demo_decoder)"
  by (simp add: vehicle_decoder_new_def demo_decoder_def createMapper_def)

definition demo_flags :: op_flags where
  "demo_flags = \<lparr>fl_mads = f_zero, fl_experimental = f_one, fl_selfdrive = f_zero, fl_lane = f_one\<rparr>"

lemma demo_expected:
  "party_expected (parsers demo_decoder) flags_init (map rx_event (receptions demo_rx)) = Some [with_flags demo_flags car_state_init]"
proof -
  have r: "map rx_event (receptions demo_rx) = demo_events"
    by (simp add: receptions_def demo_rx_def List.map_filter_def demo_events_def)
  have g: "cp_get (updateFrame 2 257 [1, 2] (parsers demo_decoder)) b m n = Some f_zero" for b m n
    by (simp add: demo_decoder_def cp_get_def find_cached_def updateFrame_def buildCache_def parsers_init_def)
  have two: "\<not> f_eq f_zero (f_of_int 2)" by (simp add: f_eval f_eq_def f_key_def)
  have "updatePartyBus (updateFrame 2 257 [1, 2] (parsers demo_decoder)) car_state_init = Some car_state_init"
    by (simp add: updatePartyBus_def read_into_def g car_state_init_def two)
  then show ?thesis
    by (simp add: r demo_events_def party_snapshot_def demo_flags_def flags_init_def f_bool_def)
qed

end
