(* ===== verification/Spec2Isabelle.thy ===== *)
theory Spec2Isabelle
  imports DbcProps CarProps MsgqSystem IpcProps BridgeProps LoopBytes
begin

text \<open>
  A verification library for the native bridge of dashpilot, the C++ code under \<open>src/bridge\<close> and the Android interface
  \<open>src/dashpilot-android/bridge/src/main/cpp/jni_bridge.cpp\<close>.

  \<^bold>\<open>The program.\<close> A driving computer publishes messages; the bridge, a library inside a phone app, subscribes
  to them (\<open>msgq\<close>), reads each one (\<open>capnp\<close>), and handles it in a receive loop (\<open>common/bridge_core.h\<close>): frames of the
  vehicle's CAN buses go to the latest-frame cache of the vehicle decoder (\<open>common/vehicle_decoder.h\<close>, \<open>car/can_parsers.h\<close>), whose
  mapper (\<open>car/cars/tesla.h\<close>) looks signals up by name, decodes them with a DBC file (\<open>dbc\<close>) and fills the vehicle state
  (\<open>car/car_state.h\<close>), which is exported to the app as an array of doubles or a C struct (\<open>bridge_ios.cpp\<close>, \<open>jni_bridge.cpp\<close>).

  \<^bold>\<open>Theories and code.\<close>
  \<^item> \<open>Prelude\<close>, \<open>Memory\<close>, \<open>Binary64\<close>, \<open>CStrings\<close>: what C++ gives. Words of fixed width, C's division, checked reads and shifts
    (\<open>None\<close> where the standard leaves the result undefined), sorted maps; bytes and the words in them; doubles as IEEE 754 bit
    patterns with correctly rounded operations; strings, \<open>stoi\<close>, \<open>stoul\<close>, \<open>stod\<close>, and the helpers of \<open>dbc/dbcfile.cc\<close>.
  \<^item> \<open>DbcSignal\<close>, \<open>DbcMsg\<close>: \<open>dbc/dbc.h\<close>, \<open>dbc/dbc.cc\<close>. A signal is a record with the fields of \<open>cabana::Signal\<close>, a message one with those
    of \<open>cabana::Msg\<close>; pointers between signals of a message are indices.
  \<^item> \<open>LineRegex\<close>, \<open>DbcFile\<close>: \<open>dbc/dbcfile.h\<close>, \<open>dbc/dbcfile.cc\<close>, with a backtracking matcher for the regular expressions used.
  \<^item> \<open>CanParsers\<close>, \<open>CarState\<close>, \<open>Tesla\<close>, \<open>Decoder\<close>: \<open>car\<close>, \<open>common/vehicle_decoder.h\<close>, and \<open>processMessage\<close> and \<open>runReceiveLoop\<close> of
    \<open>common/bridge_core.h\<close>.
  \<^item> \<open>Capnp\<close>, \<open>CapnpBuild\<close>, \<open>CapnpFields\<close>: the generated accessors of \<open>capnp/gen\<close> for the messages the program reads, on the inline
    part of the runtime in \<open>include/capnp\<close>.
  \<^item> \<open>Interfaces\<close>, \<open>Zmq\<close>, \<open>Msgq\<close>, \<open>ImplMsgq\<close>, \<open>EventFd\<close>, \<open>Ipc\<close>: \<open>msgq\<close>. The abstract classes of \<open>ipc.h\<close>
    are locales, interpreted on both transports; \<open>Msgq\<close> is the lock-free queue in shared memory, \<open>EventFd\<close> the events that let
    a test driver and a faked socket take turns.
  \<^item> \<open>Discovery\<close>, \<open>Bridge\<close>: socket groups and the search for a publisher, the Swift and Java interfaces, and the handshake
    between starting and stopping the receive loop as a step relation of two threads.

  State is passed explicitly. An exception is the left of a sum, undefined behaviour and failed assertions are
  \<open>None\<close>; a system call, a clock, a random number, a file or a result of a library is an argument. So is the data model of the
  platform, where the width of \<open>size_t\<close> or \<open>unsigned long\<close> matters (ports, numbers in DBC files): the Android build has a 32-bit ABI.

  \<^bold>\<open>What is shown.\<close>
  \<^item> \<open>DbcProps\<close>: the decoder's bit loops compute the payload bits at the signal's positions, for both byte orders, and the double is
    exact up to 53 bits; what happens beyond the payload; the invariant of messages under every edit, and the mask; the parser reads
    printed lines back, establishes the invariant and locates errors; where the code is undefined.
  \<^item> \<open>CarProps\<close>: frames of other messages do not matter, a lookup decodes the last frame; the exported array determines the
    state; the VIN's segments may arrive in any order; blinkers and the power gauge; the receive loop delivers one state per CAN message.
  \<^item> \<open>MsgqProof\<close>, \<open>MsgqRecv\<close>, \<open>MsgqSystem\<close>: every reader of the queue sees a subsequence of what was sent, in every interleaving
    of operations of any number of publishers and readers; operations return, but a reader aborts at an empty message, which
    sending allows; a reader that keeps up loses nothing. Runs are shorter than 2^32 laps of the writer.
  \<^item> \<open>IpcProps\<close>, \<open>Discovery\<close>, \<open>BridgeProps\<close>: ports on both data models, ownership of messages; waiting for events and the turns of a faked socket, while other
    processes set events and signals interrupt; what discovery
    returns and that its pollers are never overfull; after a stop in time no socket is touched.
  \<^item> \<open>CapnpFields\<close>, \<open>CapnpProps\<close>: fields do not overlap, and handling the bytes that the generated builders made for an event refines
    handling the event.
  \<^item> \<open>LoopBytes\<close> and this theory: the receive loop on bytes refines the loop on events, and what reaches the app from the party-bus
    decoder is a function of the messages received.

  \<^bold>\<open>Loops.\<close> Structural recursion where the code iterates over a container; \<open>raw_loop\<close> and \<open>mask_loop\<close> with a measure on the bits
  left, the batches of discovery on the sockets left; \<open>replaceAll\<close> and the reader's retries in the queue are partial functions, with theorems
  that they return (and when not). \<open>newSignalName\<close> gets one turn more than there are signals, which is shown to be enough. The receive
  loop and the search take the list of what each pass receives, so a theorem for all lists is one for every length of run.

  \<^bold>\<open>Not modelled.\<close> The apps in Kotlin, Swift and JavaScript; the vendored headers \<open>include\<close> except the inline functions named
  above, whose implementation files are not in the repository: following a pointer of a message and copying to one are parameters;
  generated accessors of messages the program never reads, and the encoded schemas; the text of the log lines (what they are computed from is modelled);
  the branches of \<open>msgq/msgq.cc\<close> for Apple systems; memory ordering between processes: an operation of the
  queue runs to its end before the next one begins.
\<close>

section \<open>From received bytes to the app\<close>

text \<open>
  C38. The receive loop on bytes refines the loop on events: when every message that the sockets receive was made by
  the generated builders for an event, whatever its other fields are, and the runtime follows pointers as it documents, then the loop
  throws nothing and ends in the same state, with the same callbacks, counters and sleeps, as the loop that is given the events, and
  is undefined exactly when that one is.
\<close>

theorem loop_bytes_refine_events:
  assumes "capnp_laws L rep" "list_all2 (list_all2 (rel_option (arrives L rep))) ws ps"
  shows "runReceiveLoop_bytes L ws st = map_option Inr (runReceiveLoop ps st)"
  by (rule loop_bytes_event [OF assms])

text \<open>A run of three passes with two messages: it sleeps once.\<close>

theorem loop_bytes_refine_events_witness:
  "map_option (map_sum id snd) (runReceiveLoop_bytes demo_lib demo_raw (loop_init demo_decoder)) = Some (Inr 1)"
proof -
  have "runReceiveLoop demo_rx (loop_init demo_decoder) \<noteq> None"
    using party_loop [OF party_decoder_new [OF demo_decoder], of demo_rx] demo_expected
    by (cases "runReceiveLoop demo_rx (loop_init demo_decoder)") simp_all
  then obtain st n where run: "runReceiveLoop demo_rx (loop_init demo_decoder) = Some (st, n)" by auto
  then have "n = 1" by (auto simp: runReceiveLoop_all demo_rx_def)
  then show ?thesis
    using loop_bytes_refine_events [OF demo_laws demo_arrives, of "loop_init demo_decoder"] run by simp
qed

text \<open>
  C39. What the app gets from a party-bus decoder is a function of the messages alone: for each CAN message, in order, the
  callback gets the struct whose fields are read from the CAN frames received up to then and whose flags are those of the
  self-driving messages received up to then. Nothing else of the loop's past shows in it: not the polling rounds, not the clock,
  not earlier states.
\<close>

theorem app_sees_messages:
  assumes "capnp_laws L rep" "list_all2 (list_all2 (rel_option (arrives L rep))) ws ps"
    and "vehicle_decoder_new dm contents buses ''tesla_party'' = Some (Inr d)"
  shows "map_option (map_sum id (\<lambda>(st, n). map carStateToBridge (loop_state.delivered st))) (runReceiveLoop_bytes L ws (loop_init d)) =
    map_option (\<lambda>ss. Inr (map carStateToBridge ss)) (party_expected (parsers d) flags_init (map rx_event (receptions ps)))"
  unfolding party_loop [OF party_decoder_new [OF assms(3)], of ps, symmetric]
  by (cases "runReceiveLoop ps (loop_init d)") (auto simp: loop_bytes_event [OF assms(1,2)])

theorem app_sees_messages_witness:
  "map_option (map_sum id (\<lambda>(st, n). map carStateToBridge (loop_state.delivered st)))
      (runReceiveLoop_bytes demo_lib demo_raw (loop_init demo_decoder)) =
    Some (Inr [carStateToBridge (with_flags demo_flags car_state_init)])"
  using app_sees_messages [OF demo_laws demo_arrives demo_decoder] by (simp add: demo_expected)

end
